(* ===== verification/Prelude.thy ===== *)
theory Prelude
  imports Complex_Main "HOL-Library.AList" "HOL-Library.List_Lexorder" "HOL-Library.Char_ord"
begin

text \<open>
  The shared base of the development: the result type of fallible code, Python's text of an
  integer and its inverse, the two shapes of an SQL \<open>UPDATE ... WHERE\<close>, and PostgreSQL's
  \<open>NUMERIC(p,s)\<close> rounding. Everything here is used by at least two component theories.
\<close>

named_theorems table_simps \<open>how the SQL statements act on the tables\<close>
named_theorems money_simps \<open>NUMERIC columns on amounts that fit their scale\<close>

section \<open>Names for the model's basic types\<close>

text \<open>
  A UUID is identified with its canonical text, a timestamp and an interval are a number of
  microseconds (the resolution of \<open>TIMESTAMPTZ\<close>), and money is an exact rational: Python's
  \<open>Decimal\<close> arithmetic is exact on the amounts of this program (28 significant digits) and
  PostgreSQL's \<open>NUMERIC\<close> is exact up to the rounding of the column, written out below.
\<close>

type_synonym uuid = string
type_synonym time = int
type_synonym money = rat
type_synonym environ = "string \<Rightarrow> string option"

section \<open>Errors as values\<close>

text \<open>
  Every exception the modelled code raises or lets through: the first four are raised by
  PostgreSQL (a unique or foreign-key violation, a numeric field overflow, a NUL character in a
  \<open>jsonb\<close> value), the others by the Python code.
\<close>

datatype error =
    UniqueViolation
  | ForeignKeyViolation
  | NumericOverflow
  | UntranslatableCharacter
  | RunNotFoundError uuid
  | LeaseLostError uuid nat string
  | UnsafePathError string
  | KeyError string
  | IndexError
  | ZeroDivisionError
  | TypeError
  | AttributeError
  | ValueError string
  | RuntimeError string
  | OSError
  | QuotaExhaustedError string

type_synonym 'a result = "error + 'a"

text \<open>Sequencing: the rest runs only when the first part did not raise.\<close>

definition bind_result :: "'a result \<Rightarrow> ('a \<Rightarrow> 'b result) \<Rightarrow> 'b result" where
  "bind_result m f = (case m of Inl e \<Rightarrow> Inl e | Inr x \<Rightarrow> f x)"

lemma bind_result_simps [simp]:
  "bind_result (Inl e) f = Inl e" "bind_result (Inr x) f = f x"
  by (simp_all add: bind_result_def)

lemma bind_result_Inr_iff: "bind_result m f = Inr y \<longleftrightarrow> (\<exists>x. m = Inr x \<and> f x = Inr y)"
  by (cases m) auto

text \<open>A comprehension whose body may raise: the first exception ends it.\<close>

fun map_result :: "('a \<Rightarrow> 'b result) \<Rightarrow> 'a list \<Rightarrow> 'b list result" where
  "map_result f [] = Inr []"
| "map_result f (x # xs) =
     (case f x of Inl e \<Rightarrow> Inl e
      | Inr y \<Rightarrow> (case map_result f xs of Inl e \<Rightarrow> Inl e | Inr ys \<Rightarrow> Inr (y # ys)))"

lemma map_result_Inr [simp]: "map_result (\<lambda>x. Inr (f x)) xs = Inr (map f xs)"
  by (induction xs) auto

lemma map_result_cong_Inr: "(\<And>x. x \<in> set xs \<Longrightarrow> f x = Inr (g x)) \<Longrightarrow> map_result f xs = Inr (map g xs)"
  by (induction xs) auto

lemma map_result_InrD: "map_result f xs = Inr ys \<Longrightarrow> list_all2 (\<lambda>x y. f x = Inr y) xs ys"
  by (induction xs arbitrary: ys) (auto split: sum.splits)

section \<open>Python's \<open>str(n)\<close> and \<open>int(s)\<close> on natural numbers\<close>

definition digit_char :: "nat \<Rightarrow> char" where
  "digit_char d = char_of (48 + d)"

definition digit_val :: "char \<Rightarrow> nat" where
  "digit_val c = of_char c - 48"

definition is_digit :: "char \<Rightarrow> bool" where
  "is_digit c \<longleftrightarrow> 48 \<le> (of_char c :: nat) \<and> (of_char c :: nat) \<le> 57"

fun str_nat :: "nat \<Rightarrow> string" where
  "str_nat n = (if n < 10 then [digit_char n] else str_nat (n div 10) @ [digit_char (n mod 10)])"

declare str_nat.simps [simp del]

definition int_of_str :: "string \<Rightarrow> nat" where
  "int_of_str s = foldl (\<lambda>a c. 10 * a + digit_val c) 0 s"

definition str_int :: "int \<Rightarrow> string" where
  "str_int i = (if i < 0 then CHR ''-'' # str_nat (nat (- i)) else str_nat (nat i))"

lemma of_char_digit_char [simp]: "d < 10 \<Longrightarrow> (of_char (digit_char d) :: nat) = 48 + d"
  by (simp add: digit_char_def)

lemma digit_val_digit_char [simp]: "d < 10 \<Longrightarrow> digit_val (digit_char d) = d"
  by (simp add: digit_val_def)

lemma is_digit_digit_char [simp]: "d < 10 \<Longrightarrow> is_digit (digit_char d)"
  by (simp add: is_digit_def)

lemma int_of_str_snoc [simp]: "int_of_str (s @ [c]) = 10 * int_of_str s + digit_val c"
  by (simp add: int_of_str_def)

lemma int_of_str_str_nat [simp]: "int_of_str (str_nat n) = n"
proof (induction n rule: str_nat.induct)
  case (1 n)
  show ?case
  proof (cases "n < 10")
    case True
    then show ?thesis by (simp add: str_nat.simps [of n] int_of_str_def)
  next
    case False
    with 1 show ?thesis by (simp add: str_nat.simps [of n])
  qed
qed

lemma str_nat_inject [simp]: "str_nat m = str_nat n \<longleftrightarrow> m = n"
  by (metis int_of_str_str_nat)

lemma str_nat_digits: "c \<in> set (str_nat n) \<Longrightarrow> is_digit c"
proof (induction n rule: str_nat.induct)
  case (1 n)
  then show ?case by (cases "n < 10") (auto simp: str_nat.simps [of n])
qed

lemma str_nat_nonempty [simp]: "str_nat n \<noteq> []"
  by (subst str_nat.simps) simp

section \<open>Splitting text\<close>

text \<open>\<open>s.split(sep)\<close> for a one-character separator, and its inverse \<open>sep.join(parts)\<close>.\<close>

fun split_char :: "char \<Rightarrow> string \<Rightarrow> string list" where
  "split_char sep [] = [[]]"
| "split_char sep (c # cs) =
     (if c = sep then [] # split_char sep cs
      else case split_char sep cs of [] \<Rightarrow> [[c]] | p # ps \<Rightarrow> (c # p) # ps)"

fun join_str :: "string \<Rightarrow> string list \<Rightarrow> string" where
  "join_str sep [] = []"
| "join_str sep [p] = p"
| "join_str sep (p # q # ps) = p @ sep @ join_str sep (q # ps)"

lemma split_char_nonempty [simp]: "split_char sep s \<noteq> []"
  by (cases s) (auto split: list.splits)

lemma split_char_no_sep: "p \<in> set (split_char sep s) \<Longrightarrow> sep \<notin> set p"
  by (induction s arbitrary: p) (auto split: list.splits if_splits)

lemma set_split_char: "p \<in> set (split_char sep s) \<Longrightarrow> set p \<subseteq> set s"
  by (induction s arbitrary: p) (fastforce split: list.splits if_splits)+

lemma join_split_char: "join_str [sep] (split_char sep s) = s"
proof (induction s)
  case (Cons c s)
  obtain p ps where "split_char sep s = p # ps" by (meson neq_Nil_conv split_char_nonempty)
  with Cons show ?case by (cases ps) auto
qed simp

section \<open>SQL on tables\<close>

text \<open>
  A table is the list of its rows. \<open>UPDATE t SET f WHERE p\<close> rewrites the rows that satisfy
  \<open>p\<close>; when computing a new row can fail (a numeric overflow), the whole statement fails.
\<close>

definition sql_update :: "('r \<Rightarrow> bool) \<Rightarrow> ('r \<Rightarrow> 'r) \<Rightarrow> 'r list \<Rightarrow> 'r list" where
  "sql_update p f rows = map (\<lambda>r. if p r then f r else r) rows"

fun sql_update_opt :: "('r \<Rightarrow> bool) \<Rightarrow> ('r \<Rightarrow> 'r option) \<Rightarrow> 'r list \<Rightarrow> 'r list option" where
  "sql_update_opt p f [] = Some []"
| "sql_update_opt p f (r # rows) =
     (case (if p r then f r else Some r) of
        None \<Rightarrow> None
      | Some r' \<Rightarrow> (case sql_update_opt p f rows of None \<Rightarrow> None | Some rows' \<Rightarrow> Some (r' # rows')))"

lemma sql_update_key [table_simps]:
  "(\<And>r. k (f r) = k r) \<Longrightarrow> map k (sql_update p f rows) = map k rows"
  by (simp add: sql_update_def)

lemma set_sql_update: "set (sql_update p f rows) = (\<lambda>r. if p r then f r else r) ` set rows"
  by (simp add: sql_update_def)

lemma sql_update_none: "(\<And>r. r \<in> set rows \<Longrightarrow> \<not> p r) \<Longrightarrow> sql_update p f rows = rows"
  by (simp add: sql_update_def map_idI)

lemma sql_update_opt_eq_sql_update:
  "sql_update_opt p f rows = Some rows' \<Longrightarrow>
     rows' = sql_update p (\<lambda>r. the (f r)) rows"
  by (induction rows arbitrary: rows')
     (auto simp: sql_update_def split: option.splits if_splits)

lemma sql_update_opt_defined:
  "sql_update_opt p f rows = Some rows' \<Longrightarrow> r \<in> set rows \<Longrightarrow> p r \<Longrightarrow> f r \<noteq> None"
  by (induction rows arbitrary: rows') (auto split: option.splits if_splits)

lemma sql_update_opt_total:
  "(\<And>r. r \<in> set rows \<Longrightarrow> p r \<Longrightarrow> f r \<noteq> None) \<Longrightarrow> \<exists>rows'. sql_update_opt p f rows = Some rows'"
  by (induction rows) fastforce+

text \<open>The row of a table with a given primary key, as \<open>SELECT ... WHERE id=$1\<close> finds it.\<close>

lemma find_SomeD: "List.find p rows = Some r \<Longrightarrow> r \<in> set rows \<and> p r"
  by (auto simp: find_Some_iff)

lemma find_key_unique:
  "distinct (map k rows) \<Longrightarrow> r \<in> set rows \<Longrightarrow> List.find (\<lambda>x. k x = k r) rows = Some r"
  by (induction rows) (auto simp: image_iff)

lemma find_append: "List.find p (xs @ ys) =
    (case List.find p xs of None \<Rightarrow> List.find p ys | Some x \<Rightarrow> Some x)"
  by (induction xs) auto

lemma distinct_key_unique:
  "distinct (map k rows) \<Longrightarrow> r \<in> set rows \<Longrightarrow> r' \<in> set rows \<Longrightarrow> k r = k r' \<Longrightarrow> r = r'"
  by (induction rows) (auto simp: image_iff)

lemma list_all2_set1: "list_all2 R xs ys \<Longrightarrow> x \<in> set xs \<Longrightarrow> \<exists>y \<in> set ys. R x y"
  by (induction rule: list_all2_induct) auto

lemma list_all2_set2: "list_all2 R xs ys \<Longrightarrow> y \<in> set ys \<Longrightarrow> \<exists>x \<in> set xs. R x y"
  by (induction rule: list_all2_induct) auto

section \<open>NUMERIC columns\<close>

text \<open>
  A value stored in a \<open>NUMERIC(p,s)\<close> column is rounded to \<open>s\<close> decimals, ties away from zero,
  and refused when it then has more than \<open>p - s\<close> digits before the point.
\<close>

definition numeric_round :: "nat \<Rightarrow> money \<Rightarrow> money" where
  "numeric_round s x = sgn x * of_int \<lfloor>\<bar>x\<bar> * 10 ^ s + 1 / 2\<rfloor> / 10 ^ s"

definition numeric_cast :: "nat \<Rightarrow> nat \<Rightarrow> money \<Rightarrow> money option" where
  "numeric_cast p s x =
     (let y = numeric_round s x in if \<bar>y\<bar> < 10 ^ (p - s) then Some y else None)"

definition fits_scale :: "nat \<Rightarrow> money \<Rightarrow> bool" where
  "fits_scale s x \<longleftrightarrow> of_int \<lfloor>x * 10 ^ s\<rfloor> = x * 10 ^ s"

lemma fits_scale_iff: "fits_scale s x \<longleftrightarrow> x * 10 ^ s \<in> \<int>"
  unfolding fits_scale_def by (metis Ints_of_int floor_of_int Ints_cases)

lemma fits_scale_0 [simp]: "fits_scale s 0"
  by (simp add: fits_scale_iff)

lemma fits_scale_add: "fits_scale s x \<Longrightarrow> fits_scale s y \<Longrightarrow> fits_scale s (x + y)"
  by (simp add: fits_scale_iff algebra_simps)

lemma numeric_round_fits [money_simps]:
  assumes "fits_scale s x"
  shows "numeric_round s x = x"
proof -
  from assms obtain k where k: "x * 10 ^ s = of_int k"
    by (auto simp: fits_scale_iff Ints_def)
  then have "\<bar>x\<bar> * 10 ^ s = of_int \<bar>k\<bar>"
    by (metis abs_mult abs_of_pos of_int_abs zero_less_numeral zero_less_power)
  moreover have "\<lfloor>of_int \<bar>k\<bar> + 1 / 2 :: rat\<rfloor> = \<bar>k\<bar>"
    by (rule floor_unique) simp_all
  ultimately have "numeric_round s x = sgn x * (\<bar>x\<bar> * 10 ^ s) / 10 ^ s"
    by (simp add: numeric_round_def)
  then show ?thesis by (simp add: sgn_mult_abs)
qed

lemma numeric_round_fits_scale: "fits_scale s (numeric_round s x)"
proof -
  have "numeric_round s x * 10 ^ s = sgn x * of_int \<lfloor>\<bar>x\<bar> * 10 ^ s + 1 / 2\<rfloor>"
    by (simp add: numeric_round_def)
  moreover have "sgn x \<in> \<int>" by (simp add: sgn_if)
  ultimately show ?thesis by (simp add: fits_scale_iff)
qed

lemma numeric_round_error: "\<bar>numeric_round s x - x\<bar> \<le> 1 / (2 * 10 ^ s)"
proof -
  define y where "y = \<bar>x\<bar> * 10 ^ s"
  have fl: "\<bar>of_int \<lfloor>y + 1 / 2\<rfloor> - y\<bar> \<le> 1 / 2"
    by linarith
  have "\<bar>numeric_round s x - x\<bar> * 10 ^ s \<le> \<bar>of_int \<lfloor>y + 1 / 2\<rfloor> - y\<bar>"
  proof (cases "x = 0")
    case False
    have "x * 10 ^ s = sgn x * y"
      by (simp add: y_def sgn_mult_abs mult.assoc [symmetric])
    then have "(numeric_round s x - x) * 10 ^ s = sgn x * (of_int \<lfloor>y + 1 / 2\<rfloor> - y)"
      by (simp add: numeric_round_def y_def [symmetric] algebra_simps)
    then have "\<bar>numeric_round s x - x\<bar> * 10 ^ s = \<bar>sgn x\<bar> * \<bar>of_int \<lfloor>y + 1 / 2\<rfloor> - y\<bar>"
      by (metis abs_mult abs_of_pos zero_less_numeral zero_less_power)
    with False show ?thesis by (simp add: sgn_if split: if_splits)
  qed (simp add: numeric_round_def)
  with fl have "\<bar>numeric_round s x - x\<bar> * 10 ^ s \<le> 1 / 2" by linarith
  then show ?thesis by (simp add: field_simps)
qed

lemma numeric_cast_fits: "fits_scale s x \<Longrightarrow> numeric_cast p s x = Some y \<Longrightarrow> y = x"
  by (auto simp: numeric_cast_def Let_def numeric_round_fits split: if_splits)

lemma numeric_cast_scale: "numeric_cast p s x = Some y \<Longrightarrow> fits_scale s y"
  by (auto simp: numeric_cast_def Let_def numeric_round_fits_scale split: if_splits)

end
