(* ===== verification/Values.thy ===== *)
theory Values
  imports Prelude
begin

text \<open>
  The dynamic values the program passes around: task specs, event payloads, agent actions and
  observations are Python dicts that travel through JSON. The theory holds the value type, the
  dict operations the code uses, the conversions \<open>int(x)\<close>, \<open>float(x)\<close> and \<open>Decimal(x)\<close> with
  their exceptions, the key-sorted form behind \<open>json.dumps(x, sort_keys=True)\<close>, and which values
  a \<open>jsonb\<close> column accepts.
\<close>

section \<open>JSON values and dicts\<close>

text \<open>
  \<open>JFloat q\<close> is a finite float, identified by the decimal number its \<open>repr\<close> denotes; \<open>JDec q\<close>
  is the JSON string \<open>str(d)\<close> of a \<open>Decimal\<close> \<open>d\<close> with value \<open>q\<close> (the program writes every amount
  that way, and reads it back with \<open>Decimal(...)\<close>). A dict is an association list: the code only
  looks keys up, adds or overwrites them and asks whether they are there, so the order of the
  entries is never observed.
\<close>

datatype json =
    JNull
  | JBool bool
  | JInt int
  | JFloat money
  | JStr string
  | JDec money
  | JList "json list"
  | JObj "(string \<times> json) list"

type_synonym dict = "(string \<times> json) list"

definition has_key :: "string \<Rightarrow> dict \<Rightarrow> bool" where
  "has_key k d \<longleftrightarrow> map_of d k \<noteq> None"

definition get_default :: "dict \<Rightarrow> string \<Rightarrow> json \<Rightarrow> json" where
  "get_default d k v = (case map_of d k of None \<Rightarrow> v | Some x \<Rightarrow> x)"

text \<open>A method call on a value that has to be a dict: anything else raises \<open>AttributeError\<close>.\<close>

definition as_dict :: "json \<Rightarrow> dict result" where
  "as_dict v = (case v of JObj d \<Rightarrow> Inr d | _ \<Rightarrow> Inl AttributeError)"

text \<open>\<open>d[k]\<close> on a dict.\<close>

definition dict_item :: "dict \<Rightarrow> string \<Rightarrow> json result" where
  "dict_item d k = (case map_of d k of None \<Rightarrow> Inl (KeyError k) | Some x \<Rightarrow> Inr x)"

text \<open>Truth value of an object, as \<open>if x\<close> and \<open>x or y\<close> read it.\<close>

fun truthy :: "json \<Rightarrow> bool" where
  "truthy JNull = False"
| "truthy (JBool b) = b"
| "truthy (JInt i) = (i \<noteq> 0)"
| "truthy (JFloat q) = (q \<noteq> 0)"
| "truthy (JStr s) = (s \<noteq> [])"
| "truthy (JDec q) = True"
| "truthy (JList xs) = (xs \<noteq> [])"
| "truthy (JObj d) = (d \<noteq> [])"

section \<open>Numbers from values\<close>

definition all_digits :: "string \<Rightarrow> bool" where
  "all_digits s \<longleftrightarrow> s \<noteq> [] \<and> list_all is_digit s"

definition split_sign :: "string \<Rightarrow> bool \<times> string" where
  "split_sign s = (case s of
       c # cs \<Rightarrow> if c = CHR ''-'' then (True, cs) else if c = CHR ''+'' then (False, cs) else (False, s)
     | [] \<Rightarrow> (False, s))"

definition parse_int :: "string \<Rightarrow> int option" where
  "parse_int s = (let (neg, ds) = split_sign s in
     if all_digits ds then Some (if neg then - int (int_of_str ds) else int (int_of_str ds)) else None)"

text \<open>Decimal text without an exponent: an optional sign, digits, an optional fraction.\<close>

definition parse_plain_decimal :: "string \<Rightarrow> money option" where
  "parse_plain_decimal s = (let (neg, body) = split_sign s;
       ip = takeWhile (\<lambda>c. c \<noteq> CHR ''.'') body;
       fp = drop (Suc (length ip)) body
     in if all_digits (ip @ fp)
        then Some ((if neg then -1 else 1) * of_nat (int_of_str (ip @ fp)) / 10 ^ length fp)
        else None)"

text \<open>Decimal text: a plain decimal, optionally followed by \<open>E\<close> (or \<open>e\<close>) and an exponent.\<close>

definition parse_decimal :: "string \<Rightarrow> money option" where
  "parse_decimal s = (let mant = takeWhile (\<lambda>c. c \<noteq> CHR ''E'' \<and> c \<noteq> CHR ''e'') s;
       rest = drop (length mant) s
     in if rest = [] then parse_plain_decimal mant
        else (case (parse_plain_decimal mant, parse_int (tl rest)) of
                (Some m, Some e) \<Rightarrow>
                  Some (if e < 0 then m / 10 ^ nat (- e) else m * 10 ^ nat e)
              | _ \<Rightarrow> None))"

definition py_int :: "json \<Rightarrow> int result" where
  "py_int v = (case v of
       JInt i \<Rightarrow> Inr i
     | JBool b \<Rightarrow> Inr (if b then 1 else 0)
     | JFloat q \<Rightarrow> Inr (if q < 0 then \<lceil>q\<rceil> else \<lfloor>q\<rfloor>)
     | JStr s \<Rightarrow> (case parse_int s of None \<Rightarrow> Inl (ValueError s) | Some i \<Rightarrow> Inr i)
     | JDec q \<Rightarrow> Inl (ValueError ''invalid literal for int()'')
     | _ \<Rightarrow> Inl TypeError)"

definition py_float :: "json \<Rightarrow> money result" where
  "py_float v = (case v of
       JInt i \<Rightarrow> Inr (of_int i)
     | JBool b \<Rightarrow> Inr (if b then 1 else 0)
     | JFloat q \<Rightarrow> Inr q
     | JStr s \<Rightarrow> (case parse_decimal s of None \<Rightarrow> Inl (ValueError s) | Some q \<Rightarrow> Inr q)
     | JDec q \<Rightarrow> Inr q
     | _ \<Rightarrow> Inl TypeError)"

text \<open>
  \<open>Decimal(x)\<close> for the JSON value \<open>x\<close>. Text that is no decimal raises
  \<open>decimal.InvalidOperation\<close>.
\<close>

definition py_Decimal :: "json \<Rightarrow> money result" where
  "py_Decimal v = (case v of
       JDec q \<Rightarrow> Inr q
     | JStr s \<Rightarrow> (case parse_decimal s of None \<Rightarrow> Inl (ValueError ''InvalidOperation'') | Some q \<Rightarrow> Inr q)
     | JInt i \<Rightarrow> Inr (of_int i)
     | JBool b \<Rightarrow> Inr (if b then 1 else 0)
     | JFloat q \<Rightarrow> Inr q
     | _ \<Rightarrow> Inl TypeError)"

text \<open>\<open>Decimal(str(x))\<close>: the text of a bool, \<open>None\<close>, a list or a dict is no decimal.\<close>

definition py_Decimal_str :: "json \<Rightarrow> money result" where
  "py_Decimal_str v = (case v of
       JDec q \<Rightarrow> Inr q
     | JStr s \<Rightarrow> (case parse_decimal s of None \<Rightarrow> Inl (ValueError ''InvalidOperation'') | Some q \<Rightarrow> Inr q)
     | JInt i \<Rightarrow> Inr (of_int i)
     | JFloat q \<Rightarrow> Inr q
     | _ \<Rightarrow> Inl (ValueError ''InvalidOperation''))"

section \<open>JSON text and \<open>jsonb\<close>\<close>

text \<open>
  \<open>json.dumps(x, sort_keys=True)\<close> writes the entries of every dict in the order of their keys.
  The text and the key-sorted value determine each other, so the model keeps the value.
\<close>

primrec sorted_dumps :: "json \<Rightarrow> json" where
  "sorted_dumps JNull = JNull"
| "sorted_dumps (JBool b) = JBool b"
| "sorted_dumps (JInt i) = JInt i"
| "sorted_dumps (JFloat q) = JFloat q"
| "sorted_dumps (JStr s) = JStr s"
| "sorted_dumps (JDec q) = JDec q"
| "sorted_dumps (JList xs) = JList (map sorted_dumps xs)"
| "sorted_dumps (JObj d) = JObj (sort_key fst (map (map_prod id sorted_dumps) d))"

text \<open>A \<open>jsonb\<close> column refuses the character U+0000 anywhere in a string or a key.\<close>

definition no_nul :: "string \<Rightarrow> bool" where
  "no_nul s \<longleftrightarrow> CHR 0x00 \<notin> set s"

primrec jsonb_ok :: "json \<Rightarrow> bool" where
  "jsonb_ok JNull = True"
| "jsonb_ok (JBool b) = True"
| "jsonb_ok (JInt i) = True"
| "jsonb_ok (JFloat q) = True"
| "jsonb_ok (JStr s) = no_nul s"
| "jsonb_ok (JDec q) = True"
| "jsonb_ok (JList xs) = list_all id (map jsonb_ok xs)"
| "jsonb_ok (JObj d) = list_all (\<lambda>(k, ok). no_nul k \<and> ok) (map (map_prod id jsonb_ok) d)"

lemma jsonb_ok_update:
  "jsonb_ok (JObj d) \<Longrightarrow> no_nul k \<Longrightarrow> jsonb_ok v \<Longrightarrow> jsonb_ok (JObj (AList.update k v d))"
  by (induction d) (auto simp: list.pred_map)

section \<open>When two dicts have the same sorted text\<close>

text \<open>
  Two dicts (no key twice, as in Python) have the same sorted text iff they have the same keys
  and the same sorted text at every key.
\<close>

lemma set_eq_if_map_of_eq:
  assumes "distinct (map fst xs)" and "distinct (map fst ys)" and "map_of xs = map_of ys"
  shows "set xs = set ys"
  using assms by (metis map_of_eq_Some_iff subrelI subset_antisym)

lemma sort_key_fst_eq_iff:
  fixes xs ys :: "(string \<times> json) list"
  assumes "distinct (map fst xs)" and "distinct (map fst ys)"
  shows "sort_key fst xs = sort_key fst ys \<longleftrightarrow> map_of xs = map_of ys"
proof
  assume "sort_key fst xs = sort_key fst ys"
  then have "set xs = set ys" by (metis set_sort)
  with assms show "map_of xs = map_of ys" by (simp add: map_of_inject_set)
next
  assume "map_of xs = map_of ys"
  then have s: "set (sort_key fst xs) = set (sort_key fst ys)"
    using set_eq_if_map_of_eq [OF assms] by simp
  have d: "distinct (map fst (sort_key fst xs))" "distinct (map fst (sort_key fst ys))"
    using assms by (simp_all only: distinct_map distinct_sort set_sort)
  have "map fst (sort_key fst xs) = map fst (sort_key fst ys)"
    by (rule sorted_distinct_set_unique [OF sorted_sort_key d(1) sorted_sort_key d(2)])
       (simp only: set_map s)
  moreover have "inj_on fst (set (sort_key fst xs) \<union> set (sort_key fst ys))"
    using d(1) by (simp only: s distinct_map Un_absorb)
  ultimately show "sort_key fst xs = sort_key fst ys"
    by (rule map_inj_on)
qed

lemma map_of_map_prod_id: "map_of (map (map_prod id f) d) k = map_option f (map_of d k)"
  by (induction d) auto

lemma sorted_dumps_dict_eq_iff:
  assumes "distinct (map fst d)" and "distinct (map fst d')"
  shows "sorted_dumps (JObj d) = sorted_dumps (JObj d') \<longleftrightarrow>
    (\<forall>k. map_option sorted_dumps (map_of d k) = map_option sorted_dumps (map_of d' k))"
proof -
  have "distinct (map fst (map (map_prod id sorted_dumps) d))"
    "distinct (map fst (map (map_prod id sorted_dumps) d'))"
    using assms by (simp_all add: comp_def)
  from sort_key_fst_eq_iff [OF this] show ?thesis
    by (simp add: fun_eq_iff map_of_map_prod_id)
qed

lemma parse_decimal_cent: "parse_decimal ''0.0001'' = Some (1 / 10000)"
  by (simp add: parse_decimal_def parse_plain_decimal_def split_sign_def all_digits_def is_digit_def
      int_of_str_def digit_val_def Let_def)

end
