(* ===== verification/Store.thy ===== *)
theory Store
  imports Values
begin

text \<open>
  \<open>src/phoenix/store.py\<close> and the tables of \<open>migrations/\<close>: the rows of the database, the
  idempotency key of a step, creating a run, the idempotent append of an event and the replay of a
  run's log, and the migration runner. A transaction is a function from the database to either an
  error (it is rolled back, the caller keeps the old database) or the new database and a value;
  \<open>now\<close> is the transaction's \<open>now()\<close>. The interface the engine relies on is the locale
  \<open>event_log\<close> at the end, interpreted on the tables.
\<close>

section \<open>The tables\<close>

datatype run_status = Pending | Running | Succeeded | Failed | Budget_exceeded

datatype task_status = Queued | Leased | Done

text \<open>The text of a status in the database.\<close>

fun status_text :: "run_status \<Rightarrow> string" where
  "status_text Pending = ''pending''"
| "status_text Running = ''running''"
| "status_text Succeeded = ''succeeded''"
| "status_text Failed = ''failed''"
| "status_text Budget_exceeded = ''budget_exceeded''"

record run_row =
  r_id :: uuid
  r_task_spec :: dict
  r_status :: run_status
  r_budget_usd :: money
  r_spent_usd :: money
  r_created_at :: time
  r_finished_at :: "time option"

record event =
  ev_run_id :: uuid
  ev_seq :: nat
  ev_type :: string
  ev_payload :: dict
  ev_idem_key :: string

record event_row =
  er_event :: event
  er_created_at :: time

record task_row =
  t_id :: uuid
  t_run_id :: uuid
  t_status :: task_status
  t_lease_owner :: "string option"
  t_lease_expires_at :: "time option"
  t_attempt :: nat
  t_available_at :: time

record cache_row =
  lc_key :: string
  lc_response :: dict
  lc_input_tokens :: int
  lc_output_tokens :: int
  lc_cost_usd :: money

record call_row =
  pc_id :: nat
  pc_run_id :: uuid
  pc_step_index :: nat
  pc_cache_key :: string
  pc_called_at :: time
  pc_attempt :: nat
  pc_worker_id :: "string option"

record db =
  runs :: "run_row list"
  events :: "event_row list"
  tasks :: "task_row list"
  llm_cache :: "cache_row list"
  provider_calls :: "call_row list"

definition empty_db :: db where
  "empty_db = \<lparr>runs = [], events = [], tasks = [], llm_cache = [], provider_calls = []\<rparr>"

definition find_run :: "uuid \<Rightarrow> db \<Rightarrow> run_row option" where
  "find_run rid d = List.find (\<lambda>r. r_id r = rid) (runs d)"

section \<open>Idempotency keys\<close>

definition step_key :: "uuid \<Rightarrow> nat \<Rightarrow> string" where
  "step_key run_id step_index = run_id @ '':'' @ str_nat step_index"

section \<open>Creating a run\<close>

definition insert_run :: "time \<Rightarrow> uuid \<Rightarrow> dict \<Rightarrow> money \<Rightarrow> db \<Rightarrow> (db \<times> uuid) result" where
  "insert_run now run_id task_spec budget_usd d =
     (if \<not> jsonb_ok (JObj task_spec) then Inl UntranslatableCharacter
      else case numeric_cast 10 4 budget_usd of
        None \<Rightarrow> Inl NumericOverflow
      | Some b \<Rightarrow>
          if run_id \<in> r_id ` set (runs d) then Inl UniqueViolation
          else Inr (d\<lparr>runs := runs d @ [\<lparr>r_id = run_id, r_task_spec = task_spec, r_status = Pending,
                        r_budget_usd = b, r_spent_usd = 0, r_created_at = now,
                        r_finished_at = None\<rparr>]\<rparr>, run_id))"

definition create_run :: "time \<Rightarrow> uuid \<Rightarrow> dict \<Rightarrow> money \<Rightarrow> db \<Rightarrow> (db \<times> uuid) result" where
  "create_run now run_id task_spec budget_usd d = insert_run now run_id task_spec budget_usd d"

section \<open>The event log\<close>

record append_result =
  ar_seq :: nat
  ar_inserted :: bool

text \<open>The events of a run in table order, and in the order \<open>read_events\<close> returns them.\<close>

definition run_events :: "db \<Rightarrow> uuid \<Rightarrow> event list" where
  "run_events d run_id = filter (\<lambda>e. ev_run_id e = run_id) (map er_event (events d))"

definition read_events :: "db \<Rightarrow> uuid \<Rightarrow> event list" where
  "read_events d run_id = sort_key ev_seq (run_events d run_id)"

definition append_event ::
    "time \<Rightarrow> uuid \<Rightarrow> string \<Rightarrow> string \<Rightarrow> dict \<Rightarrow> db \<Rightarrow> (db \<times> append_result) result" where
  "append_event now run_id idem_key ty payload d =
     (case find_run run_id d of
        None \<Rightarrow> Inl (RunNotFoundError run_id)
      | Some _ \<Rightarrow>
          (case List.find (\<lambda>e. ev_idem_key e = idem_key) (run_events d run_id) of
             Some e \<Rightarrow> Inr (d, \<lparr>ar_seq = ev_seq e, ar_inserted = False\<rparr>)
           | None \<Rightarrow>
               let seq = foldr max (map ev_seq (run_events d run_id)) 0 + 1 in
               if \<not> jsonb_ok (JObj payload) then Inl UntranslatableCharacter
               else Inr (d\<lparr>events := events d @
                       [\<lparr>er_event = \<lparr>ev_run_id = run_id, ev_seq = seq, ev_type = ty,
                                      ev_payload = payload, ev_idem_key = idem_key\<rparr>,
                         er_created_at = now\<rparr>]\<rparr>,
                     \<lparr>ar_seq = seq, ar_inserted = True\<rparr>)))"

section \<open>Migrations\<close>

text \<open>
  \<open>exec\<close> stands for PostgreSQL running the text of a migration on the database \<open>'d\<close>. Each file
  runs in its own transaction together with the insert into \<open>schema_migrations\<close>.
\<close>

record 'd schema_state =
  schema_migrations :: "string list"
  schema_db :: 'd

definition is_sql :: "string \<Rightarrow> bool" where
  "is_sql name \<longleftrightarrow> 4 \<le> length name \<and> drop (length name - 4) name = ''.sql''"

fun apply_files :: "(string \<Rightarrow> 'd \<Rightarrow> 'd result) \<Rightarrow> (string \<times> string) list \<Rightarrow> 'd schema_state \<Rightarrow>
    string list \<Rightarrow> 'd schema_state \<times> string list result" where
  "apply_files exec [] st applied = (st, Inr applied)"
| "apply_files exec ((name, script) # files) st applied =
     (if name \<in> set (schema_migrations st) then apply_files exec files st applied
      else case exec script (schema_db st) of
        Inl e \<Rightarrow> (st, Inl e)
      | Inr d \<Rightarrow> apply_files exec files
          (st\<lparr>schema_migrations := schema_migrations st @ [name], schema_db := d\<rparr>)
          (applied @ [name]))"

definition apply_migrations :: "(string \<Rightarrow> 'd \<Rightarrow> 'd result) \<Rightarrow> (string \<times> string) list \<Rightarrow>
    'd schema_state \<Rightarrow> 'd schema_state \<times> string list result" where
  "apply_migrations exec directory st =
     apply_files exec (sort_key fst (filter (is_sql \<circ> fst) directory)) st []"

section \<open>Lemmas: keys\<close>

lemma colon_not_digit: "CHR '':'' \<notin> set (str_nat n)"
  using str_nat_digits [of "CHR '':''" n] by (auto simp: is_digit_def)

lemma step_key_decode:
  "rev (takeWhile (\<lambda>c. c \<noteq> CHR '':'') (rev (step_key r i))) = str_nat i"
proof -
  have "takeWhile (\<lambda>c. c \<noteq> CHR '':'') (rev (str_nat i) @ CHR '':'' # rev r) = rev (str_nat i)"
    using colon_not_digit [of i] by (simp add: takeWhile_tail takeWhile_eq_all_conv) metis
  then show ?thesis by (simp add: step_key_def)
qed

lemma step_key_inject [simp]: "step_key r i = step_key r' j \<longleftrightarrow> r = r' \<and> i = j"
proof
  assume eq: "step_key r i = step_key r' j"
  then have "str_nat i = str_nat j" by (metis step_key_decode)
  then have "i = j" by simp
  with eq show "r = r' \<and> i = j" by (simp add: step_key_def)
qed simp

section \<open>Lemmas: the log\<close>

text \<open>A run's log is gapless: sequence numbers \<open>1..n\<close> in table order.\<close>

definition gapless :: "db \<Rightarrow> uuid \<Rightarrow> bool" where
  "gapless d run_id \<longleftrightarrow> map ev_seq (run_events d run_id) = [1..<Suc (length (run_events d run_id))]"

lemma sorted_gapless: "gapless d r \<Longrightarrow> sorted (map ev_seq (run_events d r))"
  unfolding gapless_def by (metis sorted_upt)

lemma read_events_gapless: "gapless d r \<Longrightarrow> read_events d r = run_events d r"
  unfolding read_events_def by (rule sort_key_id_if_sorted) (simp add: sorted_gapless)

lemma foldr_max_upt: "foldr max [1..<Suc n] 0 = n"
proof (induction n)
  case (Suc n)
  have "foldr max xs (k::nat) = max (foldr max xs 0) k" for xs k
    by (induction xs) auto
  from this [of "[1..<Suc n]" "Suc n"] Suc show ?case by simp
qed simp

lemma next_seq_gapless:
  "gapless d r \<Longrightarrow> foldr max (map ev_seq (run_events d r)) 0 = length (run_events d r)"
  unfolding gapless_def by (metis foldr_max_upt)

lemma run_events_update [table_simps]:
  "run_events (d\<lparr>runs := x1\<rparr>) r = run_events d r"
  "run_events (d\<lparr>tasks := x2\<rparr>) r = run_events d r"
  "run_events (d\<lparr>llm_cache := x3\<rparr>) r = run_events d r"
  "run_events (d\<lparr>provider_calls := x4\<rparr>) r = run_events d r"
  by (simp_all add: run_events_def)

lemma read_events_update [table_simps]:
  "read_events (d\<lparr>runs := x1\<rparr>) r = read_events d r"
  "read_events (d\<lparr>tasks := x2\<rparr>) r = read_events d r"
  "read_events (d\<lparr>llm_cache := x3\<rparr>) r = read_events d r"
  "read_events (d\<lparr>provider_calls := x4\<rparr>) r = read_events d r"
  by (simp_all add: read_events_def table_simps)

lemma run_events_snoc:
  "run_events (d\<lparr>events := events d @ [e]\<rparr>) r =
     run_events d r @ (if ev_run_id (er_event e) = r then [er_event e] else [])"
  by (simp add: run_events_def)

text \<open>The three ways an append ends.\<close>

lemma append_event_cases:
  obtains (error) e where "append_event now r k ty p d = Inl e"
  | (existing) e where "append_event now r k ty p d = Inr (d, \<lparr>ar_seq = ev_seq e, ar_inserted = False\<rparr>)"
      "e \<in> set (run_events d r)" "ev_idem_key e = k"
  | (inserted) d' s where
      "append_event now r k ty p d = Inr (d', \<lparr>ar_seq = s, ar_inserted = True\<rparr>)"
      "s = foldr max (map ev_seq (run_events d r)) 0 + 1"
      "d' = d\<lparr>events := events d @ [\<lparr>er_event = \<lparr>ev_run_id = r, ev_seq = s, ev_type = ty,
                   ev_payload = p, ev_idem_key = k\<rparr>, er_created_at = now\<rparr>]\<rparr>"
      "k \<notin> ev_idem_key ` set (run_events d r)" "find_run r d \<noteq> None" "jsonb_ok (JObj p)"
proof (cases "find_run r d")
  case None
  then show ?thesis by (intro error) (simp add: append_event_def)
next
  case (Some row)
  show ?thesis
  proof (cases "List.find (\<lambda>e. ev_idem_key e = k) (run_events d r)")
    case (Some e)
    with \<open>find_run r d = Some row\<close> show ?thesis
      using find_SomeD [OF Some] by (intro existing [of e]) (simp_all add: append_event_def)
  next
    case None
    then have "k \<notin> ev_idem_key ` set (run_events d r)"
      by (auto simp: find_None_iff)
    note new = None Some this
    show ?thesis
    proof (cases "jsonb_ok (JObj p)")
      case True
      with new show ?thesis
        by (intro inserted [OF _ refl refl]) (simp_all add: append_event_def Let_def del: jsonb_ok.simps)
    next
      case False
      with new show ?thesis
        by (intro error) (simp add: append_event_def Let_def del: jsonb_ok.simps)
    qed
  qed
qed

lemma append_event_existing:
  assumes "append_event now r k ty p d = Inr (d', a)" and "\<not> ar_inserted a"
  shows "d' = d \<and> k \<in> ev_idem_key ` set (run_events d r)"
  by (rule append_event_cases [of now r k ty p d]) (use assms in auto)

lemma append_event_inserted:
  assumes "append_event now r k ty p d = Inr (d', a)" and "ar_inserted a" and "gapless d r"
  shows "k \<notin> ev_idem_key ` set (run_events d r)"
    and "run_events d' r = run_events d r @ [\<lparr>ev_run_id = r, ev_seq = Suc (length (run_events d r)),
           ev_type = ty, ev_payload = p, ev_idem_key = k\<rparr>]"
    and "ar_seq a = Suc (length (run_events d r))"
  by (rule append_event_cases [of now r k ty p d];
      use assms in \<open>auto simp: run_events_snoc next_seq_gapless\<close>)+

lemma append_event_frame:
  assumes "append_event now r k ty p d = Inr (d', a)"
  shows "r' \<noteq> r \<Longrightarrow> run_events d' r' = run_events d r'"
    and "runs d' = runs d" "tasks d' = tasks d" "llm_cache d' = llm_cache d"
    and "provider_calls d' = provider_calls d"
  by (rule append_event_cases [of now r k ty p d]; use assms in \<open>auto simp: run_events_snoc\<close>)+

lemma append_event_gapless:
  assumes app: "append_event now r k ty p d = Inr (d', a)" and g: "gapless d r'" and gr: "gapless d r"
  shows "gapless d' r'"
proof (cases "r' = r \<and> ar_inserted a")
  case True
  with append_event_inserted(2) [OF app _ gr] gr show ?thesis by (simp add: gapless_def)
next
  case False
  then have "run_events d' r' = run_events d r'"
    using append_event_existing [OF app] append_event_frame(1) [OF app] by blast
  with g show ?thesis by (simp add: gapless_def)
qed

section \<open>The interface: an append-only, idempotent event log\<close>

text \<open>
  What the engine relies on: appending under a key the run's log already has changes nothing and
  says so; appending under a new key adds exactly one event with the next sequence number; other
  runs are not touched. The clients' lemmas are about any sequence of append requests, by any
  number of writers, retried any number of times.
\<close>

record append_request =
  rq_now :: time
  rq_run :: uuid
  rq_key :: string
  rq_type :: string
  rq_payload :: dict

fun deliver :: "(time \<Rightarrow> uuid \<Rightarrow> string \<Rightarrow> string \<Rightarrow> dict \<Rightarrow> 'd \<Rightarrow> ('d \<times> append_result) result) \<Rightarrow>
    append_request list \<Rightarrow> 'd \<Rightarrow> 'd" where
  "deliver app [] d = d"
| "deliver app (q # qs) d =
     (case app (rq_now q) (rq_run q) (rq_key q) (rq_type q) (rq_payload q) d of
        Inl e \<Rightarrow> deliver app qs d
      | Inr (d', a) \<Rightarrow> deliver app qs d')"

locale event_log =
  fixes log_of :: "'d \<Rightarrow> uuid \<Rightarrow> event list"
    and app :: "time \<Rightarrow> uuid \<Rightarrow> string \<Rightarrow> string \<Rightarrow> dict \<Rightarrow> 'd \<Rightarrow> ('d \<times> append_result) result"
    and ok :: "'d \<Rightarrow> uuid \<Rightarrow> bool"
  assumes app_existing: "ok d r \<Longrightarrow> app now r k ty p d = Inr (d', a) \<Longrightarrow>
      k \<in> ev_idem_key ` set (log_of d r) \<Longrightarrow> log_of d' r = log_of d r \<and> \<not> ar_inserted a"
    and app_new: "ok d r \<Longrightarrow> app now r k ty p d = Inr (d', a) \<Longrightarrow>
      k \<notin> ev_idem_key ` set (log_of d r) \<Longrightarrow>
      ar_inserted a \<and> log_of d' r = log_of d r @ [\<lparr>ev_run_id = r, ev_seq = Suc (length (log_of d r)),
        ev_type = ty, ev_payload = p, ev_idem_key = k\<rparr>]"
    and app_frame: "ok d r \<Longrightarrow> ok d r' \<Longrightarrow> app now r k ty p d = Inr (d', a) \<Longrightarrow> r' \<noteq> r \<Longrightarrow>
      log_of d' r' = log_of d r'"
    and app_ok: "ok d r' \<Longrightarrow> ok d r \<Longrightarrow> app now r k ty p d = Inr (d', a) \<Longrightarrow> ok d' r'"
begin

lemma app_log:
  assumes "\<And>r. ok d r" and "app now r k ty p d = Inr (d', a)"
  shows "log_of d' r' = log_of d r' @
    (if r' = r \<and> k \<notin> ev_idem_key ` set (log_of d r)
     then [\<lparr>ev_run_id = r, ev_seq = Suc (length (log_of d r)), ev_type = ty, ev_payload = p,
            ev_idem_key = k\<rparr>] else [])"
  using app_existing [OF assms] app_new [OF assms] app_frame [OF assms(1,1,2)]
  by (cases "r' = r") auto

lemma deliver_ok: "(\<And>r. ok d r) \<Longrightarrow> ok (deliver app qs d) r"
  by (induction qs arbitrary: d) (auto split: sum.splits intro: app_ok)

lemma deliver_append_only:
  "(\<And>r. ok d r) \<Longrightarrow> \<exists>new. log_of (deliver app qs d) r = log_of d r @ new"
proof (induction qs arbitrary: d)
  case (Cons q qs)
  show ?case
  proof (cases "app (rq_now q) (rq_run q) (rq_key q) (rq_type q) (rq_payload q) d")
    case (Inr x)
    obtain d' a where x: "x = (d', a)" by force
    with Inr Cons.prems have "\<And>r. ok d' r" by (auto intro: app_ok)
    from Cons.IH [OF this] app_log [OF Cons.prems Inr [unfolded x], of r] Inr x
    show ?thesis by auto
  qed (use Cons in auto)
qed simp

lemma deliver_keys_distinct:
  "(\<And>r. ok d r) \<Longrightarrow> distinct (map ev_idem_key (log_of d r)) \<Longrightarrow>
     distinct (map ev_idem_key (log_of (deliver app qs d) r))"
proof (induction qs arbitrary: d)
  case (Cons q qs)
  show ?case
  proof (cases "app (rq_now q) (rq_run q) (rq_key q) (rq_type q) (rq_payload q) d")
    case (Inr x)
    obtain d' a where x: "x = (d', a)" by force
    with Inr Cons.prems(1) have "\<And>r. ok d' r" by (auto intro: app_ok)
    moreover have "distinct (map ev_idem_key (log_of d' r))"
      using Cons.prems(2) app_log [OF Cons.prems(1) Inr [unfolded x], of r] by auto
    ultimately show ?thesis using Cons.IH Inr x by simp
  qed (use Cons in auto)
qed simp

lemma deliver_again:
  "(\<And>r. ok d r) \<Longrightarrow> (\<And>q. q \<in> set qs \<Longrightarrow> rq_key q \<in> ev_idem_key ` set (log_of d (rq_run q))) \<Longrightarrow>
     log_of (deliver app qs d) r = log_of d r"
proof (induction qs arbitrary: d)
  case (Cons q qs)
  show ?case
  proof (cases "app (rq_now q) (rq_run q) (rq_key q) (rq_type q) (rq_payload q) d")
    case (Inr x)
    obtain d' a where x: "x = (d', a)" by force
    with Inr Cons.prems(1) have ok': "\<And>r. ok d' r" by (auto intro: app_ok)
    have same: "log_of d' r' = log_of d r'" for r'
      using Cons.prems(2) [of q] app_log [OF Cons.prems(1) Inr [unfolded x], of r'] by auto
    then have "\<And>q. q \<in> set qs \<Longrightarrow> rq_key q \<in> ev_idem_key ` set (log_of d' (rq_run q))"
      using Cons.prems(2) by simp
    from Cons.IH [OF ok' this] same Inr x show ?thesis by simp
  qed (use Cons in auto)
qed simp

end

interpretation pg_log: event_log read_events append_event gapless
proof
  fix d r now k ty p d' a
  assume ok: "gapless d r" and app: "append_event now r k ty p d = Inr (d', a)"
  { assume "k \<in> ev_idem_key ` set (read_events d r)"
    then have "\<not> ar_inserted a"
      using append_event_inserted(1) [OF app _ ok] by (auto simp: read_events_def)
    then show "read_events d' r = read_events d r \<and> \<not> ar_inserted a"
      using append_event_existing [OF app] by simp }
  { assume "k \<notin> ev_idem_key ` set (read_events d r)"
    then have ins: "ar_inserted a"
      using append_event_existing [OF app] by (auto simp: read_events_def)
    then show "ar_inserted a \<and> read_events d' r = read_events d r @ [\<lparr>ev_run_id = r,
        ev_seq = Suc (length (read_events d r)), ev_type = ty, ev_payload = p, ev_idem_key = k\<rparr>]"
      using append_event_inserted(2) [OF app _ ok] append_event_gapless [OF app ok ok] ok
      by (simp add: read_events_gapless) }
  fix r'
  assume ok': "gapless d r'"
  show "gapless d' r'" by (rule append_event_gapless [OF app ok' ok])
  assume "r' \<noteq> r"
  then show "read_events d' r' = read_events d r'"
    using append_event_frame(1) [OF app] by (simp add: read_events_def)
qed

text \<open>
  The event store is an append-only log with at-most-once steps: whatever append requests
  arrive, from any writers and in any order, the log of every run only grows at its end, its
  sequence numbers are exactly 1..n, no idempotency key occurs twice, and delivering a request
  again whose key is already in the log changes no log at all.
\<close>

theorem append_only_idempotent_log:
  assumes ok: "\<And>r. gapless d r" and keys: "\<And>r. distinct (map ev_idem_key (read_events d r))"
    and d': "d' = deliver append_event qs d"
  shows "(\<exists>new. read_events d' r = read_events d r @ new)
    \<and> map ev_seq (read_events d' r) = [1..<Suc (length (read_events d' r))]
    \<and> distinct (map ev_idem_key (read_events d' r))
    \<and> ((\<forall>q \<in> set rs. rq_key q \<in> ev_idem_key ` set (read_events d' (rq_run q))) \<longrightarrow>
         read_events (deliver append_event rs d') r = read_events d' r)"
proof (intro conjI impI)
  have ok': "\<And>r. gapless d' r" unfolding d' by (rule pg_log.deliver_ok [OF ok])
  show "\<exists>new. read_events d' r = read_events d r @ new"
    unfolding d' by (rule pg_log.deliver_append_only [OF ok])
  show "map ev_seq (read_events d' r) = [1..<Suc (length (read_events d' r))]"
    using ok' [of r] by (simp only: read_events_gapless [OF ok'] gapless_def)
  show "distinct (map ev_idem_key (read_events d' r))"
    unfolding d' by (rule pg_log.deliver_keys_distinct [OF ok keys])
  assume "\<forall>q \<in> set rs. rq_key q \<in> ev_idem_key ` set (read_events d' (rq_run q))"
  then show "read_events (deliver append_event rs d') r = read_events d' r"
    using pg_log.deliver_again [OF ok'] by blast
qed

definition sample_run :: run_row where
  "sample_run = \<lparr>r_id = ''r'', r_task_spec = [], r_status = Pending, r_budget_usd = 1,
     r_spent_usd = 0, r_created_at = 0, r_finished_at = None\<rparr>"

definition sample_request :: append_request where
  "sample_request = \<lparr>rq_now = 5, rq_run = ''r'', rq_key = step_key ''r'' 0, rq_type = ''toy_step'',
     rq_payload = []\<rparr>"

theorem append_only_idempotent_log_witness:
  "let d = empty_db\<lparr>runs := [sample_run]\<rparr>; d' = deliver append_event [sample_request] d
   in map ev_idem_key (read_events d' ''r'') = [step_key ''r'' 0]
    \<and> read_events (deliver append_event [sample_request, sample_request] d') ''r'' = read_events d' ''r''"
proof -
  let ?d = "empty_db\<lparr>runs := [sample_run]\<rparr>" and ?q = sample_request
  have h: "\<And>r. gapless ?d r" "\<And>r. distinct (map ev_idem_key (read_events ?d r))"
    by (simp_all add: gapless_def read_events_def run_events_def empty_db_def)
  have k: "map ev_idem_key (read_events (deliver append_event [?q] ?d) ''r'') = [step_key ''r'' 0]"
    by (simp add: append_event_def find_run_def sample_run_def sample_request_def empty_db_def
        run_events_def read_events_def)
  have "ev_idem_key ` set (read_events (deliver append_event [?q] ?d) ''r'') = {step_key ''r'' 0}"
    by (simp only: set_map [symmetric] k) simp
  then have "\<forall>q \<in> set [?q, ?q]. rq_key q \<in> ev_idem_key ` set (read_events (deliver append_event [?q] ?d) (rq_run q))"
    by (simp add: sample_request_def del: deliver.simps)
  then show ?thesis
    using append_only_idempotent_log [OF h refl, of "[?q]" "''r''" "[?q, ?q]"] k
    by (simp only: Let_def)
qed

section \<open>Migrations run once, in name order\<close>

lemma apply_files_noop:
  "fst ` set files \<subseteq> set (schema_migrations st) \<Longrightarrow> apply_files exec files st acc = (st, Inr acc)"
  by (induction files) auto

lemma apply_files_applied:
  assumes "apply_files exec files st acc = (st', Inr applied)" and "sorted (map fst files)"
  shows "\<exists>new. applied = acc @ new \<and> schema_migrations st' = schema_migrations st @ new
    \<and> distinct new \<and> sorted new \<and> set new = fst ` set files - set (schema_migrations st)"
  using assms
proof (induction files arbitrary: st acc)
  case (Cons f files)
  obtain name script where f: "f = (name, script)" by force
  show ?case
  proof (cases "name \<in> set (schema_migrations st)")
    case True
    with Cons f show ?thesis by auto
  next
    case False
    with Cons.prems f obtain d where d: "exec script (schema_db st) = Inr d"
      by (auto split: sum.splits)
    let ?st = "st\<lparr>schema_migrations := schema_migrations st @ [name], schema_db := d\<rparr>"
    from Cons.prems f False d have "apply_files exec files ?st (acc @ [name]) = (st', Inr applied)"
      by simp
    from Cons.IH [OF this] Cons.prems(2) obtain new where
      "applied = acc @ name # new" "schema_migrations st' = schema_migrations st @ name # new"
      "distinct new" "sorted new" "set new = fst ` set files - set (schema_migrations ?st)"
      by auto
    then show ?thesis using False Cons.prems(2) f by (intro exI [of _ "name # new"]) auto
  qed
qed simp

text \<open>
  Migrating applies exactly the \<open>*.sql\<close> files that were not applied before, in name order,
  records each once, and migrating again right after does nothing.
\<close>

theorem migrations_applied_once:
  assumes "apply_migrations exec directory st = (st', Inr applied)"
  shows "schema_migrations st' = schema_migrations st @ applied \<and> distinct applied \<and> sorted applied
    \<and> set applied = {n \<in> fst ` set directory. is_sql n} - set (schema_migrations st)
    \<and> apply_migrations exec directory st' = (st', Inr [])"
proof -
  let ?files = "sort_key fst (filter (is_sql \<circ> fst) directory)"
  have names: "fst ` set ?files = {n \<in> fst ` set directory. is_sql n}" by auto
  from apply_files_applied [of exec ?files st "[]" st' applied] assms have
    new: "schema_migrations st' = schema_migrations st @ applied" "distinct applied" "sorted applied"
      "set applied = fst ` set ?files - set (schema_migrations st)"
    by (auto simp: apply_migrations_def)
  then have "fst ` set ?files \<subseteq> set (schema_migrations st')" by auto
  then have "apply_migrations exec directory st' = (st', Inr [])"
    unfolding apply_migrations_def by (rule apply_files_noop)
  with new names show ?thesis by simp
qed

theorem migrations_applied_once_witness:
  "apply_migrations (\<lambda>script d. Inr (d @ [script])) [(''002.sql'', ''b''), (''README'', ''x''), (''001.sql'', ''a'')]
     \<lparr>schema_migrations = [], schema_db = []\<rparr>
   = (\<lparr>schema_migrations = [''001.sql'', ''002.sql''], schema_db = [''a'', ''b'']\<rparr>, Inr [''001.sql'', ''002.sql''])
   \<and> sorted [''001.sql'', ''002.sql'']"
proof -
  have "apply_migrations (\<lambda>script d. Inr (d @ [script]))
      [(''002.sql'', ''b''), (''README'', ''x''), (''001.sql'', ''a'')] \<lparr>schema_migrations = [], schema_db = []\<rparr>
    = (\<lparr>schema_migrations = [''001.sql'', ''002.sql''], schema_db = [''a'', ''b'']\<rparr>, Inr [''001.sql'', ''002.sql''])"
    by code_simp
  from migrations_applied_once [OF this] this show ?thesis by blast
qed

end
