(* ===== verification/Leases.thy ===== *)
theory Leases
  imports Store
begin

text \<open>
  \<open>src/phoenix/leases.py\<close>: the task queue. A worker claims a queued task with a lease, extends it
  with heartbeats, gives it back on an error, and a reaper requeues expired leases; the column
  \<open>tasks.attempt\<close> is the fencing token. Each function is one transaction at its own \<open>now()\<close>, with
  no assumption on how the clocks of two transactions compare; \<open>locked\<close> is the set of rows other
  transactions hold locked, which \<open>SKIP LOCKED\<close> passes over. Durations are microseconds.
\<close>

record claim =
  cl_task_id :: uuid
  cl_run_id :: uuid
  cl_worker_id :: string
  cl_attempt :: nat

definition fencing_enabled :: "environ \<Rightarrow> bool" where
  "fencing_enabled env \<longleftrightarrow> env ''PHOENIX_UNSAFE_NO_FENCING'' \<noteq> Some ''1''"

definition enqueue_task :: "time \<Rightarrow> uuid \<Rightarrow> uuid \<Rightarrow> db \<Rightarrow> (db \<times> uuid) result" where
  "enqueue_task now task_id run_id d =
     (if task_id \<in> t_id ` set (tasks d) then Inl UniqueViolation
      else if run_id \<notin> r_id ` set (runs d) then Inl ForeignKeyViolation
      else Inr (d\<lparr>tasks := tasks d @ [\<lparr>t_id = task_id, t_run_id = run_id, t_status = Queued,
                    t_lease_owner = None, t_lease_expires_at = None, t_attempt = 0,
                    t_available_at = now\<rparr>]\<rparr>, task_id))"

section \<open>Row conditions\<close>

text \<open>A comparison with a NULL \<open>lease_expires_at\<close> selects no row.\<close>

definition expires_after :: "time \<Rightarrow> task_row \<Rightarrow> bool" where
  "expires_after now t \<longleftrightarrow> (case t_lease_expires_at t of None \<Rightarrow> False | Some x \<Rightarrow> x > now)"

definition expired_before :: "time \<Rightarrow> task_row \<Rightarrow> bool" where
  "expired_before now t \<longleftrightarrow> (case t_lease_expires_at t of None \<Rightarrow> False | Some x \<Rightarrow> x < now)"

text \<open>\<open>id=$1 AND attempt=$2 AND lease_owner=$3 AND status='leased'\<close>\<close>

definition held_by :: "claim \<Rightarrow> task_row \<Rightarrow> bool" where
  "held_by c t \<longleftrightarrow> t_id t = cl_task_id c \<and> t_attempt t = cl_attempt c
     \<and> t_lease_owner t = Some (cl_worker_id c) \<and> t_status t = Leased"

definition claimable :: "uuid list \<Rightarrow> time \<Rightarrow> task_row \<Rightarrow> bool" where
  "claimable locked now t \<longleftrightarrow> t_status t = Queued \<and> t_available_at t \<le> now \<and> t_id t \<notin> set locked"

section \<open>Operations\<close>

text \<open>
  The two updates of a claim: the task row \<open>row\<close> becomes leased by the worker under the next
  attempt, and its run leaves \<open>pending\<close>.
\<close>

definition claimed_db :: "task_row \<Rightarrow> string \<Rightarrow> time \<Rightarrow> db \<Rightarrow> db" where
  "claimed_db row worker_id expires d =
     d\<lparr>tasks := sql_update (\<lambda>t. t_id t = t_id row)
           (\<lambda>t. t\<lparr>t_status := Leased, t_lease_owner := Some worker_id, t_attempt := t_attempt t + 1,
                   t_lease_expires_at := Some expires\<rparr>) (tasks d),
       runs := sql_update (\<lambda>r. r_id r = t_run_id row \<and> r_status r = Pending)
           (\<lambda>r. r\<lparr>r_status := Running\<rparr>) (runs d)\<rparr>"

definition claim_task :: "uuid list \<Rightarrow> time \<Rightarrow> string \<Rightarrow> time \<Rightarrow> db \<Rightarrow> db \<times> claim option" where
  "claim_task locked now worker_id lease d =
     (case sort_key t_available_at (filter (claimable locked now) (tasks d)) of
        [] \<Rightarrow> (d, None)
      | row # _ \<Rightarrow>
          (claimed_db row worker_id (now + lease) d,
           Some \<lparr>cl_task_id = t_id row, cl_run_id = t_run_id row, cl_worker_id = worker_id,
                 cl_attempt = t_attempt row + 1\<rparr>))"

definition heartbeat :: "time \<Rightarrow> time \<Rightarrow> claim \<Rightarrow> db \<Rightarrow> db \<times> bool" where
  "heartbeat now lease c d =
     (d\<lparr>tasks := sql_update (\<lambda>t. held_by c t \<and> expires_after now t)
         (\<lambda>t. t\<lparr>t_lease_expires_at := Some (now + lease)\<rparr>) (tasks d)\<rparr>,
      list_ex (\<lambda>t. held_by c t \<and> expires_after now t) (tasks d))"

definition reap_expired :: "uuid list \<Rightarrow> time \<Rightarrow> db \<Rightarrow> db \<times> nat" where
  "reap_expired locked now d =
     (let p = (\<lambda>t. t_status t = Leased \<and> expired_before now t \<and> t_id t \<notin> set locked) in
      (d\<lparr>tasks := sql_update p
          (\<lambda>t. t\<lparr>t_status := Queued, t_lease_owner := None, t_lease_expires_at := None\<rparr>) (tasks d)\<rparr>,
       length (filter p (tasks d))))"

definition release_task :: "time \<Rightarrow> time \<Rightarrow> claim \<Rightarrow> db \<Rightarrow> db \<times> bool" where
  "release_task now backoff c d =
     (d\<lparr>tasks := sql_update (held_by c)
         (\<lambda>t. t\<lparr>t_status := Queued, t_lease_owner := None, t_lease_expires_at := None,
                 t_available_at := now + backoff\<rparr>) (tasks d)\<rparr>,
      list_ex (held_by c) (tasks d))"

definition assert_lease :: "environ \<Rightarrow> time \<Rightarrow> claim \<Rightarrow> db \<Rightarrow> unit result" where
  "assert_lease env now c d =
     (if \<not> fencing_enabled env then Inr ()
      else if list_ex (\<lambda>t. held_by c t \<and> expires_after now t) (tasks d) then Inr ()
      else Inl (LeaseLostError (cl_task_id c) (cl_attempt c) (cl_worker_id c)))"

section \<open>Lemmas\<close>

lemma assert_lease_iff:
  "fencing_enabled env \<Longrightarrow>
     assert_lease env now c d = Inr () \<longleftrightarrow> (\<exists>t \<in> set (tasks d). held_by c t \<and> expires_after now t)"
  by (auto simp: assert_lease_def list_ex_iff)

lemma held_by_unique:
  "distinct (map t_id (tasks d)) \<Longrightarrow> t \<in> set (tasks d) \<Longrightarrow> t' \<in> set (tasks d) \<Longrightarrow>
     held_by c t \<Longrightarrow> held_by c t' \<Longrightarrow> t = t'"
  by (rule distinct_key_unique [of t_id]) (auto simp: held_by_def)

lemma claim_task_None [simp]:
  "claim_task locked now w l d = (d', None) \<longleftrightarrow> d' = d \<and> \<not> (\<exists>t \<in> set (tasks d). claimable locked now t)"
proof (cases "filter (claimable locked now) (tasks d) = []")
  case True
  then show ?thesis by (auto simp: claim_task_def filter_empty_conv)
next
  case False
  then have "sort_key t_available_at (filter (claimable locked now) (tasks d)) \<noteq> []"
    by (metis length_0_conv length_sort)
  with False show ?thesis by (auto simp: claim_task_def filter_empty_conv split: list.splits)
qed

lemma claim_task_SomeE:
  assumes "claim_task locked now w l d = (d', Some c)"
  obtains row where "row \<in> set (tasks d)" "claimable locked now row"
    "\<And>t. t \<in> set (tasks d) \<Longrightarrow> claimable locked now t \<Longrightarrow> t_available_at row \<le> t_available_at t"
    "c = \<lparr>cl_task_id = t_id row, cl_run_id = t_run_id row, cl_worker_id = w, cl_attempt = t_attempt row + 1\<rparr>"
    "d' = claimed_db row w (now + l) d"
proof -
  from assms obtain row rest where
    sorted_rows: "sort_key t_available_at (filter (claimable locked now) (tasks d)) = row # rest"
    by (auto simp: claim_task_def split: list.splits)
  have mem: "row \<in> set (filter (claimable locked now) (tasks d))"
    using sorted_rows by (metis list.set_intros(1) set_sort)
  have "t_available_at row \<le> t_available_at t"
    if "t \<in> set (tasks d)" "claimable locked now t" for t
  proof -
    from that have "t \<in> set (row # rest)" by (simp flip: sorted_rows)
    moreover have "sorted (map t_available_at (row # rest))" by (metis sorted_rows sorted_sort_key)
    ultimately show ?thesis by auto
  qed
  with mem that sorted_rows assms show ?thesis by (auto simp: claim_task_def)
qed

lemma tasks_heartbeat [table_simps]:
  "map t_id (tasks (fst (heartbeat now l c d))) = map t_id (tasks d)"
  "map t_attempt (tasks (fst (heartbeat now l c d))) = map t_attempt (tasks d)"
  by (simp_all add: heartbeat_def table_simps)

section \<open>The queue's operations as one step relation\<close>

inductive queue_step :: "db \<Rightarrow> db \<Rightarrow> bool" where
  q_enqueue: "enqueue_task now tid rid d = Inr (d', tid) \<Longrightarrow> queue_step d d'"
| q_claim: "claim_task locked now w l d = (d', Some c) \<Longrightarrow> queue_step d d'"
| q_heartbeat: "heartbeat now l c d = (d', b) \<Longrightarrow> queue_step d d'"
| q_reap: "reap_expired locked now d = (d', n) \<Longrightarrow> queue_step d d'"
| q_release: "release_task now backoff c d = (d', b) \<Longrightarrow> queue_step d d'"

text \<open>The current fencing token of a task.\<close>

definition token :: "db \<Rightarrow> uuid \<Rightarrow> nat option" where
  "token d tid = map_option t_attempt (List.find (\<lambda>t. t_id t = tid) (tasks d))"

lemma find_sql_update:
  "(\<And>t. k (f t) = k t) \<Longrightarrow> List.find (\<lambda>t. k t = x) (sql_update p f rows) =
     map_option (\<lambda>t. if p t then f t else t) (List.find (\<lambda>t. k t = x) rows)"
  by (induction rows) (auto simp: sql_update_def)

lemma token_sql_update_mono:
  assumes "\<And>t. t_id (f t) = t_id t" and "\<And>t. t_attempt t \<le> t_attempt (f t)"
    and "token d tid = Some n" and "tasks d' = sql_update p f (tasks d)"
  shows "\<exists>m \<ge> n. token d' tid = Some m"
proof -
  from assms(3) obtain t where "List.find (\<lambda>t. t_id t = tid) (tasks d) = Some t" "t_attempt t = n"
    by (auto simp: token_def)
  with assms(1,2,4) show ?thesis by (auto simp: token_def find_sql_update)
qed

lemma token_mono: "queue_step d d' \<Longrightarrow> token d tid = Some n \<Longrightarrow> \<exists>m \<ge> n. token d' tid = Some m"
proof (induction rule: queue_step.induct)
  case (q_enqueue now tid rid d d')
  then show ?case by (auto simp: token_def enqueue_task_def find_append split: if_splits)
next
  case (q_claim locked now w l d d' c)
  from q_claim(1) obtain row where "d' = claimed_db row w (now + l) d" by (rule claim_task_SomeE)
  then show ?case by (intro token_sql_update_mono [OF _ _ q_claim(2)]) (auto simp: claimed_db_def)
next
  case (q_heartbeat now l c d d' b)
  then show ?case
    by (intro token_sql_update_mono [OF _ _ q_heartbeat(2), where
          f = "\<lambda>t. t\<lparr>t_lease_expires_at := Some (now + l)\<rparr>"]) (auto simp: heartbeat_def)
next
  case (q_reap locked now d d' n')
  then show ?case
    by (intro token_sql_update_mono [OF _ _ q_reap(2), where
          f = "\<lambda>t. t\<lparr>t_status := Queued, t_lease_owner := None, t_lease_expires_at := None\<rparr>"])
       (auto simp: reap_expired_def Let_def)
next
  case (q_release now backoff c d d' b)
  then show ?case
    by (intro token_sql_update_mono [OF _ _ q_release(2), where
          f = "\<lambda>t. t\<lparr>t_status := Queued, t_lease_owner := None, t_lease_expires_at := None,
                      t_available_at := now + backoff\<rparr>"]) (auto simp: release_task_def)
qed

text \<open>A finished task is never touched again by the queue.\<close>

lemma queue_step_done:
  "queue_step d d' \<Longrightarrow> distinct (map t_id (tasks d)) \<Longrightarrow> t \<in> set (tasks d) \<Longrightarrow> t_status t = Done \<Longrightarrow>
     t \<in> set (tasks d')"
proof (induction rule: queue_step.induct)
  case (q_claim locked now w l d d' c)
  from q_claim(1) obtain row where row: "row \<in> set (tasks d)" "claimable locked now row"
    "d' = claimed_db row w (now + l) d"
    by (rule claim_task_SomeE)
  have "t_id t \<noteq> t_id row"
    using distinct_key_unique [OF q_claim(2,3) row(1)] row(2) q_claim(4) by (auto simp: claimable_def)
  with q_claim(3) row(3) show ?case by (force simp: claimed_db_def set_sql_update)
qed (force simp: enqueue_task_def heartbeat_def reap_expired_def release_task_def Let_def
      set_sql_update held_by_def split: if_splits)+

section \<open>The interface: fencing tokens\<close>

text \<open>
  What the commit transaction relies on: tokens never decrease, a claim carries a token, and only
  a claim that carries the current token is accepted.
\<close>

locale fencing =
  fixes tok :: "'d \<Rightarrow> uuid \<Rightarrow> nat option"
    and step :: "'d \<Rightarrow> 'd \<Rightarrow> bool"
    and accepts :: "'d \<Rightarrow> claim \<Rightarrow> bool"
  assumes tok_mono: "step d d' \<Longrightarrow> tok d t = Some n \<Longrightarrow> \<exists>m \<ge> n. tok d' t = Some m"
    and accepts_tok: "accepts d c \<Longrightarrow> tok d (cl_task_id c) = Some (cl_attempt c)"
begin

lemma tok_mono_star: "step\<^sup>*\<^sup>* d d' \<Longrightarrow> tok d t = Some n \<Longrightarrow> \<exists>m \<ge> n. tok d' t = Some m"
proof (induction rule: rtranclp_induct)
  case (step d1 d2)
  then obtain m where "m \<ge> n" "tok d1 t = Some m" by blast
  with tok_mono [OF step.hyps(2)] show ?case using le_trans by blast
qed auto

lemma superseded_forever:
  "step\<^sup>*\<^sup>* d d' \<Longrightarrow> tok d (cl_task_id c) = Some n \<Longrightarrow> cl_attempt c < n \<Longrightarrow> \<not> accepts d' c"
  using tok_mono_star accepts_tok by fastforce

lemma accepted_same_attempt:
  "accepts d c \<Longrightarrow> accepts d c' \<Longrightarrow> cl_task_id c = cl_task_id c' \<Longrightarrow> cl_attempt c = cl_attempt c'"
  by (metis accepts_tok option.inject)

lemma newer_accepted_blocks_older:
  "accepts d c \<Longrightarrow> cl_task_id c' = cl_task_id c \<Longrightarrow> cl_attempt c' < cl_attempt c \<Longrightarrow> step\<^sup>*\<^sup>* d d' \<Longrightarrow>
     \<not> accepts d' c'"
  using superseded_forever accepts_tok by metis

end

text \<open>A claim is accepted when the fence in the commit transaction lets it through at some time.\<close>

definition lease_accepts :: "db \<Rightarrow> claim \<Rightarrow> bool" where
  "lease_accepts d c \<longleftrightarrow> distinct (map t_id (tasks d)) \<and>
     (\<exists>now. assert_lease (\<lambda>_. None) now c d = Inr ())"

lemma fencing_default [simp]: "fencing_enabled (\<lambda>_. None)"
  by (simp add: fencing_enabled_def)

lemma lease_accepts_token: "lease_accepts d c \<Longrightarrow> token d (cl_task_id c) = Some (cl_attempt c)"
proof -
  assume "lease_accepts d c"
  then obtain t where "distinct (map t_id (tasks d))" "t \<in> set (tasks d)" "held_by c t"
    by (auto simp: lease_accepts_def assert_lease_iff)
  with find_key_unique [of t_id "tasks d" t] show ?thesis
    by (simp add: token_def held_by_def)
qed

interpretation pg_fence: fencing token queue_step lease_accepts
  by unfold_locales (rule token_mono, assumption+, rule lease_accepts_token)

section \<open>Properties\<close>

lemma queue_step_distinct:
  "queue_step d d' \<Longrightarrow> distinct (map t_id (tasks d)) \<Longrightarrow> distinct (map t_id (tasks d'))"
proof (induction rule: queue_step.induct)
  case (q_claim locked now w l d d' c)
  from q_claim(1) obtain row where "d' = claimed_db row w (now + l) d" by (rule claim_task_SomeE)
  with q_claim(2) show ?case by (simp add: claimed_db_def table_simps)
qed (auto simp: enqueue_task_def heartbeat_def reap_expired_def release_task_def Let_def table_simps
      split: if_splits)

lemma queue_steps_distinct:
  "queue_step\<^sup>*\<^sup>* d d' \<Longrightarrow> distinct (map t_id (tasks d)) \<Longrightarrow> distinct (map t_id (tasks d'))"
  by (induction rule: rtranclp_induct) (auto intro: queue_step_distinct)

text \<open>
  C11. Fencing: once a task's attempt has moved past the attempt of a claim, the fence in the commit
  transaction refuses that claim for ever, at any time and after any sequence of claims,
  heartbeats, reaps and releases by any workers.
\<close>

theorem superseded_claim_rejected:
  assumes "distinct (map t_id (tasks d))" and "t \<in> set (tasks d)" and "t_id t = cl_task_id c"
    and "cl_attempt c < t_attempt t" and "queue_step\<^sup>*\<^sup>* d d'" and "fencing_enabled env"
  shows "assert_lease env now c d' = Inl (LeaseLostError (cl_task_id c) (cl_attempt c) (cl_worker_id c))"
proof -
  have "token d (cl_task_id c) = Some (t_attempt t)"
    using find_key_unique [OF assms(1,2)] assms(3) by (simp add: token_def)
  then have "\<not> lease_accepts d' c"
    using pg_fence.superseded_forever assms(4,5) by blast
  moreover have "distinct (map t_id (tasks d'))" by (rule queue_steps_distinct [OF assms(5,1)])
  ultimately have "\<not> list_ex (\<lambda>t. held_by c t \<and> expires_after now t) (tasks d')"
    by (auto simp: lease_accepts_def assert_lease_iff list_ex_iff)
  with assms(6) show ?thesis by (simp add: assert_lease_def)
qed

definition sample_task :: task_row where
  "sample_task = \<lparr>t_id = ''t'', t_run_id = ''r'', t_status = Leased, t_lease_owner = Some ''B'',
     t_lease_expires_at = Some 60, t_attempt = 2, t_available_at = 0\<rparr>"

definition stale_claim :: claim where
  "stale_claim = \<lparr>cl_task_id = ''t'', cl_run_id = ''r'', cl_worker_id = ''A'', cl_attempt = 1\<rparr>"

theorem superseded_claim_rejected_witness:
  "assert_lease (\<lambda>_. None) 10 stale_claim (fst (heartbeat 10 30
       \<lparr>cl_task_id = ''t'', cl_run_id = ''r'', cl_worker_id = ''B'', cl_attempt = 2\<rparr>
       (empty_db\<lparr>tasks := [sample_task]\<rparr>)))
   = Inl (LeaseLostError ''t'' 1 ''A'')"
proof -
  let ?d = "empty_db\<lparr>tasks := [sample_task]\<rparr>"
  let ?c = "\<lparr>cl_task_id = ''t'', cl_run_id = ''r'', cl_worker_id = ''B'', cl_attempt = 2\<rparr>"
  have "queue_step\<^sup>*\<^sup>* ?d (fst (heartbeat 10 30 ?c ?d))"
    by (intro r_into_rtranclp queue_step.q_heartbeat [of 10 30 ?c ?d _ "snd (heartbeat 10 30 ?c ?d)"])
       simp
  from superseded_claim_rejected [OF _ _ _ _ this fencing_default, of sample_task stale_claim 10]
  show ?thesis by (simp add: sample_task_def stale_claim_def)
qed

text \<open>
  A successful claim takes the longest-available unlocked task and grants an exclusive lease:
  the new claim carries the next attempt, the fence lets it through exactly until the lease runs
  out, and no claim of another worker or attempt on that task gets through.
\<close>

theorem claim_grants_exclusive_lease:
  assumes "distinct (map t_id (tasks d))" and claim: "claim_task locked now w l d = (d', Some c)"
    and "fencing_enabled env"
  shows "(\<exists>t \<in> set (tasks d). claimable locked now t \<and> t_id t = cl_task_id c \<and> t_run_id t = cl_run_id c
        \<and> cl_attempt c = t_attempt t + 1
        \<and> (\<forall>t' \<in> set (tasks d). claimable locked now t' \<longrightarrow> t_available_at t \<le> t_available_at t'))
    \<and> (\<forall>now'. assert_lease env now' c d' = Inr () \<longleftrightarrow> now' < now + l)
    \<and> (\<forall>now' c'. cl_task_id c' = cl_task_id c \<longrightarrow> assert_lease env now' c' d' = Inr () \<longrightarrow>
         cl_attempt c' = cl_attempt c \<and> cl_worker_id c' = w)"
proof -
  from claim obtain row where row: "row \<in> set (tasks d)" "claimable locked now row"
    "\<And>t. t \<in> set (tasks d) \<Longrightarrow> claimable locked now t \<Longrightarrow> t_available_at row \<le> t_available_at t"
    and c: "c = \<lparr>cl_task_id = t_id row, cl_run_id = t_run_id row, cl_worker_id = w, cl_attempt = t_attempt row + 1\<rparr>"
    and d': "d' = claimed_db row w (now + l) d"
    by (rule claim_task_SomeE) blast
  define row' where "row' = row\<lparr>t_status := Leased, t_lease_owner := Some w,
      t_attempt := t_attempt row + 1, t_lease_expires_at := Some (now + l)\<rparr>"
  have mem: "t \<in> set (tasks d') \<and> t_id t = t_id row \<longleftrightarrow> t = row'" for t
    using row(1) distinct_key_unique [OF assms(1) _ row(1)]
    by (auto simp: d' claimed_db_def set_sql_update row'_def image_iff)
  have fence: "assert_lease env now' c' d' = Inr () \<longleftrightarrow> held_by c' row' \<and> expires_after now' row'"
    if "cl_task_id c' = t_id row" for now' c'
    unfolding assert_lease_iff [OF assms(3)] using mem that held_by_def by metis
  have "\<forall>now'. assert_lease env now' c d' = Inr () \<longleftrightarrow> now' < now + l"
    using fence [of c] by (simp add: c held_by_def row'_def expires_after_def)
  moreover have "\<forall>now' c'. cl_task_id c' = cl_task_id c \<longrightarrow> assert_lease env now' c' d' = Inr () \<longrightarrow>
       cl_attempt c' = cl_attempt c \<and> cl_worker_id c' = w"
    using fence by (auto simp: c held_by_def row'_def)
  ultimately show ?thesis using row c by auto
qed

theorem claim_grants_exclusive_lease_witness:
  "let d = empty_db\<lparr>tasks := [sample_task\<lparr>t_status := Queued, t_lease_owner := None,
             t_lease_expires_at := None\<rparr>]\<rparr>
   in snd (claim_task [] 5 ''W'' 30 d) =
        Some \<lparr>cl_task_id = ''t'', cl_run_id = ''r'', cl_worker_id = ''W'', cl_attempt = 3\<rparr>
    \<and> assert_lease (\<lambda>_. None) 34 (the (snd (claim_task [] 5 ''W'' 30 d))) (fst (claim_task [] 5 ''W'' 30 d)) = Inr ()
    \<and> assert_lease (\<lambda>_. None) 35 (the (snd (claim_task [] 5 ''W'' 30 d))) (fst (claim_task [] 5 ''W'' 30 d)) \<noteq> Inr ()"
proof -
  let ?d = "empty_db\<lparr>tasks := [sample_task\<lparr>t_status := Queued, t_lease_owner := None,
             t_lease_expires_at := None\<rparr>]\<rparr>"
  let ?c = "\<lparr>cl_task_id = ''t'', cl_run_id = ''r'', cl_worker_id = ''W'', cl_attempt = 3\<rparr>"
  have s: "snd (claim_task [] 5 ''W'' 30 ?d) = Some ?c"
    by (simp add: claim_task_def claimable_def sample_task_def)
  then have c: "claim_task [] 5 ''W'' 30 ?d = (fst (claim_task [] 5 ''W'' 30 ?d), Some ?c)"
    by (metis prod.collapse)
  have "distinct (map t_id (tasks ?d))" by simp
  from claim_grants_exclusive_lease [OF this c fencing_default] s show ?thesis
    by (simp only: Let_def option.sel) simp
qed

text \<open>
  The reaper is exact: with no row locked, after \<open>reap_expired\<close> no leased task has a lease that
  expired before \<open>now\<close>; it requeues precisely those tasks, keeps their attempt, touches no other
  row, and its count is their number.
\<close>

theorem reap_expired_exact:
  assumes "reap_expired [] now d = (d', n)"
  shows "(\<forall>t \<in> set (tasks d'). t_status t = Leased \<longrightarrow> \<not> expired_before now t)
    \<and> n = length (filter (\<lambda>t. t_status t = Leased \<and> expired_before now t) (tasks d))
    \<and> length (tasks d') = length (tasks d)
    \<and> (\<forall>i < length (tasks d).
         (if t_status (tasks d ! i) = Leased \<and> expired_before now (tasks d ! i)
          then tasks d' ! i = (tasks d ! i)\<lparr>t_status := Queued, t_lease_owner := None, t_lease_expires_at := None\<rparr>
          else tasks d' ! i = tasks d ! i))"
  using assms by (auto simp: reap_expired_def Let_def sql_update_def)

theorem reap_expired_exact_witness:
  "reap_expired [] 61 (empty_db\<lparr>tasks := [sample_task]\<rparr>)
     = (empty_db\<lparr>tasks := [sample_task\<lparr>t_status := Queued, t_lease_owner := None, t_lease_expires_at := None\<rparr>]\<rparr>, 1)
   \<and> length (tasks (fst (reap_expired [] 61 (empty_db\<lparr>tasks := [sample_task]\<rparr>)))) = 1"
proof -
  have r: "reap_expired [] 61 (empty_db\<lparr>tasks := [sample_task]\<rparr>)
     = (empty_db\<lparr>tasks := [sample_task\<lparr>t_status := Queued, t_lease_owner := None, t_lease_expires_at := None\<rparr>]\<rparr>, 1)"
    by (simp add: reap_expired_def sql_update_def sample_task_def expired_before_def empty_db_def)
  from reap_expired_exact [OF r] r show ?thesis by simp
qed

end
