(* ===== verification/Engine.thy ===== *)
theory Engine
  imports Leases
begin

text \<open>
  \<open>src/phoenix/engine.py\<close>: step outcomes, the toy workflow, submitting a run, the atomic commit of a
  step, the executor's replay-step-commit loop and the error handler. The workflow is a parameter
  of the loop (the code's \<open>Workflow\<close> protocol); the agent workflow is in the theory \<open>Agent\<close>, the
  choice between them in \<open>Worker\<close>.
\<close>

record StepOutcome =
  so_type :: string
  so_payload :: dict
  so_cost_usd :: money
  so_final :: bool
  so_final_status :: run_status

section \<open>The toy workflow\<close>

record ToyWorkflow =
  tw_steps :: int
  tw_delay :: money
  tw_cost :: money

definition toy_init :: "dict \<Rightarrow> ToyWorkflow result" where
  "toy_init spec =
     (case py_int (get_default spec ''steps'' (JInt 20)) of
        Inl e \<Rightarrow> Inl e
      | Inr steps \<Rightarrow>
          (case py_float (get_default spec ''step_delay'' (JFloat 0)) of
             Inl e \<Rightarrow> Inl e
           | Inr delay \<Rightarrow>
               (case py_Decimal_str (get_default spec ''step_cost'' (JStr ''0.0001'')) of
                  Inl e \<Rightarrow> Inl e
                | Inr cost \<Rightarrow> Inr \<lparr>tw_steps = steps, tw_delay = delay, tw_cost = cost\<rparr>)))"

definition toy_next_step :: "ToyWorkflow \<Rightarrow> claim \<Rightarrow> nat \<Rightarrow> StepOutcome" where
  "toy_next_step tw c step_index =
     \<lparr>so_type = ''toy_step'',
      so_payload = [(''i'', JInt (int step_index)), (''value'', JInt ((int step_index)\<^sup>2)),
        (''worker'', JStr (cl_worker_id c)), (''attempt'', JInt (int (cl_attempt c))),
        (''cost_usd'', JDec (tw_cost tw))],
      so_cost_usd = tw_cost tw, so_final = (int step_index = tw_steps tw - 1),
      so_final_status = Succeeded\<rparr>"

section \<open>Submitting a run\<close>

definition submit_run :: "time \<Rightarrow> uuid \<Rightarrow> uuid \<Rightarrow> dict \<Rightarrow> money \<Rightarrow> db \<Rightarrow> (db \<times> uuid) result" where
  "submit_run now run_id task_id spec budget_usd d =
     (case insert_run now run_id spec budget_usd d of
        Inl e \<Rightarrow> Inl e
      | Inr (d1, rid) \<Rightarrow>
          (case enqueue_task now task_id rid d1 of Inl e \<Rightarrow> Inl e | Inr (d2, _) \<Rightarrow> Inr (d2, rid)))"

section \<open>Committing a step\<close>

definition commit_payload :: "claim \<Rightarrow> StepOutcome \<Rightarrow> dict" where
  "commit_payload c out = AList.update ''meta''
     (JObj [(''worker'', JStr (cl_worker_id c)), (''attempt'', JInt (int (cl_attempt c))),
            (''final'', JBool (so_final out))]) (so_payload out)"

text \<open>\<open>UPDATE runs SET spent_usd = spent_usd + $2 WHERE id=$1\<close>, into a \<open>NUMERIC(12,6)\<close> column.\<close>

definition add_spend :: "uuid \<Rightarrow> money \<Rightarrow> db \<Rightarrow> db result" where
  "add_spend run_id cost d =
     (case sql_update_opt (\<lambda>r. r_id r = run_id)
             (\<lambda>r. map_option (\<lambda>s. r\<lparr>r_spent_usd := s\<rparr>) (numeric_cast 12 6 (r_spent_usd r + cost)))
             (runs d) of
        None \<Rightarrow> Inl NumericOverflow
      | Some rows \<Rightarrow> Inr (d\<lparr>runs := rows\<rparr>))"

definition finish_run :: "time \<Rightarrow> claim \<Rightarrow> run_status \<Rightarrow> db \<Rightarrow> db" where
  "finish_run now c status d =
     d\<lparr>tasks := sql_update (\<lambda>t. t_id t = cl_task_id c) (\<lambda>t. t\<lparr>t_status := Done\<rparr>) (tasks d),
       runs := sql_update (\<lambda>r. r_id r = cl_run_id c)
         (\<lambda>r. r\<lparr>r_status := status, r_finished_at := Some now\<rparr>) (runs d)\<rparr>"

definition commit_step ::
    "environ \<Rightarrow> time \<Rightarrow> claim \<Rightarrow> nat \<Rightarrow> StepOutcome \<Rightarrow> db \<Rightarrow> (db \<times> bool) result" where
  "commit_step env now c step_index out d =
     (case assert_lease env now c d of
        Inl e \<Rightarrow> Inl e
      | Inr _ \<Rightarrow>
          (case append_event now (cl_run_id c) (step_key (cl_run_id c) step_index) (so_type out)
                  (commit_payload c out) d of
             Inl e \<Rightarrow> Inl e
           | Inr (d1, res) \<Rightarrow>
               if \<not> ar_inserted res then Inr (d1, False)
               else (case add_spend (cl_run_id c) (so_cost_usd out) d1 of
                       Inl e \<Rightarrow> Inl e
                     | Inr d2 \<Rightarrow>
                         Inr (if so_final out then finish_run now c (so_final_status out) d2 else d2,
                              True))))"

section \<open>The executor's loop\<close>

text \<open>
  The world of an execution is the database and the private state \<open>'x\<close> of the workflow (the agent's
  workspace). \<open>clock k\<close> is \<open>now()\<close> in the \<open>k\<close>-th commit transaction. A \<open>next_step\<close> that raises keeps
  its effects so far. The loop has no bound of its own: \<open>None\<close> is a loop that never ends.
\<close>

record 'x world =
  w_db :: db
  w_state :: 'x

type_synonym 'x workflow_step =
  "claim \<Rightarrow> nat \<Rightarrow> event list \<Rightarrow> 'x world \<Rightarrow> StepOutcome result \<times> 'x world"

partial_function (option) execute_loop :: "environ \<Rightarrow> (nat \<Rightarrow> time) \<Rightarrow> 'x workflow_step \<Rightarrow> claim \<Rightarrow>
    nat \<Rightarrow> 'x world \<Rightarrow> (unit result \<times> 'x world) option" where
  "execute_loop env clock next_step c k w =
     (let evs = read_events (w_db w) (cl_run_id c) in
      case next_step c (length evs) evs w of
        (Inl e, w1) \<Rightarrow> Some (Inl e, w1)
      | (Inr out, w1) \<Rightarrow>
          (case commit_step env (clock k) c (length evs) out (w_db w1) of
             Inl e \<Rightarrow> Some (Inl e, w1)
           | Inr (d, _) \<Rightarrow>
               if so_final out then Some (Inr (), w1\<lparr>w_db := d\<rparr>)
               else execute_loop env clock next_step c (Suc k) (w1\<lparr>w_db := d\<rparr>)))"

definition toy_step :: "ToyWorkflow \<Rightarrow> 'x workflow_step" where
  "toy_step tw c step_index evs w = (Inr (toy_next_step tw c step_index), w)"

section \<open>The error handler\<close>

text \<open>
  Only \<open>QuotaExhaustedError\<close> carries \<open>fatal = True\<close>. \<open>exc_str\<close> and \<open>exc_repr\<close> are Python's \<open>str(exc)\<close>
  and \<open>repr(exc)\<close>.
\<close>

definition fatal :: "error \<Rightarrow> bool" where
  "fatal e = (case e of QuotaExhaustedError _ \<Rightarrow> True | _ \<Rightarrow> False)"

definition failed_outcome ::
    "(error \<Rightarrow> string) \<Rightarrow> (error \<Rightarrow> string) \<Rightarrow> claim \<Rightarrow> error \<Rightarrow> StepOutcome" where
  "failed_outcome exc_str exc_repr c e =
     \<lparr>so_type = ''failed'',
      so_payload = [(''reason'', JStr (if fatal e then ''fatal error: '' @ exc_str e
         else ''worker error after '' @ str_nat (cl_attempt c) @ '' attempts: '' @ exc_repr e))],
      so_cost_usd = 0, so_final = True, so_final_status = Failed\<rparr>"

definition handle_error :: "environ \<Rightarrow> time \<Rightarrow> (error \<Rightarrow> string) \<Rightarrow> (error \<Rightarrow> string) \<Rightarrow> claim \<Rightarrow> error \<Rightarrow>
    nat \<Rightarrow> time \<Rightarrow> db \<Rightarrow> db result" where
  "handle_error env now exc_str exc_repr c e max_attempts backoff d =
     (if cl_attempt c < max_attempts \<and> \<not> fatal e then Inr (fst (release_task now backoff c d))
      else case commit_step env now c (length (run_events d (cl_run_id c)))
                  (failed_outcome exc_str exc_repr c e) d of
             Inr (d', _) \<Rightarrow> Inr d'
           | Inl (LeaseLostError t a w) \<Rightarrow> Inr d
           | Inl e' \<Rightarrow> Inl e')"

section \<open>Lemmas: commits\<close>

lemma add_spend_InrD:
  assumes "add_spend r cost d = Inr d'"
  shows "d' = d\<lparr>runs := sql_update (\<lambda>x. r_id x = r)
      (\<lambda>x. x\<lparr>r_spent_usd := numeric_round 6 (r_spent_usd x + cost)\<rparr>) (runs d)\<rparr>"
proof -
  let ?f = "\<lambda>x. map_option (\<lambda>s. x\<lparr>r_spent_usd := s\<rparr>) (numeric_cast 12 6 (r_spent_usd x + cost))"
  from assms obtain rows where
    rows: "sql_update_opt (\<lambda>x. r_id x = r) ?f (runs d) = Some rows" "d' = d\<lparr>runs := rows\<rparr>"
    by (auto simp: add_spend_def split: option.splits)
  have "the (?f x) = x\<lparr>r_spent_usd := numeric_round 6 (r_spent_usd x + cost)\<rparr>"
    if "x \<in> set (runs d)" "r_id x = r" for x
    using sql_update_opt_defined [OF rows(1) that(1)] that(2)
    by (auto simp: numeric_cast_def Let_def split: if_splits)
  then have "rows = sql_update (\<lambda>x. r_id x = r)
      (\<lambda>x. x\<lparr>r_spent_usd := numeric_round 6 (r_spent_usd x + cost)\<rparr>) (runs d)"
    using sql_update_opt_eq_sql_update [OF rows(1)] by (simp add: sql_update_def)
  with rows(2) show ?thesis by simp
qed

text \<open>The event a commit writes.\<close>

definition committed_event :: "claim \<Rightarrow> nat \<Rightarrow> StepOutcome \<Rightarrow> nat \<Rightarrow> event" where
  "committed_event c step_index out seq =
     \<lparr>ev_run_id = cl_run_id c, ev_seq = seq, ev_type = so_type out, ev_payload = commit_payload c out,
      ev_idem_key = step_key (cl_run_id c) step_index\<rparr>"

definition spend_rows :: "uuid \<Rightarrow> money \<Rightarrow> run_row list \<Rightarrow> run_row list" where
  "spend_rows r cost rows = sql_update (\<lambda>x. r_id x = r)
      (\<lambda>x. x\<lparr>r_spent_usd := numeric_round 6 (r_spent_usd x + cost)\<rparr>) rows"

lemma commit_step_InrE:
  assumes "commit_step env now c n out d = Inr (d', b)"
  obtains d1 res where "assert_lease env now c d = Inr ()"
    "append_event now (cl_run_id c) (step_key (cl_run_id c) n) (so_type out) (commit_payload c out) d
       = Inr (d1, res)"
    "b = ar_inserted res" "\<not> b \<Longrightarrow> d' = d1"
    "b \<Longrightarrow> \<exists>d2. add_spend (cl_run_id c) (so_cost_usd out) d1 = Inr d2
       \<and> d' = (if so_final out then finish_run now c (so_final_status out) d2 else d2)"
proof -
  let ?app = "append_event now (cl_run_id c) (step_key (cl_run_id c) n) (so_type out) (commit_payload c out) d"
  have lease: "assert_lease env now c d = Inr ()"
    using assms by (cases "assert_lease env now c d") (simp_all add: commit_step_def)
  obtain x where x: "?app = Inr x"
    using assms lease by (cases ?app) (simp_all add: commit_step_def)
  obtain d1 res where "x = (d1, res)" by (cases x)
  with x have app: "?app = Inr (d1, res)" by simp
  show ?thesis
  proof (cases "ar_inserted res")
    case True
    then obtain d2 where "add_spend (cl_run_id c) (so_cost_usd out) d1 = Inr d2"
      using assms lease app by (cases "add_spend (cl_run_id c) (so_cost_usd out) d1")
        (simp_all add: commit_step_def)
    with True that [OF lease app] assms lease app show ?thesis by (simp add: commit_step_def)
  next
    case False
    with that [OF lease app] assms lease app show ?thesis by (simp add: commit_step_def)
  qed
qed

lemma commit_step_fenced:
  assumes "commit_step env now c n out d = Inr (d', b)" and "fencing_enabled env"
  shows "\<exists>t \<in> set (tasks d). held_by c t \<and> expires_after now t"
  using assms(1) by (rule commit_step_InrE) (use assms(2) assert_lease_iff in blast)

lemma commit_step_noop:
  assumes "commit_step env now c n out d = Inr (d', False)"
  shows "d' = d \<and> step_key (cl_run_id c) n \<in> ev_idem_key ` set (run_events d (cl_run_id c))"
  using assms by (rule commit_step_InrE) (use append_event_existing in blast)

lemma commit_step_unwritten: "commit_step env now c n out d = Inr (d', b) \<Longrightarrow> \<not> b \<Longrightarrow> d' = d"
  using commit_step_noop [of env now c n out d d'] by simp

lemma commit_step_written:
  assumes "commit_step env now c n out d = Inr (d', True)" and "gapless d (cl_run_id c)"
  shows "run_events d' r = run_events d r @ (if r = cl_run_id c
      then [committed_event c n out (Suc (length (run_events d r)))] else [])"
    and "step_key (cl_run_id c) n \<notin> ev_idem_key ` set (run_events d (cl_run_id c))"
    and "tasks d' = (if so_final out
      then sql_update (\<lambda>t. t_id t = cl_task_id c) (\<lambda>t. t\<lparr>t_status := Done\<rparr>) (tasks d) else tasks d)"
    and "runs d' = (if so_final out
      then sql_update (\<lambda>r. r_id r = cl_run_id c)
        (\<lambda>r. r\<lparr>r_status := so_final_status out, r_finished_at := Some now\<rparr>)
        (spend_rows (cl_run_id c) (so_cost_usd out) (runs d))
      else spend_rows (cl_run_id c) (so_cost_usd out) (runs d))"
    and "llm_cache d' = llm_cache d" and "provider_calls d' = provider_calls d"
proof -
  let ?r = "cl_run_id c"
  from assms(1) obtain d1 res d2 where
    app: "append_event now ?r (step_key ?r n) (so_type out) (commit_payload c out) d = Inr (d1, res)"
    and ins: "ar_inserted res" and spend: "add_spend ?r (so_cost_usd out) d1 = Inr d2"
    and d': "d' = (if so_final out then finish_run now c (so_final_status out) d2 else d2)"
    by (rule commit_step_InrE) auto
  note d2 = add_spend_InrD [OF spend]
  note new = append_event_inserted [OF app ins assms(2)] and frame = append_event_frame [OF app]
  have "run_events d' r = run_events d1 r"
    by (simp add: d' d2 finish_run_def table_simps)
  then show "run_events d' r = run_events d r @ (if r = ?r
      then [committed_event c n out (Suc (length (run_events d r)))] else [])"
    using new(2) frame(1) by (simp add: committed_event_def)
  show "step_key ?r n \<notin> ev_idem_key ` set (run_events d ?r)" by (rule new(1))
  show "tasks d' = (if so_final out
      then sql_update (\<lambda>t. t_id t = cl_task_id c) (\<lambda>t. t\<lparr>t_status := Done\<rparr>) (tasks d) else tasks d)"
    using frame(3) by (simp add: d' d2 finish_run_def)
  show "runs d' = (if so_final out
      then sql_update (\<lambda>r. r_id r = ?r)
        (\<lambda>r. r\<lparr>r_status := so_final_status out, r_finished_at := Some now\<rparr>)
        (spend_rows ?r (so_cost_usd out) (runs d))
      else spend_rows ?r (so_cost_usd out) (runs d))"
    using frame(2) by (simp add: d' d2 finish_run_def spend_rows_def)
  show "llm_cache d' = llm_cache d" "provider_calls d' = provider_calls d"
    using frame(4,5) by (simp_all add: d' d2 finish_run_def)
qed

lemma commit_step_gapless:
  assumes "commit_step env now c n out d = Inr (d', b)" and "\<And>r. gapless d r"
  shows "gapless d' r"
proof (cases b)
  case True
  with commit_step_written(1) [OF _ assms(2)] assms show ?thesis
    by (auto simp: gapless_def committed_event_def)
next
  case False
  with commit_step_unwritten [OF assms(1)] assms(2) show ?thesis by simp
qed

lemma meta_commit_payload [simp]:
  "map_of (commit_payload c out) ''meta'' = Some (JObj [(''worker'', JStr (cl_worker_id c)),
     (''attempt'', JInt (int (cl_attempt c))), (''final'', JBool (so_final out))])"
  by (simp add: commit_payload_def update_conv')

lemma other_commit_payload [simp]:
  "k \<noteq> ''meta'' \<Longrightarrow> map_of (commit_payload c out) k = map_of (so_payload out) k"
  by (simp add: commit_payload_def update_conv')


section \<open>The interface: workflows that stop\<close>

text \<open>
  What the loop relies on: a step never touches the log itself, and at step index \<open>m\<close> the workflow
  raises or answers with a final outcome. Then the loop returns, from any point of the log up to \<open>m\<close>:
  each iteration that goes on has written one event.
\<close>

definition steps_contiguous :: "db \<Rightarrow> uuid \<Rightarrow> bool" where
  "steps_contiguous d r \<longleftrightarrow> gapless d r \<and> map ev_idem_key (run_events d r) = map (step_key r) [0..<length (run_events d r)]"

lemma steps_contiguous_key:
  assumes "steps_contiguous d r"
  shows "step_key r n \<in> ev_idem_key ` set (run_events d r) \<longleftrightarrow> n < length (run_events d r)"
proof -
  have "ev_idem_key ` set (run_events d r) = step_key r ` {0..<length (run_events d r)}"
    using assms unfolding steps_contiguous_def by (metis image_set set_upt)
  then show ?thesis by auto
qed

lemma steps_contiguous_commit:
  assumes "steps_contiguous d (cl_run_id c)"
    and "commit_step env now c (length (run_events d (cl_run_id c))) out d = Inr (d', b)"
  shows "b" and "steps_contiguous d' (cl_run_id c)"
    and "run_events d' (cl_run_id c) = run_events d (cl_run_id c) @
      [committed_event c (length (run_events d (cl_run_id c))) out (Suc (length (run_events d (cl_run_id c))))]"
proof -
  show b
  proof (rule ccontr)
    assume "\<not> b"
    with assms(2) have "step_key (cl_run_id c) (length (run_events d (cl_run_id c)))
        \<in> ev_idem_key ` set (run_events d (cl_run_id c))"
      using commit_step_noop by simp
    with steps_contiguous_key [OF assms(1)] show False by simp
  qed
  with assms show ev: "run_events d' (cl_run_id c) = run_events d (cl_run_id c) @
      [committed_event c (length (run_events d (cl_run_id c))) out (Suc (length (run_events d (cl_run_id c))))]"
    using commit_step_written(1) [of env now c _ out d d' "cl_run_id c"] by (simp add: steps_contiguous_def)
  with assms(1) show "steps_contiguous d' (cl_run_id c)"
    by (simp add: steps_contiguous_def gapless_def committed_event_def)
qed

lemma steps_contiguous_read: "steps_contiguous d r \<Longrightarrow> read_events d r = run_events d r"
  by (simp add: steps_contiguous_def read_events_gapless)

locale bounded_workflow =
  fixes next_step :: "'x workflow_step"
    and m :: nat
  assumes step_events: "next_step c n evs w = (res, w') \<Longrightarrow> run_events (w_db w') r = run_events (w_db w) r"
    and stops: "length evs = m \<Longrightarrow> next_step c (length evs) evs w = (Inr out, w') \<Longrightarrow> so_final out"
begin

lemma loop_returns:
  "steps_contiguous (w_db w) (cl_run_id c) \<Longrightarrow> length (run_events (w_db w) (cl_run_id c)) \<le> m \<Longrightarrow>
     \<exists>res w'. execute_loop env clock next_step c k w = Some (res, w')
       \<and> steps_contiguous (w_db w') (cl_run_id c)
       \<and> length (run_events (w_db w') (cl_run_id c)) \<le> Suc m
       \<and> (res = Inr () \<longrightarrow> run_events (w_db w') (cl_run_id c) \<noteq> [])"
proof (induction "m - length (run_events (w_db w) (cl_run_id c))" arbitrary: w k rule: less_induct)
  case less
  let ?r = "cl_run_id c"
  let ?evs = "run_events (w_db w) ?r"
  obtain res w1 where st: "next_step c (length ?evs) ?evs w = (res, w1)" by force
  have ev1: "run_events (w_db w1) r = run_events (w_db w) r" for r by (rule step_events [OF st])
  have c1: "steps_contiguous (w_db w1) ?r" using less.prems(1) by (simp add: steps_contiguous_def gapless_def ev1)
  note unfold = execute_loop.simps [of env clock next_step c k w] steps_contiguous_read [OF less.prems(1)]
  show ?case
  proof (cases res)
    case (Inl e)
    with st c1 less.prems show ?thesis by (simp add: unfold ev1)
  next
    case (Inr out)
    show ?thesis
    proof (cases "commit_step env (clock k) c (length ?evs) out (w_db w1)")
      case (Inl e)
      with st c1 less.prems \<open>res = Inr out\<close> show ?thesis by (simp add: unfold ev1)
    next
      case commit: (Inr x)
      obtain d b where x: "x = (d, b)" by force
      have com: "commit_step env (clock k) c (length (run_events (w_db w1) ?r)) out (w_db w1) = Inr (d, b)"
        using commit x by (simp add: ev1)
      note new = steps_contiguous_commit [OF c1 com]
      show ?thesis
      proof (cases "so_final out")
        case True
        with st commit x new less.prems \<open>res = Inr out\<close> show ?thesis by (simp add: unfold ev1)
      next
        case False
        have "length ?evs \<noteq> m" using stops st \<open>res = Inr out\<close> False by blast
        with less.prems(2) have lt: "length ?evs < m" by simp
        let ?w = "w1\<lparr>w_db := d\<rparr>"
        have "\<exists>res w'. execute_loop env clock next_step c (Suc k) ?w = Some (res, w')
          \<and> steps_contiguous (w_db w') ?r \<and> length (run_events (w_db w') ?r) \<le> Suc m
          \<and> (res = Inr () \<longrightarrow> run_events (w_db w') ?r \<noteq> [])"
          by (rule less.hyps) (use lt new in \<open>simp_all add: ev1\<close>)
        with st commit x False \<open>res = Inr out\<close> show ?thesis by (simp add: unfold)
      qed
    qed
  qed
qed

end

interpretation toy_loop: bounded_workflow "toy_step \<lparr>tw_steps = int n + 1, tw_delay = dl, tw_cost = cost\<rparr>" n
  for n dl cost
  by unfold_locales (auto simp: toy_step_def toy_next_step_def)

section \<open>Commits that succeed\<close>

lemma sql_update_opt_map:
  "(\<And>x. x \<in> set rows \<Longrightarrow> p x \<Longrightarrow> f x = Some (g x)) \<Longrightarrow> sql_update_opt p f rows = Some (sql_update p g rows)"
  by (induction rows) (auto simp: sql_update_def)

lemma numeric_cast_ok: "fits_scale s x \<Longrightarrow> \<bar>x\<bar> < 10 ^ (p - s) \<Longrightarrow> numeric_cast p s x = Some x"
  by (simp add: numeric_cast_def numeric_round_fits)

definition credit :: "uuid \<Rightarrow> money \<Rightarrow> run_row list \<Rightarrow> run_row list" where
  "credit r cost rows = sql_update (\<lambda>x. r_id x = r) (\<lambda>x. x\<lparr>r_spent_usd := r_spent_usd x + cost\<rparr>) rows"

lemma add_spend_ok:
  assumes "\<And>x. x \<in> set (runs d) \<Longrightarrow> r_id x = r \<Longrightarrow>
      fits_scale 6 (r_spent_usd x + cost) \<and> \<bar>r_spent_usd x + cost\<bar> < 1000000"
  shows "add_spend r cost d = Inr (d\<lparr>runs := credit r cost (runs d)\<rparr>)"
proof -
  have "sql_update_opt (\<lambda>x. r_id x = r)
      (\<lambda>x. map_option (\<lambda>s. x\<lparr>r_spent_usd := s\<rparr>) (numeric_cast 12 6 (r_spent_usd x + cost))) (runs d)
    = Some (credit r cost (runs d))"
    unfolding credit_def using assms by (intro sql_update_opt_map) (simp add: numeric_cast_ok)
  then show ?thesis by (simp add: add_spend_def)
qed

lemma commit_step_ok:
  assumes fence: "assert_lease env now c d = Inr ()" and log: "steps_contiguous d (cl_run_id c)"
    and x: "find_run (cl_run_id c) d = Some x" and ok: "jsonb_ok (JObj (commit_payload c out))"
    and spend: "\<And>x. x \<in> set (runs d) \<Longrightarrow> r_id x = cl_run_id c \<Longrightarrow>
      fits_scale 6 (r_spent_usd x + so_cost_usd out) \<and> \<bar>r_spent_usd x + so_cost_usd out\<bar> < 1000000"
  shows "\<exists>d'. commit_step env now c (length (run_events d (cl_run_id c))) out d = Inr (d', True)
    \<and> runs d' = (if so_final out then sql_update (\<lambda>r. r_id r = cl_run_id c)
          (\<lambda>r. r\<lparr>r_status := so_final_status out, r_finished_at := Some now\<rparr>) (credit (cl_run_id c) (so_cost_usd out) (runs d))
        else credit (cl_run_id c) (so_cost_usd out) (runs d))"
proof -
  let ?r = "cl_run_id c" and ?n = "length (run_events d (cl_run_id c))"
  have "step_key ?r ?n \<notin> ev_idem_key ` set (run_events d ?r)" using steps_contiguous_key [OF log] by simp
  then have "List.find (\<lambda>e. ev_idem_key e = step_key ?r ?n) (run_events d ?r) = None"
    unfolding find_None_iff by (metis image_eqI)
  with x ok obtain d1 res where app: "append_event now ?r (step_key ?r ?n) (so_type out) (commit_payload c out) d = Inr (d1, res)"
    "ar_inserted res" "runs d1 = runs d"
    by (simp add: append_event_def Let_def del: jsonb_ok.simps)
  from add_spend_ok [of d1 ?r "so_cost_usd out"] spend app(3)
  have "add_spend ?r (so_cost_usd out) d1 = Inr (d1\<lparr>runs := credit ?r (so_cost_usd out) (runs d)\<rparr>)" by simp
  with fence app show ?thesis by (simp add: commit_step_def finish_run_def)
qed

lemma find_run_credit:
  "find_run r d = Some x \<Longrightarrow> runs d' = credit r cost (runs d) \<Longrightarrow>
     find_run r d' = Some (x\<lparr>r_spent_usd := r_spent_usd x + cost\<rparr>)"
  by (simp add: find_run_def credit_def find_sql_update find_SomeD [of "\<lambda>x. r_id x = r"])

section \<open>A toy run completes\<close>

definition toy_events :: "ToyWorkflow \<Rightarrow> claim \<Rightarrow> nat \<Rightarrow> nat \<Rightarrow> event list" where
  "toy_events tw c i j = map (\<lambda>n. committed_event c n (toy_next_step tw c n) (Suc n)) [i..<j]"

lemma toy_payload_ok: "no_nul (cl_worker_id c) \<Longrightarrow> jsonb_ok (JObj (commit_payload c (toy_next_step tw c n)))"
  by (simp add: commit_payload_def toy_next_step_def no_nul_def)

lemma toy_run_from:
  assumes "distinct (map r_id (runs (w_db w)))" and "steps_contiguous (w_db w) (cl_run_id c)"
    and "find_run (cl_run_id c) (w_db w) = Some x"
    and "length (run_events (w_db w) (cl_run_id c)) + Suc k = nat (tw_steps tw)"
    and "\<And>i. \<exists>t \<in> set (tasks (w_db w)). held_by c t \<and> expires_after (clock i) t"
    and "no_nul (cl_worker_id c)" and "fits_scale 6 (tw_cost tw)" and "fits_scale 6 (r_spent_usd x)"
    and "0 \<le> tw_cost tw" and "0 \<le> r_spent_usd x"
    and "r_spent_usd x + of_nat (Suc k) * tw_cost tw < 1000000"
  shows "\<exists>w' x'. execute_loop env clock (toy_step tw) c i w = Some (Inr (), w')
    \<and> run_events (w_db w') (cl_run_id c) = run_events (w_db w) (cl_run_id c)
        @ toy_events tw c (length (run_events (w_db w) (cl_run_id c))) (nat (tw_steps tw))
    \<and> find_run (cl_run_id c) (w_db w') = Some x' \<and> r_status x' = Succeeded
    \<and> r_spent_usd x' = r_spent_usd x + of_nat (Suc k) * tw_cost tw
    \<and> (\<forall>t \<in> set (tasks (w_db w')). t_id t = cl_task_id c \<longrightarrow> t_status t = Done)"
  using assms
proof (induction k arbitrary: w x i)
  case (0 w x i)
  let ?d = "w_db w" and ?r = "cl_run_id c" and ?n = "length (run_events (w_db w) (cl_run_id c))"
  let ?out = "toy_next_step tw c ?n"
  have fence: "assert_lease env (clock i) c ?d = Inr ()"
    using 0(5) by (cases "fencing_enabled env") (simp_all add: assert_lease_iff, simp add: assert_lease_def)
  have uniq: "y = x" if "y \<in> set (runs ?d)" "r_id y = ?r" for y
    using that 0(1,3) find_key_unique [of r_id "runs ?d" y] by (simp add: find_run_def)
  have out: "so_final ?out" "so_final_status ?out = Succeeded" "so_cost_usd ?out = tw_cost tw"
    using 0(4) by (auto simp: toy_next_step_def)
  have sp: "fits_scale 6 (r_spent_usd y + so_cost_usd ?out) \<and> \<bar>r_spent_usd y + so_cost_usd ?out\<bar> < 1000000"
    if "y \<in> set (runs ?d)" "r_id y = ?r" for y
    using uniq [OF that] 0(7-11) out(3) by (simp add: fits_scale_add)
  obtain d' where d': "commit_step env (clock i) c ?n ?out ?d = Inr (d', True)"
    "runs d' = sql_update (\<lambda>r. r_id r = ?r) (\<lambda>r. r\<lparr>r_status := Succeeded, r_finished_at := Some (clock i)\<rparr>)
       (credit ?r (tw_cost tw) (runs ?d))"
    using commit_step_ok [OF fence 0(2,3) toy_payload_ok [OF 0(6)] sp] out by auto
  note w = commit_step_written [OF d'(1)]
  have g: "gapless ?d ?r" using 0(2) by (simp add: steps_contiguous_def)
  have "find_run ?r d' = Some (x\<lparr>r_spent_usd := r_spent_usd x + tw_cost tw, r_status := Succeeded,
      r_finished_at := Some (clock i)\<rparr>)"
    using 0(3) by (simp add: find_run_def d'(2) credit_def find_sql_update find_SomeD [of "\<lambda>x. r_id x = ?r"])
  moreover have "execute_loop env clock (toy_step tw) c i w = Some (Inr (), w\<lparr>w_db := d'\<rparr>)"
    using d'(1) out(1) by (simp add: execute_loop.simps [of env clock "toy_step tw"] steps_contiguous_read [OF 0(2)] toy_step_def)
  moreover have "nat (tw_steps tw) = Suc ?n" using 0(4) by simp
  ultimately show ?case
    using w(1) [OF g, of ?r] w(3) [OF g] out(1) by (auto simp: toy_events_def set_sql_update)
next
  case (Suc k w x i)
  let ?d = "w_db w" and ?r = "cl_run_id c" and ?n = "length (run_events (w_db w) (cl_run_id c))"
  let ?out = "toy_next_step tw c ?n"
  have fence: "assert_lease env (clock i) c ?d = Inr ()"
    using Suc.prems(5) by (cases "fencing_enabled env") (simp_all add: assert_lease_iff, simp add: assert_lease_def)
  have uniq: "y = x" if "y \<in> set (runs ?d)" "r_id y = ?r" for y
    using that Suc.prems(1,3) find_key_unique [of r_id "runs ?d" y] by (simp add: find_run_def)
  have out: "\<not> so_final ?out" "so_cost_usd ?out = tw_cost tw"
    using Suc.prems(4) by (auto simp: toy_next_step_def)
  have bound: "r_spent_usd x + tw_cost tw + of_nat (Suc k) * tw_cost tw < 1000000"
    using Suc.prems(11) by (simp add: algebra_simps)
  moreover have "0 \<le> of_nat (Suc k) * tw_cost tw" using Suc.prems(9) by simp
  ultimately have small: "\<bar>r_spent_usd x + tw_cost tw\<bar> < 1000000"
    using Suc.prems(9,10) by linarith
  have sp: "fits_scale 6 (r_spent_usd y + so_cost_usd ?out) \<and> \<bar>r_spent_usd y + so_cost_usd ?out\<bar> < 1000000"
    if "y \<in> set (runs ?d)" "r_id y = ?r" for y
    using uniq [OF that] Suc.prems(7,8) small out(2) by (simp add: fits_scale_add)
  obtain d' where d': "commit_step env (clock i) c ?n ?out ?d = Inr (d', True)"
    "runs d' = credit ?r (tw_cost tw) (runs ?d)"
    using commit_step_ok [OF fence Suc.prems(2,3) toy_payload_ok [OF Suc.prems(6)] sp] out by auto
  have g: "gapless ?d ?r" using Suc.prems(2) by (simp add: steps_contiguous_def)
  note new = steps_contiguous_commit [OF Suc.prems(2) d'(1)]
  let ?w = "w\<lparr>w_db := d'\<rparr>" and ?x = "x\<lparr>r_spent_usd := r_spent_usd x + tw_cost tw\<rparr>"
  have tasks: "tasks d' = tasks ?d" using commit_step_written(3) [OF d'(1) g] out(1) by simp
  have "\<exists>w' x'. execute_loop env clock (toy_step tw) c (Suc i) ?w = Some (Inr (), w')
    \<and> run_events (w_db w') ?r = run_events (w_db ?w) ?r
        @ toy_events tw c (length (run_events (w_db ?w) ?r)) (nat (tw_steps tw))
    \<and> find_run ?r (w_db w') = Some x' \<and> r_status x' = Succeeded
    \<and> r_spent_usd x' = r_spent_usd ?x + of_nat (Suc k) * tw_cost tw
    \<and> (\<forall>t \<in> set (tasks (w_db w')). t_id t = cl_task_id c \<longrightarrow> t_status t = Done)"
  proof (rule Suc.IH)
    show "find_run ?r (w_db ?w) = Some ?x" using find_run_credit [OF Suc.prems(3) d'(2)] by simp
    show "distinct (map r_id (runs (w_db ?w)))" using Suc.prems(1) by (simp add: d'(2) credit_def table_simps)
    show "\<exists>t \<in> set (tasks (w_db ?w)). held_by c t \<and> expires_after (clock j) t" for j
      using Suc.prems(5) by (simp add: tasks)
    show "r_spent_usd ?x + of_nat (Suc k) * tw_cost tw < 1000000" using bound by simp
  qed (use Suc.prems new in \<open>simp_all add: fits_scale_add\<close>)
  moreover have "execute_loop env clock (toy_step tw) c i w = execute_loop env clock (toy_step tw) c (Suc i) ?w"
    using d'(1) out(1) by (simp add: execute_loop.simps [of env clock "toy_step tw" c i] steps_contiguous_read [OF Suc.prems(2)] toy_step_def)
  moreover have "toy_events tw c ?n (nat (tw_steps tw)) =
      committed_event c ?n ?out (Suc ?n) # toy_events tw c (Suc ?n) (nat (tw_steps tw))"
    using Suc.prems(4) by (simp add: toy_events_def upt_conv_Cons)
  ultimately show ?case using new(3) by (auto simp: algebra_simps)
qed


section \<open>Properties\<close>

text \<open>
  The toy workflow completes from wherever its log stands: if the claim keeps its lease, the run's
  spend stays inside its column and some step is left, the loop returns normally; it appended exactly
  the missing steps, in order, after the events it found, added their cost, and left the run succeeded
  and its task done.
\<close>

theorem toy_run_completes:
  assumes "distinct (map r_id (runs (w_db w)))" and "steps_contiguous (w_db w) (cl_run_id c)"
    and "find_run (cl_run_id c) (w_db w) = Some x"
    and "int (length (run_events (w_db w) (cl_run_id c))) < tw_steps tw"
    and "\<And>i. \<exists>t \<in> set (tasks (w_db w)). held_by c t \<and> expires_after (clock i) t"
    and "no_nul (cl_worker_id c)" and "fits_scale 6 (tw_cost tw)" and "fits_scale 6 (r_spent_usd x)"
    and "0 \<le> tw_cost tw" and "0 \<le> r_spent_usd x"
    and "r_spent_usd x + of_int (tw_steps tw - int (length (run_events (w_db w) (cl_run_id c)))) * tw_cost tw < 1000000"
  shows "\<exists>w' x'. execute_loop env clock (toy_step tw) c i w = Some (Inr (), w')
    \<and> run_events (w_db w') (cl_run_id c) = run_events (w_db w) (cl_run_id c)
        @ toy_events tw c (length (run_events (w_db w) (cl_run_id c))) (nat (tw_steps tw))
    \<and> find_run (cl_run_id c) (w_db w') = Some x' \<and> r_status x' = Succeeded
    \<and> r_spent_usd x' = r_spent_usd x
        + of_int (tw_steps tw - int (length (run_events (w_db w) (cl_run_id c)))) * tw_cost tw
    \<and> (\<forall>t \<in> set (tasks (w_db w')). t_id t = cl_task_id c \<longrightarrow> t_status t = Done)"
proof -
  define k where "k = nat (tw_steps tw) - Suc (length (run_events (w_db w) (cl_run_id c)))"
  have k: "length (run_events (w_db w) (cl_run_id c)) + Suc k = nat (tw_steps tw)"
    using assms(4) by (simp add: k_def)
  then have "tw_steps tw - int (length (run_events (w_db w) (cl_run_id c))) = int (Suc k)" using assms(4) by linarith
  then have steps: "of_int (tw_steps tw - int (length (run_events (w_db w) (cl_run_id c)))) = (of_nat (Suc k) :: rat)"
    by (metis of_int_of_nat_eq)
  show ?thesis unfolding steps
    by (rule toy_run_from [OF assms(1-3) k assms(5-10)]) (use assms(11) steps in simp)
qed

definition toy_world :: "unit world" where
  "toy_world = \<lparr>w_db = empty_db\<lparr>runs := [sample_run], tasks := [sample_task]\<rparr>, w_state = ()\<rparr>"

theorem toy_run_completes_witness:
  "let tw = \<lparr>tw_steps = 2, tw_delay = 0, tw_cost = 1 / 10000\<rparr>;
       c = \<lparr>cl_task_id = ''t'', cl_run_id = ''r'', cl_worker_id = ''B'', cl_attempt = 2\<rparr>
   in \<exists>w'. execute_loop (\<lambda>_. None) (\<lambda>_. 5) (toy_step tw) c 0 toy_world = Some (Inr (), w')
     \<and> length (run_events (w_db w') ''r'') = 2"
proof -
  let ?tw = "\<lparr>tw_steps = 2, tw_delay = 0, tw_cost = 1 / 10000\<rparr>"
  let ?c = "\<lparr>cl_task_id = ''t'', cl_run_id = ''r'', cl_worker_id = ''B'', cl_attempt = 2\<rparr>"
  have ev: "run_events (w_db toy_world) ''r'' = []"
    by (simp add: toy_world_def run_events_def empty_db_def)
  have h: "distinct (map r_id (runs (w_db toy_world)))" "find_run ''r'' (w_db toy_world) = Some sample_run"
    "\<exists>t \<in> set (tasks (w_db toy_world)). held_by ?c t \<and> expires_after 5 t"
    "r_spent_usd sample_run = 0" "fits_scale 6 (1 / 10000)" "no_nul ''B''"
    "steps_contiguous (w_db toy_world) ''r''"
    by (simp_all add: toy_world_def find_run_def sample_run_def sample_task_def held_by_def expires_after_def
        fits_scale_def no_nul_def) (simp add: steps_contiguous_def gapless_def run_events_def empty_db_def)
  from toy_run_completes [of toy_world ?c sample_run ?tw "\<lambda>_. 5" "\<lambda>_. None" 0] h ev show ?thesis
    by (auto simp: toy_events_def)
qed

text \<open>
  A toy spec whose number of steps is not positive never finishes its run: no execution of it, of
  any length, returns normally.
\<close>

theorem toy_without_steps_never_finishes:
  assumes "tw_steps tw \<le> 0"
  shows "execute_loop env clock (toy_step tw) c i w \<noteq> Some (Inr (), w')"
proof
  have never: "\<not> so_final (toy_next_step tw c n)" for c n using assms by (simp add: toy_next_step_def)
  have "ns = toy_step tw \<longrightarrow> fst y \<noteq> Inr ()"
    if "execute_loop env clock ns c i w = Some y" for ns :: "'a workflow_step" and i w y
    by (rule execute_loop.raw_induct [where P = "\<lambda>env clock ns c k w y. ns = toy_step tw \<longrightarrow> fst y \<noteq> Inr ()", OF _ that])
       (auto simp: Let_def toy_step_def never split: sum.splits prod.splits if_splits)
  then show "execute_loop env clock (toy_step tw) c i w = Some (Inr (), w') \<Longrightarrow> False" by fastforce
qed

theorem toy_without_steps_never_finishes_witness:
  "execute_loop (\<lambda>_. None) (\<lambda>_. 5) (toy_step \<lparr>tw_steps = 0, tw_delay = 0, tw_cost = 0\<rparr>) stale_claim 0 toy_world
     \<noteq> Some (Inr (), toy_world)"
  by (rule toy_without_steps_never_finishes) simp

text \<open>
  C12. A step is committed at most once, whoever retries it: after a commit that wrote step \<open>n\<close>, any
  commit of the same step (by any claim on the run, with any outcome) either raises or reports that
  nothing was inserted; in both cases the database is as the first commit left it.
\<close>

theorem commit_exactly_once:
  assumes "commit_step env now c n out d = Inr (d', True)" and "gapless d (cl_run_id c)"
    and "cl_run_id c2 = cl_run_id c" and "commit_step env now2 c2 n out2 d' = Inr (d'', b)"
  shows "d'' = d' \<and> \<not> b"
proof -
  have "step_key (cl_run_id c) n \<in> ev_idem_key ` set (run_events d' (cl_run_id c))"
    by (simp add: commit_step_written(1) [OF assms(1,2)] committed_event_def)
  moreover have "gapless d' (cl_run_id c)"
    using assms(2) by (simp add: gapless_def commit_step_written(1) [OF assms(1,2)] committed_event_def)
  ultimately have "\<not> b" using commit_step_written(2) [of env now2 c2 n out2 d' d''] assms(3,4) by (cases b) simp_all
  with commit_step_unwritten [OF assms(4)] show ?thesis by simp
qed

theorem commit_exactly_once_witness:
  "\<exists>d'. commit_step (\<lambda>_. None) 5 (stale_claim\<lparr>cl_worker_id := ''B'', cl_attempt := 2\<rparr>) 0
        (toy_next_step \<lparr>tw_steps = 9, tw_delay = 0, tw_cost = 0\<rparr> stale_claim 0) (w_db toy_world) = Inr (d', True)
    \<and> commit_step (\<lambda>_. None) 6 (stale_claim\<lparr>cl_worker_id := ''B'', cl_attempt := 2\<rparr>) 0
        (toy_next_step \<lparr>tw_steps = 1, tw_delay = 0, tw_cost = 7\<rparr> stale_claim 0) d' = Inr (d', False)"
proof -
  let ?c = "stale_claim\<lparr>cl_worker_id := ''B'', cl_attempt := 2\<rparr>"
  let ?o = "\<lambda>n cost. toy_next_step \<lparr>tw_steps = n, tw_delay = 0, tw_cost = cost\<rparr> stale_claim 0"
  have "\<exists>d'. commit_step (\<lambda>_. None) 5 ?c 0 (?o 9 0) (w_db toy_world) = Inr (d', True)
      \<and> (\<exists>d''. commit_step (\<lambda>_. None) 6 ?c 0 (?o 1 7) d' = Inr (d'', False))"
    by (simp add: toy_world_def sample_run_def sample_task_def stale_claim_def commit_step_def assert_lease_def
        held_by_def expires_after_def append_event_def find_run_def run_events_def commit_payload_def
        toy_next_step_def add_spend_def no_nul_def numeric_cast_def numeric_round_fits fits_scale_def empty_db_def)
  then obtain d' d'' where d': "commit_step (\<lambda>_. None) 5 ?c 0 (?o 9 0) (w_db toy_world) = Inr (d', True)"
    "commit_step (\<lambda>_. None) 6 ?c 0 (?o 1 7) d' = Inr (d'', False)" by blast
  have "gapless (w_db toy_world) (cl_run_id ?c)"
    by (simp add: toy_world_def gapless_def run_events_def empty_db_def)
  from commit_exactly_once [OF d'(1) this refl d'(2)] d' show ?thesis by auto
qed

end
