(* ===== verification/Budget.thy ===== *)
theory Budget
  imports Store
begin

text \<open>
  \<open>src/phoenix/budget.py\<close>: the limits of a run, decided from its replayed events: the spend so far,
  the number of steps, and whether the last actions are all the same.
\<close>

definition DEFAULT_MAX_STEPS :: int where "DEFAULT_MAX_STEPS = 20"
definition LOOP_WINDOW :: nat where "LOOP_WINDOW = 3"

record Termination =
  tm_status :: run_status
  tm_reason :: string

definition event_cost :: "event \<Rightarrow> money result" where
  "event_cost e = py_Decimal (get_default (ev_payload e) ''cost_usd'' (JStr ''0''))"

fun sum_costs :: "money \<Rightarrow> event list \<Rightarrow> money result" where
  "sum_costs acc [] = Inr acc"
| "sum_costs acc (e # es) = (case event_cost e of Inl x \<Rightarrow> Inl x | Inr c \<Rightarrow> sum_costs (acc + c) es)"

definition spent_from_events :: "event list \<Rightarrow> money result" where
  "spent_from_events evs = sum_costs 0 evs"

definition public_key :: "string \<Rightarrow> bool" where
  "public_key k \<longleftrightarrow> take 1 k \<noteq> ''_''"

text \<open>The fingerprint of an action: the sorted text of its entries without the \<open>_\<close>-prefixed ones.\<close>

definition fingerprint :: "json \<Rightarrow> json result" where
  "fingerprint action = (case as_dict action of
       Inl e \<Rightarrow> Inl e
     | Inr d \<Rightarrow> Inr (sorted_dumps (JObj (filter (\<lambda>(k, v). public_key k) d))))"

definition event_actions :: "event list \<Rightarrow> json list" where
  "event_actions evs = List.map_filter (\<lambda>e. map_of (ev_payload e) ''action'') evs"

text \<open>\<open>xs[-n:]\<close>\<close>

definition last_slice :: "nat \<Rightarrow> 'a list \<Rightarrow> 'a list" where
  "last_slice n xs = (if n = 0 then xs else drop (length xs - n) xs)"

definition detect_loop :: "event list \<Rightarrow> nat \<Rightarrow> bool result" where
  "detect_loop evs window =
     (let actions = event_actions evs in
      if length actions < window then Inr False
      else case map_result fingerprint (last_slice window actions) of
        Inl e \<Rightarrow> Inl e
      | Inr fps \<Rightarrow> Inr (card (set fps) = 1))"

definition check_limits :: "event list \<Rightarrow> money \<Rightarrow> int \<Rightarrow> Termination option result" where
  "check_limits evs budget_usd max_steps =
     (case spent_from_events evs of
        Inl e \<Rightarrow> Inl e
      | Inr spent \<Rightarrow>
          if spent \<ge> budget_usd then
            Inr (Some \<lparr>tm_status = Budget_exceeded, tm_reason = ''budget cap reached''\<rparr>)
          else if int (length evs) \<ge> max_steps then
            Inr (Some \<lparr>tm_status = Failed,
                       tm_reason = ''max_steps ('' @ str_int max_steps @ '') reached''\<rparr>)
          else
            (case detect_loop evs LOOP_WINDOW of
               Inl e \<Rightarrow> Inl e
             | Inr loop \<Rightarrow>
                 if loop then
                   Inr (Some \<lparr>tm_status = Failed,
                              tm_reason = ''loop detected: '' @ str_nat LOOP_WINDOW @ '' identical actions in a row''\<rparr>)
                 else Inr None))"

section \<open>Lemmas: spend\<close>

text \<open>
  The events the program writes carry their cost as decimal text or no cost at all; on such events
  the spend is the plain sum.
\<close>

definition cost_of :: "dict \<Rightarrow> money" where
  "cost_of p = (case map_of p ''cost_usd'' of Some (JDec q) \<Rightarrow> q | _ \<Rightarrow> 0)"

definition priced :: "dict \<Rightarrow> bool" where
  "priced p \<longleftrightarrow> (case map_of p ''cost_usd'' of None \<Rightarrow> True | Some (JDec q) \<Rightarrow> True | _ \<Rightarrow> False)"

lemma parse_decimal_zero: "parse_decimal ''0'' = Some 0"
  by (simp add: parse_decimal_def parse_plain_decimal_def split_sign_def all_digits_def is_digit_def
      int_of_str_def digit_val_def Let_def)

lemma event_cost_priced: "priced (ev_payload e) \<Longrightarrow> event_cost e = Inr (cost_of (ev_payload e))"
  by (auto simp: priced_def cost_of_def event_cost_def get_default_def py_Decimal_def parse_decimal_zero
      split: option.splits json.splits)

lemma sum_costs_priced:
  "(\<And>e. e \<in> set evs \<Longrightarrow> priced (ev_payload e)) \<Longrightarrow>
     sum_costs t evs = Inr (t + sum_list (map (cost_of \<circ> ev_payload) evs))"
  by (induction evs arbitrary: t) (auto simp: event_cost_priced)

lemma spent_from_events_priced:
  "(\<And>e. e \<in> set evs \<Longrightarrow> priced (ev_payload e)) \<Longrightarrow>
     spent_from_events evs = Inr (sum_list (map (cost_of \<circ> ev_payload) evs))"
  by (simp add: spent_from_events_def sum_costs_priced)

section \<open>Lemmas: loops\<close>

definition public_view :: "dict \<Rightarrow> string \<Rightarrow> json option" where
  "public_view a k = (if public_key k then map_option sorted_dumps (map_of a k) else None)"

lemma map_of_filter_public:
  "map_of (filter (\<lambda>(k, v). public_key k) d) k = (if public_key k then map_of d k else None)"
  by (induction d) auto

lemma fingerprint_eq_iff:
  assumes "distinct (map fst a)" and "distinct (map fst b)"
  shows "fingerprint (JObj a) = fingerprint (JObj b) \<longleftrightarrow> public_view a = public_view b"
proof -
  have "distinct (map fst (filter (\<lambda>(k, v). public_key k) x))" if "distinct (map fst x)" for x :: dict
    using that by (rule distinct_map_filter)
  from sorted_dumps_dict_eq_iff [OF this this, OF assms] show ?thesis
    by (simp add: fingerprint_def as_dict_def map_of_filter_public public_view_def fun_eq_iff
        del: sorted_dumps.simps)
qed

lemma card_1_iff_all_equal: "xs \<noteq> [] \<Longrightarrow> card (set xs) = 1 \<longleftrightarrow> (\<forall>x \<in> set xs. x = hd xs)"
  by (cases xs) (auto simp: card_1_singleton_iff)

definition action_dict :: "json \<Rightarrow> dict" where
  "action_dict x = (case x of JObj a \<Rightarrow> a | _ \<Rightarrow> [])"

definition proper_action :: "json \<Rightarrow> bool" where
  "proper_action x \<longleftrightarrow> (\<exists>a. x = JObj a \<and> distinct (map fst a))"

definition all_alike :: "json list \<Rightarrow> bool" where
  "all_alike xs \<longleftrightarrow> (\<forall>x \<in> set xs. \<forall>y \<in> set xs. public_view (action_dict x) = public_view (action_dict y))"

lemma fingerprint_proper:
  "proper_action x \<Longrightarrow> proper_action y \<Longrightarrow>
     fingerprint x = fingerprint y \<longleftrightarrow> public_view (action_dict x) = public_view (action_dict y)"
  by (auto simp: proper_action_def action_dict_def fingerprint_eq_iff)

lemma fingerprints_alike:
  assumes "\<And>x. x \<in> set xs \<Longrightarrow> proper_action x" and "xs \<noteq> []"
  shows "\<exists>fps. map_result fingerprint xs = Inr fps \<and> (card (set fps) = 1 \<longleftrightarrow> all_alike xs)"
proof -
  have fp: "fingerprint x = Inr (projr (fingerprint x))" if "x \<in> set xs" for x
    using assms(1) [OF that] by (auto simp: proper_action_def fingerprint_def as_dict_def)
  then have m: "map_result fingerprint xs = Inr (map (projr \<circ> fingerprint) xs)"
    by (intro map_result_cong_Inr) simp
  have eq: "projr (fingerprint x) = projr (fingerprint y) \<longleftrightarrow>
      public_view (action_dict x) = public_view (action_dict y)" if "x \<in> set xs" "y \<in> set xs" for x y
    using fingerprint_proper [OF assms(1,1), OF that] fp that by metis
  have "card (set (map (projr \<circ> fingerprint) xs)) = 1 \<longleftrightarrow>
      (\<forall>x \<in> set xs. projr (fingerprint x) = projr (fingerprint (hd xs)))"
    using assms(2) by (subst card_1_iff_all_equal) (auto simp: hd_map)
  also have "\<dots> \<longleftrightarrow> all_alike xs"
    unfolding all_alike_def using eq assms(2) by (metis hd_in_set)
  finally show ?thesis using m by blast
qed

text \<open>
  C34. Loop detection is exact: on a log whose actions are dicts, a loop is reported iff there are at
  least \<open>window\<close> actions and the last \<open>window\<close> of them agree on every public key (keys that start
  with an underscore, provider metadata, are ignored; the order of the keys does not matter).
\<close>

theorem detect_loop_exact:
  assumes "\<forall>x \<in> set (event_actions evs). proper_action x" and "0 < window"
  shows "detect_loop evs window =
    Inr (window \<le> length (event_actions evs) \<and> all_alike (last_slice window (event_actions evs)))"
proof (cases "length (event_actions evs) < window")
  case True
  then show ?thesis by (simp add: detect_loop_def)
next
  case False
  let ?xs = "last_slice window (event_actions evs)"
  have "\<And>x. x \<in> set ?xs \<Longrightarrow> proper_action x"
    using assms(1) by (auto simp: last_slice_def dest: in_set_dropD split: if_splits)
  moreover have "?xs \<noteq> []" using False assms(2) by (auto simp: last_slice_def)
  ultimately obtain fps where "map_result fingerprint ?xs = Inr fps" "card (set fps) = 1 \<longleftrightarrow> all_alike ?xs"
    using fingerprints_alike by blast
  with False show ?thesis by (simp add: detect_loop_def)
qed

definition action_event :: "nat \<Rightarrow> dict \<Rightarrow> event" where
  "action_event n a = \<lparr>ev_run_id = ''r'', ev_seq = n, ev_type = ''agent_step'',
     ev_payload = [(''action'', JObj a)], ev_idem_key = step_key ''r'' n\<rparr>"

theorem detect_loop_exact_witness:
  "detect_loop [action_event 1 [(''tool'', JStr ''run_code''), (''_ext'', JInt 1)],
                action_event 2 [(''_ext'', JInt 2), (''tool'', JStr ''run_code'')],
                action_event 3 [(''tool'', JStr ''run_code'')]] 3 = Inr True"
proof -
  let ?evs = "[action_event 1 [(''tool'', JStr ''run_code''), (''_ext'', JInt 1)],
                action_event 2 [(''_ext'', JInt 2), (''tool'', JStr ''run_code'')],
                action_event 3 [(''tool'', JStr ''run_code'')]]"
  have "\<forall>x \<in> set (event_actions ?evs). proper_action x" "(0::nat) < 3"
    by (simp_all add: event_actions_def action_event_def map_filter_simps proper_action_def)
  from detect_loop_exact [OF this] show ?thesis
    by (simp add: event_actions_def action_event_def map_filter_simps last_slice_def all_alike_def
        action_dict_def public_view_def public_key_def fun_eq_iff)
qed

lemma check_limits_NoneD:
  assumes "check_limits evs b m = Inr None"
  shows "\<exists>spent. spent_from_events evs = Inr spent \<and> spent < b" and "int (length evs) < m"
  using assms by (auto simp: check_limits_def split: sum.splits if_splits)

lemma check_limits_at_max_steps:
  assumes "m \<le> int (length evs)"
  shows "check_limits evs b m \<noteq> Inr None"
  using assms by (auto simp: check_limits_def split: sum.splits if_splits)

end
