(* ===== verification/LLM.thy ===== *)
theory LLM
  imports Store
begin

text \<open>
  \<open>src/phoenix/llm/base.py\<close>, \<open>cache.py\<close> and \<open>mock.py\<close>: provider responses, the price of a call,
  the cache key, the response cache with its log of provider calls, and the scripted provider. A
  real provider is a parameter: a function from the messages to a response or an exception. The
  statements of \<open>complete_cached\<close> are separate transactions, so the theory also names the pieces a
  crash can separate.
\<close>

type_synonym message = dict

record llm_response =
  lr_action :: dict
  lr_input_tokens :: int
  lr_output_tokens :: int
  lr_cost_usd :: money

record provider =
  pv_name :: string
  pv_complete :: "message list \<Rightarrow> llm_response result"

section \<open>Prices\<close>

definition token_cost :: "int \<Rightarrow> int \<Rightarrow> string \<Rightarrow> string \<Rightarrow> money result" where
  "token_cost input_tokens output_tokens usd_per_mtok_in usd_per_mtok_out =
     (case py_Decimal (JStr usd_per_mtok_in) of
        Inl e \<Rightarrow> Inl e
      | Inr p_in \<Rightarrow>
          (case py_Decimal (JStr usd_per_mtok_out) of
             Inl e \<Rightarrow> Inl e
           | Inr p_out \<Rightarrow> Inr ((of_int input_tokens * p_in + of_int output_tokens * p_out) / 1000000)))"

section \<open>The cache key\<close>

text \<open>\<open>sha\<close> is \<open>hashlib.sha256(text.encode()).hexdigest()\<close>, applied to the sorted JSON text.\<close>

definition cache_key :: "(json \<Rightarrow> string) \<Rightarrow> string \<Rightarrow> uuid \<Rightarrow> nat \<Rightarrow> message list \<Rightarrow> string" where
  "cache_key sha provider run_id step_index messages =
     sha (sorted_dumps (JList [JStr provider, JStr run_id, JInt (int step_index),
                               JList (map JObj messages)]))"

section \<open>The cache\<close>

definition cache_lookup :: "string \<Rightarrow> db \<Rightarrow> llm_response option" where
  "cache_lookup key d =
     map_option (\<lambda>r. \<lparr>lr_action = lc_response r, lr_input_tokens = lc_input_tokens r,
                      lr_output_tokens = lc_output_tokens r, lr_cost_usd = lc_cost_usd r\<rparr>)
       (List.find (\<lambda>r. lc_key r = key) (llm_cache d))"

definition log_call :: "time \<Rightarrow> uuid \<Rightarrow> nat \<Rightarrow> string \<Rightarrow> nat \<Rightarrow> string option \<Rightarrow> db \<Rightarrow> db" where
  "log_call now run_id step_index key attempt worker_id d =
     d\<lparr>provider_calls := provider_calls d @
        [\<lparr>pc_id = Suc (length (provider_calls d)), pc_run_id = run_id, pc_step_index = step_index,
          pc_cache_key = key, pc_called_at = now, pc_attempt = attempt, pc_worker_id = worker_id\<rparr>]\<rparr>"

definition store_response :: "string \<Rightarrow> llm_response \<Rightarrow> db \<Rightarrow> db result" where
  "store_response key resp d =
     (if \<not> jsonb_ok (JObj (lr_action resp)) then Inl UntranslatableCharacter
      else case numeric_cast 10 6 (lr_cost_usd resp) of
        None \<Rightarrow> Inl NumericOverflow
      | Some cost \<Rightarrow>
          if key \<in> lc_key ` set (llm_cache d) then Inr d
          else Inr (d\<lparr>llm_cache := llm_cache d @
                 [\<lparr>lc_key = key, lc_response = lr_action resp, lc_input_tokens = lr_input_tokens resp,
                   lc_output_tokens = lr_output_tokens resp, lc_cost_usd = cost\<rparr>]\<rparr>))"

text \<open>
  The whole function. The second component is the database when it returns or raises: the
  statements are not in one transaction, so an exception keeps the effects before it.
\<close>

definition complete_cached :: "(json \<Rightarrow> string) \<Rightarrow> provider \<Rightarrow> time \<Rightarrow> uuid \<Rightarrow> nat \<Rightarrow> message list \<Rightarrow>
    nat \<Rightarrow> string option \<Rightarrow> db \<Rightarrow> llm_response result \<times> db" where
  "complete_cached sha provider now run_id step_index messages attempt worker_id d =
     (let key = cache_key sha (pv_name provider) run_id step_index messages in
      case cache_lookup key d of
        Some resp \<Rightarrow> (Inr resp, d)
      | None \<Rightarrow>
          (let d1 = log_call now run_id step_index key attempt worker_id d in
           case pv_complete provider messages of
             Inl e \<Rightarrow> (Inl e, d1)
           | Inr resp \<Rightarrow>
               (case store_response key resp d1 of
                  Inl e \<Rightarrow> (Inl e, d1)
                | Inr d2 \<Rightarrow> (Inr resp, d2))))"

section \<open>The scripted provider\<close>

definition MOCK_IN_TOKENS :: int where "MOCK_IN_TOKENS = 100"
definition MOCK_OUT_TOKENS :: int where "MOCK_OUT_TOKENS = 50"

definition MOCK_COST :: money where
  "MOCK_COST = (case token_cost MOCK_IN_TOKENS MOCK_OUT_TOKENS ''1'' ''5'' of Inr c \<Rightarrow> c | Inl _ \<Rightarrow> 0)"

definition write_action :: "string \<Rightarrow> string \<Rightarrow> dict" where
  "write_action path content = [(''tool'', JStr ''write_file''),
     (''args'', JObj [(''path'', JStr path), (''content'', JStr content)])]"

definition run_action :: "string \<Rightarrow> dict" where
  "run_action path = [(''tool'', JStr ''run_code''), (''args'', JObj [(''path'', JStr path)])]"

definition finish_action :: "string \<Rightarrow> dict" where
  "finish_action summary = [(''tool'', JStr ''finish''), (''args'', JObj [(''summary'', JStr summary)])]"

definition assistant_turns :: "message list \<Rightarrow> nat" where
  "assistant_turns messages = length (filter (\<lambda>m. map_of m ''role'' = Some (JStr ''assistant'')) messages)"

text \<open>An empty script makes the index \<open>-1\<close>, which raises \<open>IndexError\<close> on an empty list.\<close>

definition mock_complete :: "dict list \<Rightarrow> message list \<Rightarrow> llm_response result" where
  "mock_complete script messages =
     (if script = [] then Inl IndexError
      else Inr \<lparr>lr_action = script ! min (assistant_turns messages) (length script - 1),
                lr_input_tokens = MOCK_IN_TOKENS, lr_output_tokens = MOCK_OUT_TOKENS,
                lr_cost_usd = MOCK_COST\<rparr>)"

definition MockProvider :: "dict list \<Rightarrow> provider" where
  "MockProvider script = \<lparr>pv_name = ''mock'', pv_complete = mock_complete script\<rparr>"

definition SCENARIOS :: "(string \<times> dict list) list" where
  "SCENARIOS =
    [(''fail_twice_then_fix'',
        [write_action ''main.py'' ''print(1 / 0)'', run_action ''main.py'',
         write_action ''main.py'' ''print(undefined_name)'', run_action ''main.py'',
         write_action ''main.py'' (''print('' @ [CHR 0x27] @ ''hello'' @ [CHR 0x27] @ '')''),
         run_action ''main.py'', finish_action ''fixed after two failures'']),
     (''stuck_loop'', write_action ''main.py'' ''print(1 / 0)'' # replicate 50 (run_action ''main.py'')),
     (''endless_progress'',
        map (\<lambda>i. write_action (''f'' @ str_nat i @ ''.py'') (''print('' @ str_nat i @ '')'')) [0..<200]),
     (''write_outside'', [write_action ''../evil.txt'' ''x'', finish_action ''done''])]"

definition get_scenario :: "string \<Rightarrow> provider result" where
  "get_scenario name = (case map_of SCENARIOS name of
       None \<Rightarrow> Inl (KeyError name) | Some script \<Rightarrow> Inr (MockProvider script))"

section \<open>Lemmas\<close>

lemma MOCK_COST_eq: "MOCK_COST = 35 / 100000"
  by (simp add: MOCK_COST_def MOCK_IN_TOKENS_def MOCK_OUT_TOKENS_def token_cost_def py_Decimal_def
      parse_decimal_def parse_plain_decimal_def split_sign_def all_digits_def is_digit_def
      int_of_str_def digit_val_def Let_def)

lemma log_call_frame [simp]:
  "runs (log_call now r i k a w d) = runs d" "events (log_call now r i k a w d) = events d"
  "tasks (log_call now r i k a w d) = tasks d" "llm_cache (log_call now r i k a w d) = llm_cache d"
  by (simp_all add: log_call_def)

lemma store_response_frame:
  "store_response k resp d = Inr d' \<Longrightarrow>
     runs d' = runs d \<and> events d' = events d \<and> tasks d' = tasks d \<and> provider_calls d' = provider_calls d"
  by (auto simp: store_response_def split: if_splits option.splits)

lemma store_response_lookup:
  assumes "store_response k resp d = Inr d'" and "cache_lookup k d = None"
  shows "cache_lookup k d' = Some (resp\<lparr>lr_cost_usd := numeric_round 6 (lr_cost_usd resp)\<rparr>)"
proof -
  from assms(2) have "k \<notin> lc_key ` set (llm_cache d)" "List.find (\<lambda>r. lc_key r = k) (llm_cache d) = None"
    by (auto simp: cache_lookup_def find_None_iff)
  with assms(1) show ?thesis
    by (auto simp: store_response_def cache_lookup_def find_append numeric_cast_def Let_def
        split: if_splits)
qed

text \<open>
  The crash window is closed by the cache: once a call has been answered and cached, asking
  again for the same step (by any worker, under any attempt, even with a provider that would now
  answer differently or fail) returns the recorded action and token counts without a provider call
  and without changing the database. Its cost is the recorded cost rounded to six decimals.
\<close>

theorem cached_answer_reused:
  assumes "complete_cached sha pv now r i msgs a w d = (Inr resp, d1)"
    and "cache_lookup (cache_key sha (pv_name pv) r i msgs) d = None" and "pv_name pv' = pv_name pv"
  shows "complete_cached sha pv' now' r i msgs a' w' d1 =
      (Inr (resp\<lparr>lr_cost_usd := numeric_round 6 (lr_cost_usd resp)\<rparr>), d1)
    \<and> length (provider_calls d1) = Suc (length (provider_calls d))"
proof -
  let ?k = "cache_key sha (pv_name pv) r i msgs"
  have stored: "store_response ?k resp (log_call now r i ?k a w d) = Inr d1"
    using assms(1,2) by (auto simp: complete_cached_def Let_def split: sum.splits)
  have "cache_lookup ?k (log_call now r i ?k a w d) = None"
    using assms(2) by (simp add: cache_lookup_def)
  from store_response_lookup [OF stored this] store_response_frame [OF stored] assms(3) show ?thesis
    by (simp add: complete_cached_def log_call_def)
qed

theorem cached_answer_reused_witness:
  "let pv = MockProvider [finish_action ''ok'']; sha = (\<lambda>_. ''k'');
       d1 = snd (complete_cached sha pv 0 ''r'' 0 [] 1 None empty_db)
   in complete_cached sha \<lparr>pv_name = ''mock'', pv_complete = \<lambda>_. Inl OSError\<rparr> 9 ''r'' 0 [] 2 None d1
        = (Inr \<lparr>lr_action = finish_action ''ok'', lr_input_tokens = 100, lr_output_tokens = 50,
                lr_cost_usd = 35 / 100000\<rparr>, d1)"
proof -
  let ?pv = "MockProvider [finish_action ''ok'']" and ?sha = "\<lambda>_::json. ''k''"
  let ?resp = "\<lparr>lr_action = finish_action ''ok'', lr_input_tokens = 100, lr_output_tokens = 50,
      lr_cost_usd = 35 / 100000 :: rat\<rparr>"
  have fits: "numeric_round 6 (7 / 20000) = 7 / 20000"
    by (rule numeric_round_fits) (simp add: fits_scale_def)
  have "fst (complete_cached ?sha ?pv 0 ''r'' 0 [] 1 None empty_db) = Inr ?resp"
    by (simp add: complete_cached_def cache_lookup_def empty_db_def MockProvider_def mock_complete_def
        assistant_turns_def MOCK_COST_eq MOCK_IN_TOKENS_def MOCK_OUT_TOKENS_def store_response_def
        finish_action_def no_nul_def numeric_cast_def fits Let_def)
  then have c: "complete_cached ?sha ?pv 0 ''r'' 0 [] 1 None empty_db =
      (Inr ?resp, snd (complete_cached ?sha ?pv 0 ''r'' 0 [] 1 None empty_db))"
    by (metis prod.collapse)
  have l: "cache_lookup (cache_key ?sha (pv_name ?pv) ''r'' 0 []) empty_db = None"
    by (simp add: cache_lookup_def empty_db_def)
  from cached_answer_reused [OF c l, of "\<lparr>pv_name = ''mock'', pv_complete = \<lambda>_. Inl OSError\<rparr>" 9 2 None]
  show ?thesis by (simp add: MockProvider_def fits Let_def)
qed

end
