(* ===== verification/Sandbox.thy ===== *)
theory Sandbox
  imports Values
begin

text \<open>
  \<open>src/phoenix/sandbox/policy.py\<close> and \<open>runner.py\<close>: the limits of a sandbox run, the container
  configuration derived from them, capped capture of a container's output, the re-check of Docker's
  OOM flag, and \<open>DockerRunner.run\<close> with its cleanup. The Docker daemon is a parameter: what
  \<open>start\<close>, \<open>wait\<close> and the log streams give for one container, and what the OOM flag reads each time
  the container is reloaded.
\<close>

section \<open>Policy and result\<close>

record SandboxPolicy =
  sp_image :: string
  sp_timeout_s :: money
  sp_memory_mb :: nat
  sp_cpus :: money
  sp_pids_limit :: nat
  sp_max_output_bytes :: nat
  sp_tmpfs_mb :: nat
  sp_network :: bool
  sp_user :: string

definition default_policy :: SandboxPolicy where
  "default_policy = \<lparr>sp_image = ''python:3.12-slim'', sp_timeout_s = 10, sp_memory_mb = 128,
     sp_cpus = 1 / 2, sp_pids_limit = 64, sp_max_output_bytes = 64 * 1024, sp_tmpfs_mb = 16,
     sp_network = False, sp_user = ''65534:65534''\<rparr>"

record SandboxResult =
  sr_exit_code :: int
  sr_stdout :: string
  sr_stderr :: string
  sr_timed_out :: bool
  sr_oom_killed :: bool
  sr_duration_ms :: int
  sr_truncated :: bool

section \<open>The container's configuration\<close>

record container_config =
  cc_image :: string
  cc_cmd :: "string list"
  cc_name :: string
  cc_label :: string
  cc_working_dir :: string
  cc_user :: string
  cc_network_mode :: string
  cc_read_only :: bool
  cc_tmpfs :: "(string \<times> string) list"
  cc_volumes :: "(string \<times> string \<times> string) list"
  cc_mem_limit :: string
  cc_memswap_limit :: string
  cc_nano_cpus :: int
  cc_pids_limit :: nat
  cc_cap_drop :: "string list"
  cc_security_opt :: "string list"
  cc_log_max_size :: string
  cc_log_max_file :: string

definition LABEL :: string where "LABEL = ''phoenix.sandbox''"

definition container_of :: "SandboxPolicy \<Rightarrow> string \<Rightarrow> string list \<Rightarrow> string \<Rightarrow> container_config" where
  "container_of policy workspace cmd hex =
     \<lparr>cc_image = sp_image policy, cc_cmd = cmd, cc_name = ''phoenix-sbx-'' @ take 12 hex, cc_label = LABEL,
      cc_working_dir = ''/workspace'', cc_user = sp_user policy,
      cc_network_mode = (if sp_network policy then ''bridge'' else ''none''), cc_read_only = True,
      cc_tmpfs = [(''/tmp'', ''rw,noexec,nosuid,size='' @ str_nat (sp_tmpfs_mb policy) @ ''m'')],
      cc_volumes = [(workspace, ''/workspace'', ''rw'')],
      cc_mem_limit = str_nat (sp_memory_mb policy) @ ''m'',
      cc_memswap_limit = str_nat (sp_memory_mb policy) @ ''m'',
      cc_nano_cpus = \<lfloor>sp_cpus policy * 10 ^ 9\<rfloor>, cc_pids_limit = sp_pids_limit policy,
      cc_cap_drop = [''ALL''], cc_security_opt = [''no-new-privileges''],
      cc_log_max_size = str_nat (max (sp_max_output_bytes policy * 4) 10000000),
      cc_log_max_file = ''1''\<rparr>"

section \<open>Capturing output\<close>

text \<open>
  The loop over the log stream: \<open>buf\<close> is what is kept, \<open>total\<close> counts every byte. \<open>decode\<close> is
  \<open>bytes.decode("utf8", "replace")\<close>.
\<close>

fun capture_loop :: "nat \<Rightarrow> char list \<Rightarrow> nat \<Rightarrow> char list list \<Rightarrow> char list \<times> nat" where
  "capture_loop limit buf tot [] = (buf, tot)"
| "capture_loop limit buf tot (chunk # chunks) =
     capture_loop limit (if length buf < limit then buf @ take (limit - length buf) chunk else buf)
       (tot + length chunk) chunks"

definition capture :: "(char list \<Rightarrow> string) \<Rightarrow> nat \<Rightarrow> char list list \<Rightarrow> string \<times> bool" where
  "capture decode limit chunks =
     (let (buf, tot) = capture_loop limit [] 0 chunks in (decode buf, tot > limit))"

section \<open>The OOM flag\<close>

definition OOM_RECHECKS :: nat where "OOM_RECHECKS = 10"

text \<open>\<open>flag k\<close> is \<open>OOMKilled\<close> as read after the \<open>k\<close>-th reload (from 0); a reload may raise.\<close>

fun oom_recheck :: "(nat \<Rightarrow> bool result) \<Rightarrow> nat \<Rightarrow> nat \<Rightarrow> bool result" where
  "oom_recheck flag k 0 = Inr False"
| "oom_recheck flag k (Suc n) =
     bind_result (flag k) (\<lambda>oom. if oom then Inr True else oom_recheck flag (Suc k) n)"

definition oom_killed :: "(nat \<Rightarrow> bool result) \<Rightarrow> int \<Rightarrow> bool \<Rightarrow> bool result" where
  "oom_killed flag exit_code timed_out =
     bind_result (flag 0) (\<lambda>oom.
       if oom \<or> exit_code \<noteq> 137 \<or> timed_out then Inr oom else oom_recheck flag 1 OOM_RECHECKS)"

section \<open>Running a container\<close>

text \<open>
  What the daemon answers for one container. \<open>WaitTimeout\<close> is a \<open>ReadTimeout\<close> or connection error
  of the first wait. A log stream is its chunks or an error of the capturing thread. Of the errors of
  the daemon, \<open>_kill\<close> swallows \<open>NotFound\<close> and every other \<open>APIError\<close> (the container exited between the
  timeout and the kill), \<open>_remove\<close> only \<open>NotFound\<close>.
\<close>

datatype docker_reply = Docker_done | NotFound | APIError string | Docker_raised error

definition kill_container :: "docker_reply \<Rightarrow> unit result" where
  "kill_container r = (case r of Docker_raised e \<Rightarrow> Inl e | _ \<Rightarrow> Inr ())"

definition remove_container :: "docker_reply \<Rightarrow> unit result" where
  "remove_container r = (case r of
       Docker_done \<Rightarrow> Inr () | NotFound \<Rightarrow> Inr () | APIError msg \<Rightarrow> Inl (RuntimeError msg) | Docker_raised e \<Rightarrow> Inl e)"

datatype wait_outcome = Exited int | WaitTimeout | WaitRaised error

record docker =
  dk_create :: "unit result"
  dk_start :: "unit result"
  dk_wait :: wait_outcome
  dk_kill :: docker_reply
  dk_wait_after_kill :: "int result"
  dk_stdout :: "char list list result"
  dk_stderr :: "char list list result"
  dk_oom_flag :: "nat \<Rightarrow> bool result"
  dk_elapsed_ms :: int
  dk_remove :: docker_reply

definition wait_container :: "docker \<Rightarrow> (int \<times> bool) result" where
  "wait_container dk = (case dk_wait dk of
       Exited code \<Rightarrow> Inr (code, False)
     | WaitTimeout \<Rightarrow> bind_result (kill_container (dk_kill dk)) (\<lambda>_. bind_result (dk_wait_after_kill dk) (\<lambda>code. Inr (code, True)))
     | WaitRaised e \<Rightarrow> Inl e)"

text \<open>The body of the \<open>try\<close> in \<open>DockerRunner.run\<close>.\<close>

definition run_started :: "(char list \<Rightarrow> string) \<Rightarrow> docker \<Rightarrow> SandboxPolicy \<Rightarrow> SandboxResult result" where
  "run_started decode dk policy =
     bind_result (dk_start dk) (\<lambda>_.
     bind_result (wait_container dk) (\<lambda>(exit_code, timed_out).
     bind_result (dk_stdout dk) (\<lambda>out_chunks.
     bind_result (dk_stderr dk) (\<lambda>err_chunks.
     bind_result (oom_killed (dk_oom_flag dk) exit_code timed_out) (\<lambda>oom.
       let (out, out_cut) = capture decode (sp_max_output_bytes policy) out_chunks;
           (err, err_cut) = capture decode (sp_max_output_bytes policy) err_chunks
       in Inr \<lparr>sr_exit_code = exit_code, sr_stdout = out, sr_stderr = err,
               sr_timed_out = timed_out, sr_oom_killed = oom,
               sr_duration_ms = dk_elapsed_ms dk, sr_truncated = (out_cut \<or> err_cut)\<rparr>)))))"

text \<open>
  \<open>DockerRunner.run\<close> on the daemon's containers: everything after the create runs under
  \<open>try ... finally: _remove\<close>, and an error of the removal replaces the result.
\<close>

definition run_container :: "(char list \<Rightarrow> string) \<Rightarrow> docker \<Rightarrow> SandboxPolicy \<Rightarrow> string \<Rightarrow> string list \<Rightarrow>
    string \<Rightarrow> container_config list \<Rightarrow> SandboxResult result \<times> container_config list" where
  "run_container decode dk policy workspace cmd hex containers =
     (case dk_create dk of
        Inl e \<Rightarrow> (Inl e, containers)
      | Inr _ \<Rightarrow>
          (let cfg = container_of policy workspace cmd hex;
               live = containers @ [cfg];
               res = run_started decode dk policy
           in case remove_container (dk_remove dk) of
                Inl e \<Rightarrow> (Inl e, live)
              | Inr _ \<Rightarrow> (res, filter (\<lambda>k. cc_name k \<noteq> cc_name cfg) live)))"

definition leftover_containers :: "container_config list \<Rightarrow> string list" where
  "leftover_containers containers = map cc_name (filter (\<lambda>k. cc_label k = LABEL) containers)"

text \<open>
  \<open>remove_leftovers\<close>: the labelled containers are removed one by one; an error of \<open>_remove\<close> ends it.
\<close>

fun remove_leftovers :: "(container_config \<Rightarrow> docker_reply) \<Rightarrow> container_config list \<Rightarrow> unit result \<times> container_config list" where
  "remove_leftovers remove [] = (Inr (), [])"
| "remove_leftovers remove (c # cs) =
     (if cc_label c \<noteq> LABEL then (let (r, left) = remove_leftovers remove cs in (r, c # left))
      else (case remove_container (remove c) of
              Inl e \<Rightarrow> (Inl e, c # cs)
            | Inr _ \<Rightarrow> remove_leftovers remove cs))"

text \<open>\<open>ensure_image\<close>: what \<open>images.get\<close> of the Docker library does decides whether the image is pulled.\<close>

datatype image_lookup = Image_found | Image_not_found | Image_error error

definition ensure_image :: "(string \<Rightarrow> image_lookup) \<Rightarrow> (string \<Rightarrow> unit result) \<Rightarrow> string \<Rightarrow> unit result" where
  "ensure_image get_image pull img =
     (case get_image img of Image_found \<Rightarrow> Inr () | Image_not_found \<Rightarrow> pull img | Image_error e \<Rightarrow> Inl e)"

section \<open>Properties\<close>

lemma capture_loop_eq:
  "length buf \<le> limit \<Longrightarrow> capture_loop limit buf t chunks =
     (buf @ take (limit - length buf) (concat chunks), t + length (concat chunks))"
proof (induction chunks arbitrary: buf t)
  case (Cons chunk chunks)
  show ?case
  proof (cases "length buf < limit")
    case True
    let ?buf = "buf @ take (limit - length buf) chunk"
    have "length ?buf \<le> limit" using True by simp
    with Cons.IH [of ?buf "t + length chunk"] True show ?thesis by (simp add: add.assoc min_def)
  next
    case False
    with Cons.prems Cons.IH [of buf "t + length chunk"] show ?thesis by simp
  qed
qed simp

lemma capture_eq:
  "capture decode limit chunks = (decode (take limit (concat chunks)), length (concat chunks) > limit)"
  by (simp add: capture_def capture_loop_eq)

text \<open>
  However a container's output is cut into chunks, the runner keeps exactly the first \<open>limit\<close>
  bytes of it (decoded), and reports truncation iff there were more.
\<close>

theorem capture_keeps_head:
  "capture decode limit chunks = (decode (take limit (concat chunks)), length (concat chunks) > limit)"
  by (rule capture_eq)

lemma oom_recheck_iff: "oom_recheck (\<lambda>k. Inr (flag k)) k n = Inr (\<exists>j. k \<le> j \<and> j < k + n \<and> flag j)"
proof (induction n arbitrary: k)
  case (Suc n)
  show ?case
  proof (cases "flag k")
    case True
    then show ?thesis by (auto intro: exI [of _ k])
  next
    case False
    then have "k \<le> j \<and> j < k + Suc n \<and> flag j \<longleftrightarrow> Suc k \<le> j \<and> j < Suc k + n \<and> flag j" for j
      by (cases "j = k") auto
    with False Suc.IH show ?thesis by simp
  qed
qed simp

text \<open>
  The OOM verdict: the flag's first reading counts always; for an exit with code 137 that no
  timeout caused, the verdict is whether the flag shows up in any of the first eleven readings,
  and no other exit is re-checked.
\<close>

theorem oom_killed_iff:
  "oom_killed (\<lambda>k. Inr (flag k)) exit_code timed_out =
     Inr (flag 0 \<or> (exit_code = 137 \<and> \<not> timed_out \<and> (\<exists>j. 1 \<le> j \<and> j \<le> 10 \<and> flag j)))"
proof -
  have "1 \<le> j \<and> j < 1 + OOM_RECHECKS \<and> flag j \<longleftrightarrow> 1 \<le> j \<and> j \<le> 10 \<and> flag j" for j
    by (auto simp: OOM_RECHECKS_def)
  then have "oom_recheck (\<lambda>k. Inr (flag k)) 1 OOM_RECHECKS = Inr (\<exists>j. 1 \<le> j \<and> j \<le> 10 \<and> flag j)"
    by (simp only: oom_recheck_iff)
  then show ?thesis by (auto simp: oom_killed_def)
qed

lemma container_of_fields [simp]:
  "cc_name (container_of policy workspace cmd hex) = ''phoenix-sbx-'' @ take 12 hex"
  "cc_label (container_of policy workspace cmd hex) = LABEL"
  by (simp_all only: container_of_def container_config.simps)

lemma run_started_bounded:
  assumes "run_started decode dk policy = Inr res"
  shows "\<exists>out err. sr_stdout res = decode out \<and> sr_stderr res = decode err
    \<and> length out \<le> sp_max_output_bytes policy \<and> length err \<le> sp_max_output_bytes policy"
proof -
  from assms obtain out err where "sr_stdout res = decode (take (sp_max_output_bytes policy) (concat out))"
    "sr_stderr res = decode (take (sp_max_output_bytes policy) (concat err))"
    by (auto simp: run_started_def capture_eq bind_result_Inr_iff)
  then show ?thesis by (metis length_take min.cobounded2)
qed

text \<open>
  C36. No container outlives its run: whatever the daemon does (failing to create or start, timing
  out, raising while waiting, killing, reading the logs or the OOM flag), if the removal succeeds and
  the container's name is fresh, the run leaves the daemon's containers as they were, so none of the
  runner's label is left over; and a result, when there is one, keeps at most
  \<open>max_output_bytes\<close> bytes per stream.
\<close>

theorem run_container_leaves_nothing:
  assumes "''phoenix-sbx-'' @ take 12 hex \<notin> cc_name ` set containers" and "remove_container (dk_remove dk) = Inr ()"
  shows "snd (run_container decode dk policy workspace cmd hex containers) = containers
    \<and> leftover_containers (snd (run_container decode dk policy workspace cmd hex containers))
        = leftover_containers containers
    \<and> (\<forall>res. fst (run_container decode dk policy workspace cmd hex containers) = Inr res \<longrightarrow>
         (\<exists>out err. sr_stdout res = decode out \<and> sr_stderr res = decode err
            \<and> length out \<le> sp_max_output_bytes policy \<and> length err \<le> sp_max_output_bytes policy))"
proof -
  have "cc_name (container_of policy workspace cmd hex) \<notin> cc_name ` set containers"
    unfolding container_of_fields by (rule assms(1))
  then have "filter (\<lambda>k. cc_name k \<noteq> cc_name (container_of policy workspace cmd hex)) containers = containers"
    unfolding filter_id_conv by (metis imageI)
  then have "snd (run_container decode dk policy workspace cmd hex containers) = containers"
    using assms(2) by (cases "dk_create dk") (simp_all add: run_container_def Let_def del: container_of_fields)
  moreover have "\<forall>res. fst (run_container decode dk policy workspace cmd hex containers) = Inr res \<longrightarrow>
      (\<exists>out err. sr_stdout res = decode out \<and> sr_stderr res = decode err
        \<and> length out \<le> sp_max_output_bytes policy \<and> length err \<le> sp_max_output_bytes policy)"
    using assms(2) run_started_bounded
    by (cases "dk_create dk") (simp_all add: run_container_def Let_def del: container_of_fields)
  ultimately show ?thesis by simp
qed

theorem run_container_leaves_nothing_witness:
  "snd (run_container id \<lparr>dk_create = Inr (), dk_start = Inr (), dk_wait = WaitTimeout, dk_kill = NotFound,
       dk_wait_after_kill = Inl OSError, dk_stdout = Inr [], dk_stderr = Inr [],
       dk_oom_flag = \<lambda>_. Inr False, dk_elapsed_ms = 0, dk_remove = NotFound\<rparr> default_policy ''/ws''
       [''python'', ''main.py''] ''0123456789abcdef'' []) = []"
  using run_container_leaves_nothing [of "''0123456789abcdef''" "[]"] by (simp add: remove_container_def)

end
