(* ===== verification/Agent.thy ===== *)
theory Agent
  imports Engine Budget LLM Sandbox "HOL-Library.Sublist"
begin

text \<open>
  \<open>src/phoenix/agent.py\<close>: the agent's paths, its workspace rebuilt from events, the messages built
  from the log, the tools, and one step of the agent workflow. The file system is a map from
  absolute paths (lists of components) to nodes; what is outside the repository is a parameter
  collected in \<open>agent_env\<close>: the operating system's symlink resolution, the sandbox, the hash, and
  the text Python gives to non-string values and exceptions.
\<close>

type_synonym path = "string list"

datatype node = Dir | File string

type_synonym fs = "path \<Rightarrow> node option"

record agent_env =
  ae_resolve :: "fs \<Rightarrow> path \<Rightarrow> path"
  ae_sandbox :: "path \<Rightarrow> string list \<Rightarrow> fs \<Rightarrow> SandboxResult result \<times> fs"
  ae_sha :: "json \<Rightarrow> string"
  ae_str :: "json \<Rightarrow> string"
  ae_repr :: "json \<Rightarrow> string"
  ae_exc_str :: "error \<Rightarrow> string"
  ae_now :: time

definition OBSERVATION_CHARS :: nat where "OBSERVATION_CHARS = 2000"

section \<open>Paths\<close>

definition path_start_char :: "char \<Rightarrow> bool" where
  "path_start_char c \<longleftrightarrow> (CHR ''A'' \<le> c \<and> c \<le> CHR ''Z'') \<or> (CHR ''a'' \<le> c \<and> c \<le> CHR ''z'')
     \<or> (CHR ''0'' \<le> c \<and> c \<le> CHR ''9'') \<or> c = CHR ''_''"

definition path_char :: "char \<Rightarrow> bool" where
  "path_char c \<longleftrightarrow> path_start_char c \<or> c = CHR ''.'' \<or> c = CHR ''/'' \<or> c = CHR ''-''"

definition path_body :: "string \<Rightarrow> bool" where
  "path_body s = (case s of [] \<Rightarrow> False | c # cs \<Rightarrow> path_start_char c \<and> list_all path_char cs)"

text \<open>
  \<open>_PATH_RE.match(s)\<close> for \<open>^[A-Za-z0-9_][A-Za-z0-9_./-]*$\<close>. Python's \<open>$\<close> matches at the end and also
  just before a newline that ends the text.
\<close>

definition path_re_match :: "string \<Rightarrow> bool" where
  "path_re_match s \<longleftrightarrow> path_body s \<or> (s \<noteq> [] \<and> last s = CHR 0x0A \<and> path_body (butlast s))"

text \<open>\<open>Path(rel).parts\<close> of a relative path: empty and \<open>.\<close> components are dropped, \<open>..\<close> stays.\<close>

definition path_parts :: "string \<Rightarrow> path" where
  "path_parts s = filter (\<lambda>p. p \<noteq> [] \<and> p \<noteq> ''.'') (split_char (CHR ''/'') s)"

definition is_relative_to :: "path \<Rightarrow> path \<Rightarrow> bool" where
  "is_relative_to p base \<longleftrightarrow> take (length base) p = base"

definition safe_join :: "agent_env \<Rightarrow> path \<Rightarrow> json \<Rightarrow> fs \<Rightarrow> path result" where
  "safe_join ae base rel fs =
     (case rel of
        JStr s \<Rightarrow>
          if \<not> path_re_match s \<or> ''..'' \<in> set (path_parts s) then Inl (UnsafePathError s)
          else (let target = ae_resolve ae fs (base @ path_parts s) in
                if \<not> is_relative_to target (ae_resolve ae fs base) then Inl (UnsafePathError s)
                else Inr target)
      | _ \<Rightarrow> Inl (UnsafePathError (ae_repr ae rel)))"

section \<open>Files\<close>

definition is_file :: "node option \<Rightarrow> bool" where
  "is_file n = (case n of Some (File _) \<Rightarrow> True | _ \<Rightarrow> False)"

definition ancestors :: "path \<Rightarrow> path list" where
  "ancestors p = map (\<lambda>k. take k p) [0..<Suc (length p)]"

text \<open>\<open>p.mkdir(parents=True, exist_ok=True)\<close>: a file in the way raises an \<open>OSError\<close>.\<close>

definition mkdir_p :: "path \<Rightarrow> fs \<Rightarrow> fs result" where
  "mkdir_p p fs =
     (if list_ex (\<lambda>q. is_file (fs q)) (ancestors p) then Inl OSError
      else Inr (\<lambda>q. if q \<in> set (ancestors p) \<and> fs q = None then Some Dir else fs q))"

definition write_text :: "path \<Rightarrow> string \<Rightarrow> fs \<Rightarrow> fs result" where
  "write_text p content fs =
     (if fs p = Some Dir \<or> fs (butlast p) \<noteq> Some Dir then Inl OSError else Inr (fs(p \<mapsto> File content)))"

definition rmtree :: "path \<Rightarrow> fs \<Rightarrow> fs" where
  "rmtree base fs = (\<lambda>q. if is_relative_to q base then None else fs q)"

text \<open>\<open>v[k]\<close> where \<open>v\<close> has to be a dict.\<close>

definition subscript :: "json \<Rightarrow> string \<Rightarrow> json result" where
  "subscript v k = (case v of JObj d \<Rightarrow> dict_item d k | _ \<Rightarrow> Inl TypeError)"

section \<open>Rebuilding the workspace\<close>

text \<open>\<open>"error" in v\<close>: a key of a dict, an element of a list, a part of a text.\<close>

definition contains_error :: "json \<Rightarrow> bool result" where
  "contains_error v = (case v of
       JObj d \<Rightarrow> Inr (has_key ''error'' d)
     | JList xs \<Rightarrow> Inr (JStr ''error'' \<in> set xs)
     | JStr s \<Rightarrow> Inr (sublist ''error'' s)
     | JDec _ \<Rightarrow> Inr False
     | _ \<Rightarrow> Inl TypeError)"

definition replay_event :: "agent_env \<Rightarrow> path \<Rightarrow> event \<Rightarrow> fs \<Rightarrow> fs result" where
  "replay_event ae base e fs =
     bind_result (as_dict (get_default (ev_payload e) ''action'' (JObj []))) (\<lambda>action.
       if map_of action ''tool'' = Some (JStr ''write_file'') then
         bind_result (contains_error (get_default (ev_payload e) ''observation'' (JObj []))) (\<lambda>failed.
           if failed then Inr fs
           else bind_result (dict_item action ''args'') (\<lambda>args.
                bind_result (subscript args ''path'') (\<lambda>rel.
                bind_result (safe_join ae base rel fs) (\<lambda>target.
                bind_result (mkdir_p (butlast target) fs) (\<lambda>fs1.
                bind_result (subscript args ''content'') (\<lambda>content.
                  case content of JStr s \<Rightarrow> write_text target s fs1 | _ \<Rightarrow> Inl TypeError))))))
       else Inr fs)"

fun replay_files :: "agent_env \<Rightarrow> path \<Rightarrow> event list \<Rightarrow> fs \<Rightarrow> unit result \<times> fs" where
  "replay_files ae base [] fs = (Inr (), fs)"
| "replay_files ae base (e # es) fs =
     (case replay_event ae base e fs of Inl x \<Rightarrow> (Inl x, fs) | Inr fs' \<Rightarrow> replay_files ae base es fs')"

definition materialize_workspace :: "agent_env \<Rightarrow> path \<Rightarrow> event list \<Rightarrow> fs \<Rightarrow> unit result \<times> fs" where
  "materialize_workspace ae base evs fs =
     (let fs1 = (if fs base \<noteq> None then rmtree base fs else fs) in
      case mkdir_p base fs1 of
        Inl x \<Rightarrow> (Inl x, fs1)
      | Inr fs2 \<Rightarrow> replay_files ae base evs fs2)"

section \<open>Messages\<close>

definition event_messages :: "event \<Rightarrow> message list" where
  "event_messages e = (case map_of (ev_payload e) ''action'' of
       None \<Rightarrow> []
     | Some action \<Rightarrow>
         [[(''role'', JStr ''assistant''), (''action'', action)],
          [(''role'', JStr ''user''),
           (''observation'', get_default (ev_payload e) ''observation'' (JObj []))]])"

definition build_messages :: "dict \<Rightarrow> event list \<Rightarrow> message list result" where
  "build_messages spec evs =
     bind_result (dict_item spec ''prompt'') (\<lambda>prompt.
       Inr ([(''role'', JStr ''user''), (''content'', prompt)] # concat (map event_messages evs)))"

definition clip :: "string \<Rightarrow> string" where
  "clip s = (if length s \<le> OBSERVATION_CHARS then s else take OBSERVATION_CHARS s @ ''...[truncated]'')"

section \<open>Tools\<close>

definition py_str :: "agent_env \<Rightarrow> json \<Rightarrow> string" where
  "py_str ae v = (case v of JStr s \<Rightarrow> s | _ \<Rightarrow> ae_str ae v)"

definition write_file_tool :: "agent_env \<Rightarrow> path \<Rightarrow> json \<Rightarrow> fs \<Rightarrow> dict result \<times> fs" where
  "write_file_tool ae base args fs =
     (case bind_result (subscript args ''path'') (\<lambda>rel. safe_join ae base rel fs) of
        Inl e \<Rightarrow> (Inl e, fs)
      | Inr target \<Rightarrow>
          (case mkdir_p (butlast target) fs of
             Inl e \<Rightarrow> (Inl e, fs)
           | Inr fs1 \<Rightarrow>
               (case subscript args ''content'' of
                  Inl e \<Rightarrow> (Inl e, fs1)
                | Inr content \<Rightarrow>
                    (case write_text target (py_str ae content) fs1 of
                       Inl e \<Rightarrow> (Inl e, fs1)
                     | Inr fs2 \<Rightarrow> (Inr [(''ok'', JBool True)], fs2)))))"

text \<open>\<open>str(path.relative_to(base))\<close>\<close>

definition relative_text :: "path \<Rightarrow> path \<Rightarrow> string" where
  "relative_text p base =
     (let rel = drop (length base) p in if rel = [] then ''.'' else join_str ''/'' rel)"

definition run_code_tool :: "agent_env \<Rightarrow> path \<Rightarrow> json \<Rightarrow> fs \<Rightarrow> dict result \<times> fs" where
  "run_code_tool ae base args fs =
     (case bind_result (subscript args ''path'') (\<lambda>rel. safe_join ae base rel fs) of
        Inl e \<Rightarrow> (Inl e, fs)
      | Inr target \<Rightarrow>
          (case ae_sandbox ae base [''python'', relative_text target (ae_resolve ae fs base)] fs of
             (Inl e, fs1) \<Rightarrow> (Inl e, fs1)
           | (Inr res, fs1) \<Rightarrow>
               (Inr [(''exit_code'', JInt (sr_exit_code res)), (''stdout'', JStr (clip (sr_stdout res))),
                     (''stderr'', JStr (clip (sr_stderr res))), (''timed_out'', JBool (sr_timed_out res)),
                     (''oom_killed'', JBool (sr_oom_killed res))], fs1)))"

definition finish_tool :: "agent_env \<Rightarrow> json \<Rightarrow> dict result" where
  "finish_tool ae args =
     bind_result (as_dict args) (\<lambda>d.
       Inr [(''summary'', JStr (py_str ae (get_default d ''summary'' (JStr ''''))))])"

definition no_tool_error :: string where
  "no_tool_error = ''no tool call. Call exactly one of: write_file, run_code, finish''"

definition run_tool :: "agent_env \<Rightarrow> path \<Rightarrow> dict \<Rightarrow> fs \<Rightarrow> dict result \<times> fs" where
  "run_tool ae base action fs =
     (let tool = get_default action ''tool'' JNull; args = get_default action ''args'' (JObj []) in
      if tool = JStr ''write_file'' then write_file_tool ae base args fs
      else if tool = JStr ''run_code'' then run_code_tool ae base args fs
      else if tool = JStr ''finish'' then (finish_tool ae args, fs)
      else if tool = JStr ''invalid'' then (Inr [(''error'', JStr no_tool_error)], fs)
      else (Inr [(''error'', JStr (''unknown tool '' @ ae_repr ae tool))], fs))"

definition caught :: "error \<Rightarrow> bool" where
  "caught e = (case e of UnsafePathError _ \<Rightarrow> True | KeyError _ \<Rightarrow> True | TypeError \<Rightarrow> True | _ \<Rightarrow> False)"

definition execute_action :: "agent_env \<Rightarrow> path \<Rightarrow> dict \<Rightarrow> fs \<Rightarrow> dict result \<times> fs" where
  "execute_action ae base action fs =
     (case run_tool ae base action fs of
        (Inr obs, fs1) \<Rightarrow> (Inr obs, fs1)
      | (Inl e, fs1) \<Rightarrow>
          if caught e then (Inr [(''error'', JStr (ae_exc_str ae e))], fs1) else (Inl e, fs1))"

section \<open>The workflow\<close>

record AgentWorkflow =
  aw_spec :: dict
  aw_provider :: provider
  aw_workspace_root :: path
  aw_max_steps :: int

record agent_state =
  ag_workspace :: "path option"
  ag_fs :: fs

definition agent_init :: "dict \<Rightarrow> provider \<Rightarrow> path \<Rightarrow> AgentWorkflow result" where
  "agent_init spec provider workspace_root =
     bind_result (py_int (get_default spec ''max_steps'' (JInt DEFAULT_MAX_STEPS))) (\<lambda>m.
       Inr \<lparr>aw_spec = spec, aw_provider = provider, aw_workspace_root = workspace_root,
            aw_max_steps = m\<rparr>)"

definition workspace :: "AgentWorkflow \<Rightarrow> claim \<Rightarrow> path" where
  "workspace aw c = aw_workspace_root aw @ [cl_run_id c, ''a'' @ str_nat (cl_attempt c)]"

definition stop_outcome :: "Termination \<Rightarrow> StepOutcome" where
  "stop_outcome stop =
     \<lparr>so_type = status_text (tm_status stop), so_payload = [(''reason'', JStr (tm_reason stop))],
      so_cost_usd = 0, so_final = True, so_final_status = tm_status stop\<rparr>"

definition agent_outcome :: "llm_response \<Rightarrow> dict \<Rightarrow> StepOutcome" where
  "agent_outcome resp observation =
     (let finished = (map_of (lr_action resp) ''tool'' = Some (JStr ''finish'')) in
      \<lparr>so_type = (if finished then ''finish'' else ''agent_step''),
       so_payload = [(''action'', JObj (lr_action resp)), (''observation'', JObj observation),
         (''input_tokens'', JInt (lr_input_tokens resp)), (''output_tokens'', JInt (lr_output_tokens resp)),
         (''cost_usd'', JDec (lr_cost_usd resp))],
       so_cost_usd = lr_cost_usd resp, so_final = finished, so_final_status = Succeeded\<rparr>)"

text \<open>\<open>Decimal(budget)\<close> of \<open>SELECT budget_usd FROM runs WHERE id=$1\<close>: \<open>Decimal(None)\<close> raises.\<close>

definition run_budget :: "uuid \<Rightarrow> db \<Rightarrow> money result" where
  "run_budget run_id d = (case find_run run_id d of None \<Rightarrow> Inl TypeError | Some r \<Rightarrow> Inr (r_budget_usd r))"

definition enter_workspace :: "agent_env \<Rightarrow> AgentWorkflow \<Rightarrow> claim \<Rightarrow> event list \<Rightarrow> agent_state \<Rightarrow>
    unit result \<times> agent_state" where
  "enter_workspace ae aw c evs st =
     (case ag_workspace st of
        Some _ \<Rightarrow> (Inr (), st)
      | None \<Rightarrow>
          (case materialize_workspace ae (workspace aw c) evs (ag_fs st) of
             (r, fs) \<Rightarrow> (r, \<lparr>ag_workspace = Some (workspace aw c), ag_fs = fs\<rparr>)))"

definition agent_step :: "agent_env \<Rightarrow> AgentWorkflow \<Rightarrow> agent_state workflow_step" where
  "agent_step ae aw c step_index evs w =
     (case enter_workspace ae aw c evs (w_state w) of
        (Inl e, st) \<Rightarrow> (Inl e, w\<lparr>w_state := st\<rparr>)
      | (Inr _, st) \<Rightarrow>
          (let w0 = w\<lparr>w_state := st\<rparr> in
           case bind_result (run_budget (cl_run_id c) (w_db w0))
                  (\<lambda>budget. check_limits evs budget (aw_max_steps aw)) of
             Inl e \<Rightarrow> (Inl e, w0)
           | Inr (Some stop) \<Rightarrow> (Inr (stop_outcome stop), w0)
           | Inr None \<Rightarrow>
               (case build_messages (aw_spec aw) evs of
                  Inl e \<Rightarrow> (Inl e, w0)
                | Inr messages \<Rightarrow>
                    (case complete_cached (ae_sha ae) (aw_provider aw) (ae_now ae) (cl_run_id c)
                            step_index messages (cl_attempt c) (Some (cl_worker_id c)) (w_db w0) of
                       (Inl e, d) \<Rightarrow> (Inl e, w0\<lparr>w_db := d\<rparr>)
                     | (Inr resp, d) \<Rightarrow>
                         (case execute_action ae (the (ag_workspace st)) (lr_action resp) (ag_fs st) of
                            (Inl e, fs) \<Rightarrow> (Inl e, w0\<lparr>w_db := d, w_state := st\<lparr>ag_fs := fs\<rparr>\<rparr>)
                          | (Inr obs, fs) \<Rightarrow>
                              (Inr (agent_outcome resp obs),
                               w0\<lparr>w_db := d, w_state := st\<lparr>ag_fs := fs\<rparr>\<rparr>))))))"


section \<open>The loop returns\<close>

lemma complete_cached_events:
  "complete_cached sha pv now r i msgs a wk d = (res, d') \<Longrightarrow> events d' = events d"
  by (auto simp: complete_cached_def Let_def dest: store_response_frame split: option.splits sum.splits)

lemma agent_step_events:
  assumes "agent_step ae aw c n evs w = (res, w')"
  shows "run_events (w_db w') r = run_events (w_db w) r"
proof -
  have "events (w_db w') = events (w_db w)"
    using assms complete_cached_events
    by (fastforce simp: agent_step_def Let_def split: prod.splits sum.splits option.splits)
  then show ?thesis by (simp add: run_events_def)
qed

lemma agent_step_stops:
  assumes "aw_max_steps aw \<le> int (length evs)" and "agent_step ae aw c n evs w = (Inr out, w')"
  shows "so_final out"
proof -
  have "bind_result (run_budget r d) (\<lambda>b. check_limits evs b (aw_max_steps aw)) \<noteq> Inr None" for r d
    using check_limits_at_max_steps [OF assms(1)] by (auto simp: bind_result_Inr_iff)
  with assms(2) show ?thesis
    by (auto simp: agent_step_def Let_def stop_outcome_def split: prod.splits sum.splits option.splits)
qed

interpretation agent_loop: bounded_workflow "agent_step ae aw" "nat (aw_max_steps aw) + extra" for ae aw extra
  by unfold_locales (erule agent_step_events, rule agent_step_stops [rotated], assumption, linarith)

text \<open>
  C15. Every execution of an agent run returns, whatever the model answers, the tools do and the clocks
  say: on a contiguous log the loop ends after finitely many commits, and the log it leaves is contiguous
  and has at most one event more than the larger of the step limit and what was there.
\<close>

theorem agent_execution_returns:
  assumes "steps_contiguous (w_db w) (cl_run_id c)"
  shows "\<exists>res w'. execute_loop env clock (agent_step ae aw) c k w = Some (res, w')
    \<and> steps_contiguous (w_db w') (cl_run_id c)
    \<and> length (run_events (w_db w') (cl_run_id c))
        \<le> Suc (max (nat (aw_max_steps aw)) (length (run_events (w_db w) (cl_run_id c))))"
proof -
  let ?n = "length (run_events (w_db w) (cl_run_id c))"
  have m: "nat (aw_max_steps aw) + (?n - nat (aw_max_steps aw)) = max (nat (aw_max_steps aw)) ?n" by simp
  from agent_loop.loop_returns [OF assms, of aw "?n - nat (aw_max_steps aw)" env clock ae k]
  show ?thesis unfolding m by auto
qed

definition plain_env :: agent_env where
  "plain_env = \<lparr>ae_resolve = \<lambda>fs p. p, ae_sandbox = \<lambda>base cmd fs. (Inl OSError, fs), ae_sha = \<lambda>_. ''k'',
     ae_str = \<lambda>_. ''text'', ae_repr = \<lambda>_. ''repr'', ae_exc_str = \<lambda>_. ''unsafe'', ae_now = 0\<rparr>"

theorem agent_execution_returns_witness:
  "\<exists>res w'. execute_loop (\<lambda>_. None) int (agent_step plain_env \<lparr>aw_spec = [], aw_provider = MockProvider [],
        aw_workspace_root = [''ws''], aw_max_steps = 3\<rparr>) stale_claim 0
      \<lparr>w_db = empty_db, w_state = \<lparr>ag_workspace = None, ag_fs = \<lambda>_. None\<rparr>\<rparr> = Some (res, w')
    \<and> length (run_events (w_db w') ''r'') \<le> 4"
proof -
  have e: "run_events empty_db ''r'' = []" by (simp add: run_events_def empty_db_def)
  then have "steps_contiguous empty_db ''r''" by (simp add: steps_contiguous_def gapless_def)
  with agent_execution_returns [of "\<lparr>w_db = empty_db, w_state = \<lparr>ag_workspace = None, ag_fs = \<lambda>_. None\<rparr>\<rparr>"
      stale_claim "\<lambda>_. None" int plain_env "\<lparr>aw_spec = [], aw_provider = MockProvider [],
        aw_workspace_root = [''ws''], aw_max_steps = 3\<rparr>" 0] e
  show ?thesis by (auto simp: stale_claim_def)
qed

section \<open>Well-formed actions\<close>

text \<open>An action as the providers return them: a tool and a dict of arguments.\<close>

definition valid_action :: "dict \<Rightarrow> bool" where
  "valid_action a \<longleftrightarrow> (\<exists>name args. map_of a ''tool'' = Some name \<and> map_of a ''args'' = Some (JObj args))"

definition valid_event :: "event \<Rightarrow> bool" where
  "valid_event e \<longleftrightarrow> (\<forall>v. map_of (ev_payload e) ''action'' = Some v \<longrightarrow> (\<exists>a. v = JObj a \<and> valid_action a))"

end
