(* ===== verification/Chaos.thy ===== *)
theory Chaos
  imports Engine Budget "HOL-Library.Product_Lexorder"
begin

text \<open>
  \<open>src/phoenix/chaos/invariants.py\<close>: the four checks that run on the database after a chaos
  scenario, with their messages, and \<open>zombie_replay\<close> of \<open>scenarios.py\<close>. The theory proves what the
  log check accepts; that the checks pass in every state the system can reach is in \<open>System\<close>.
  \<open>dec_text\<close> is Python's text of a \<open>Decimal\<close>.
\<close>

record InvariantResult =
  ir_name :: string
  ir_passed :: bool
  ir_summary :: string
  ir_violations :: "string list"
  ir_retries :: "string list"

definition TERMINAL :: "run_status list" where
  "TERMINAL = [Succeeded, Failed, Budget_exceeded]"

definition MAX_LISTED :: nat where "MAX_LISTED = 5"

definition cap_items :: "string list \<Rightarrow> string list" where
  "cap_items items = (let extra = int (length items) - int MAX_LISTED in
     take MAX_LISTED items @ (if extra > 0 then [''... and '' @ str_int extra @ '' more''] else []))"

section \<open>Termination\<close>

definition termination_check :: "db \<Rightarrow> uuid list \<Rightarrow> InvariantResult" where
  "termination_check d run_ids =
     (let rows = filter (\<lambda>r. r_id r \<in> set run_ids) (runs d);
          bad = map (\<lambda>r. ''run '' @ r_id r @ '' stuck in '' @ [CHR 0x27] @ status_text (r_status r) @ [CHR 0x27])
                  (filter (\<lambda>r. r_status r \<notin> set TERMINAL) rows);
          finished = length rows - length bad
      in \<lparr>ir_name = ''termination'', ir_passed = (bad = [] \<and> length rows = length run_ids),
          ir_summary = str_nat finished @ ''/'' @ str_nat (length run_ids) @ '' terminal'',
          ir_violations = cap_items bad, ir_retries = []\<rparr>)"

section \<open>Log integrity\<close>

text \<open>The \<open>meta\<close> entry of a payload; \<open>commit_step\<close> always writes a dict with these keys.\<close>

definition meta_of :: "dict \<Rightarrow> dict" where
  "meta_of p = (case get_default p ''meta'' (JObj []) of JObj m \<Rightarrow> m | _ \<Rightarrow> [])"

definition meta_attempt :: "dict \<Rightarrow> int" where
  "meta_attempt p = (case get_default (meta_of p) ''attempt'' (JInt 0) of JInt a \<Rightarrow> a | _ \<Rightarrow> 0)"

definition meta_final :: "dict \<Rightarrow> bool" where
  "meta_final p = truthy (get_default (meta_of p) ''final'' JNull)"

definition meta_worker :: "dict \<Rightarrow> string" where
  "meta_worker p = (case get_default (meta_of p) ''worker'' JNull of JStr s \<Rightarrow> s | _ \<Rightarrow> ''None'')"

definition list_text :: "string list \<Rightarrow> string" where
  "list_text items = ''['' @ join_str '', '' items @ '']''"

text \<open>The loop over a run's events; each \<open>break\<close> ends the recursion.\<close>

fun check_writers :: "uuid \<Rightarrow> int \<Rightarrow> nat \<Rightarrow> event list \<Rightarrow> string list" where
  "check_writers run_id last_attempt finals [] = []"
| "check_writers run_id last_attempt finals (e # es) =
     (if finals \<noteq> 0 then
        [''run '' @ run_id @ '': event seq='' @ str_nat (ev_seq e) @ '' written after the final event'']
      else
        let attempt = meta_attempt (ev_payload e) in
        if attempt < last_attempt then
          [''run '' @ run_id @ '': seq='' @ str_nat (ev_seq e) @ '' written by stale attempt '' @ str_int attempt
           @ '' ('' @ meta_worker (ev_payload e) @ '') after attempt '' @ str_int last_attempt]
        else check_writers run_id (max last_attempt attempt)
               (finals + (if meta_final (ev_payload e) then 1 else 0)) es)"

definition run_violations :: "uuid \<Rightarrow> event list \<Rightarrow> string list" where
  "run_violations run_id evs =
     (let seqs = map ev_seq evs; keys = map ev_idem_key evs in
      (if seqs \<noteq> [1..<length evs + 1]
       then [''run '' @ run_id @ '': seq gaps/dups '' @ list_text (map str_nat (take 12 seqs))] else [])
      @ (if card (set keys) \<noteq> length keys \<or> keys \<noteq> map (step_key run_id) [0..<length evs]
         then [''run '' @ run_id @ '': idem_key duplicates or gaps''] else [])
      @ check_writers run_id 0 0 evs)"

text \<open>The runs that have events, in the order of the query's \<open>ORDER BY run_id\<close>.\<close>

definition logged_runs :: "db \<Rightarrow> uuid list \<Rightarrow> uuid list" where
  "logged_runs d run_ids =
     sort (remdups (filter (\<lambda>r. r \<in> set run_ids) (map (ev_run_id \<circ> er_event) (events d))))"

definition log_integrity :: "db \<Rightarrow> uuid list \<Rightarrow> InvariantResult" where
  "log_integrity d run_ids =
     (let by_run = logged_runs d run_ids;
          bad = concat (map (\<lambda>r. run_violations r (read_events d r)) by_run)
      in \<lparr>ir_name = ''log integrity'', ir_passed = (bad = []),
          ir_summary = str_nat (length by_run) @ '' logs checked, '' @ str_nat (length bad) @ '' violation(s)'',
          ir_violations = cap_items bad, ir_retries = []\<rparr>)"

section \<open>No double billing\<close>

definition calls_of :: "db \<Rightarrow> uuid list \<Rightarrow> call_row list" where
  "calls_of d run_ids = filter (\<lambda>c. pc_run_id c \<in> set run_ids) (provider_calls d)"

definition billing_groups :: "db \<Rightarrow> uuid list \<Rightarrow> ((uuid \<times> nat) \<times> nat list) list" where
  "billing_groups d run_ids =
     map (\<lambda>(r, i). ((r, i), map pc_attempt (sort_key pc_id
            (filter (\<lambda>c. pc_run_id c = r \<and> pc_step_index c = i) (calls_of d run_ids)))))
       (sort (remdups (map (\<lambda>c. (pc_run_id c, pc_step_index c)) (calls_of d run_ids))))"

definition group_text :: "string \<Rightarrow> (uuid \<times> nat) \<times> nat list \<Rightarrow> string" where
  "group_text label g = (case g of ((r, i), attempts) \<Rightarrow>
     ''run '' @ r @ '' step '' @ str_nat i @ label @ list_text (map str_nat attempts))"

definition no_double_billing :: "db \<Rightarrow> uuid list \<Rightarrow> InvariantResult" where
  "no_double_billing d run_ids =
     (let repeated = filter (\<lambda>(_, attempts). length attempts \<noteq> 1) (billing_groups d run_ids);
          retries = map (group_text '': attempts '')
            (filter (\<lambda>(_, attempts). card (set attempts) = length attempts) repeated);
          bad = map (group_text '': repeated call within attempts '')
            (filter (\<lambda>(_, attempts). card (set attempts) \<noteq> length attempts) repeated)
      in \<lparr>ir_name = ''no double billing'', ir_passed = (bad = []),
          ir_summary = str_nat (length (calls_of d run_ids)) @ '' provider calls, ''
            @ str_nat (length retries) @ '' crash-window retries'',
          ir_violations = cap_items bad, ir_retries = retries\<rparr>)"

section \<open>Spend consistency\<close>

definition spend_total :: "db \<Rightarrow> uuid \<Rightarrow> money result" where
  "spend_total d run_id = sum_costs 0 (run_events d run_id)"

definition spend_consistency :: "(money \<Rightarrow> string) \<Rightarrow> db \<Rightarrow> uuid list \<Rightarrow> InvariantResult result" where
  "spend_consistency dec_text d run_ids =
     (let rows = filter (\<lambda>r. r_id r \<in> set run_ids) (runs d) in
      bind_result (map_result (\<lambda>r. bind_result (spend_total d r) (\<lambda>t. Inr (r, t))) run_ids) (\<lambda>totals.
        let spend = (\<lambda>r. case map_of totals (r_id r) of None \<Rightarrow> 0 | Some t \<Rightarrow> t);
            bad = map (\<lambda>r. ''run '' @ r_id r @ '': spent_usd='' @ dec_text (r_spent_usd r)
                        @ '' but events sum to '' @ dec_text (spend r))
                    (filter (\<lambda>r. r_spent_usd r \<noteq> spend r) rows)
        in Inr \<lparr>ir_name = ''spend consistency'', ir_passed = (bad = []),
               ir_summary = str_nat (length rows) @ '' runs checked, '' @ str_nat (length bad) @ '' mismatch(es)'',
               ir_violations = cap_items bad, ir_retries = []\<rparr>))"

definition check_all :: "(money \<Rightarrow> string) \<Rightarrow> db \<Rightarrow> uuid list \<Rightarrow> InvariantResult list result" where
  "check_all dec_text d run_ids =
     bind_result (spend_consistency dec_text d run_ids) (\<lambda>spend.
       Inr [termination_check d run_ids, log_integrity d run_ids, no_double_billing d run_ids, spend])"

section \<open>The zombie scenario\<close>

text \<open>
  \<open>zombie_replay\<close>: \<open>A\<close> works, loses its lease, \<open>B\<close> takes over and works, \<open>A\<close> wakes up and tries
  to commit, \<open>B\<close> finishes. \<open>n_a\<close>, \<open>n_b\<close> and \<open>n_zombie\<close> are the three random numbers of steps, \<open>clock k\<close>
  the time of the \<open>k\<close>-th transaction.
\<close>

definition zombie_outcome :: "nat \<Rightarrow> nat \<Rightarrow> StepOutcome" where
  "zombie_outcome steps i = \<lparr>so_type = ''toy_step'',
     so_payload = [(''i'', JInt (int i)), (''cost_usd'', JDec (1 / 10000))], so_cost_usd = 1 / 10000,
     so_final = (int i = int steps - 1), so_final_status = Succeeded\<rparr>"

record zombie_state =
  zs_db :: db
  zs_idx :: nat
  zs_rejected :: nat
  zs_accepted :: nat

text \<open>\<open>n\<close> commits in a row by one claim; any exception ends the scenario.\<close>

fun work_steps :: "environ \<Rightarrow> (nat \<Rightarrow> time) \<Rightarrow> nat \<Rightarrow> claim \<Rightarrow> nat \<Rightarrow> nat \<Rightarrow> zombie_state \<Rightarrow> zombie_state result" where
  "work_steps env clock k c steps 0 z = Inr z"
| "work_steps env clock k c steps (Suc n) z =
     (case commit_step env (clock k) c (zs_idx z) (zombie_outcome steps (zs_idx z)) (zs_db z) of
        Inl e \<Rightarrow> Inl e
      | Inr (d, _) \<Rightarrow> work_steps env clock (Suc k) c steps n (z\<lparr>zs_db := d, zs_idx := zs_idx z + 1\<rparr>))"

text \<open>The zombie's commits: a lost lease is counted, not raised.\<close>

fun zombie_steps :: "environ \<Rightarrow> (nat \<Rightarrow> time) \<Rightarrow> nat \<Rightarrow> claim \<Rightarrow> nat \<Rightarrow> nat \<Rightarrow> zombie_state \<Rightarrow> zombie_state result" where
  "zombie_steps env clock k c steps 0 z = Inr z"
| "zombie_steps env clock k c steps (Suc n) z =
     (case commit_step env (clock k) c (zs_idx z) (zombie_outcome steps (zs_idx z)) (zs_db z) of
        Inl (LeaseLostError t a w) \<Rightarrow> zombie_steps env clock (Suc k) c steps n (z\<lparr>zs_rejected := zs_rejected z + 1\<rparr>)
      | Inl e \<Rightarrow> Inl e
      | Inr (d, _) \<Rightarrow> zombie_steps env clock (Suc k) c steps n
          (z\<lparr>zs_db := d, zs_accepted := zs_accepted z + 1, zs_idx := zs_idx z + 1\<rparr>))"

definition claim_or_fail :: "time \<Rightarrow> string \<Rightarrow> db \<Rightarrow> (db \<times> claim) result" where
  "claim_or_fail now w d = (case claim_task [] now w 60000000 d of
     (d', Some c) \<Rightarrow> Inr (d', c) | (d', None) \<Rightarrow> Inl (RuntimeError ''AssertionError''))"

definition expire_all_leases :: "time \<Rightarrow> db \<Rightarrow> db" where
  "expire_all_leases now d =
     d\<lparr>tasks := sql_update (\<lambda>_. True) (\<lambda>t. t\<lparr>t_lease_expires_at := Some (now - 1000000)\<rparr>) (tasks d)\<rparr>"

definition zombie_replay :: "environ \<Rightarrow> (nat \<Rightarrow> time) \<Rightarrow> uuid \<Rightarrow> uuid \<Rightarrow> nat \<Rightarrow> nat \<Rightarrow> nat \<Rightarrow> nat \<Rightarrow> db \<Rightarrow>
    zombie_state result" where
  "zombie_replay env clock rid tid steps n_a n_b n_zombie d =
     bind_result (submit_run (clock 0) rid tid [(''kind'', JStr ''toy''), (''steps'', JInt (int steps))] 1 d) (\<lambda>(d1, _).
     bind_result (claim_or_fail (clock 1) ''A'' d1) (\<lambda>(d2, a).
     bind_result (work_steps env clock 2 a steps n_a \<lparr>zs_db = d2, zs_idx = 0, zs_rejected = 0, zs_accepted = 0\<rparr>) (\<lambda>z1.
     let d3 = fst (reap_expired [] (clock (3 + n_a)) (expire_all_leases (clock (2 + n_a)) (zs_db z1))) in
     bind_result (claim_or_fail (clock (4 + n_a)) ''B'' d3) (\<lambda>(d4, b).
     bind_result (work_steps env clock (5 + n_a) b steps n_b (z1\<lparr>zs_db := d4\<rparr>)) (\<lambda>z2.
     bind_result (zombie_steps env clock (5 + n_a + n_b) a steps n_zombie z2) (\<lambda>z3.
     work_steps env clock (5 + n_a + n_b + n_zombie) b steps (steps - zs_idx z3) z3))))))"

section \<open>What the log check accepts\<close>

definition writers_ok :: "event list \<Rightarrow> bool" where
  "writers_ok evs \<longleftrightarrow> sorted (0 # map (meta_attempt \<circ> ev_payload) evs)
     \<and> (\<forall>e \<in> set (butlast evs). \<not> meta_final (ev_payload e))"

definition contiguous :: "uuid \<Rightarrow> event list \<Rightarrow> bool" where
  "contiguous run_id evs \<longleftrightarrow> map ev_seq evs = [1..<Suc (length evs)]
     \<and> map ev_idem_key evs = map (step_key run_id) [0..<length evs]"

lemma check_writers_after_final: "check_writers r a (Suc n) evs = [] \<longleftrightarrow> evs = []"
  by (cases evs) auto

lemma check_writers_Nil_iff:
  "check_writers r a 0 evs = [] \<longleftrightarrow> sorted (a # map (meta_attempt \<circ> ev_payload) evs)
     \<and> (\<forall>e \<in> set (butlast evs). \<not> meta_final (ev_payload e))"
proof (induction evs arbitrary: a)
  case (Cons e es)
  let ?t = "meta_attempt (ev_payload e)"
  show ?case
  proof (cases "a \<le> ?t \<and> \<not> meta_final (ev_payload e)")
    case True
    then have "max a ?t = ?t" by simp
    with True Cons.IH [of ?t] show ?thesis by (auto simp: Let_def intro: order_trans)
  next
    case False
    then show ?thesis
      by (cases es) (auto simp: Let_def check_writers_after_final not_le)
  qed
qed simp

lemma step_keys_distinct: "distinct (map (step_key r) xs) \<longleftrightarrow> distinct xs"
  by (simp add: distinct_map inj_on_def)

lemma singleton_if_Nil: "(if P then [x] else []) = [] \<longleftrightarrow> \<not> P"
  by simp

lemma run_violations_Nil_iff: "run_violations r evs = [] \<longleftrightarrow> contiguous r evs \<and> writers_ok evs"
proof -
  have "map ev_idem_key evs = map (step_key r) [0..<length evs] \<Longrightarrow>
      card (set (map ev_idem_key evs)) = length (map ev_idem_key evs)"
    by (metis distinct_card distinct_upt step_keys_distinct)
  then show ?thesis
    unfolding run_violations_def Let_def contiguous_def writers_ok_def check_writers_Nil_iff
      append_is_Nil_conv singleton_if_Nil Suc_eq_plus1
    by argo
qed

lemma set_logged_runs: "set (logged_runs d run_ids) = {r \<in> set run_ids. run_events d r \<noteq> []}"
  by (auto simp: logged_runs_def run_events_def filter_empty_conv)

lemma log_integrity_passes_iff:
  "ir_passed (log_integrity d run_ids) \<longleftrightarrow>
     (\<forall>r \<in> set run_ids. contiguous r (read_events d r) \<and> writers_ok (read_events d r))"
proof -
  have empty: "contiguous r (read_events d r) \<and> writers_ok (read_events d r)" if "run_events d r = []" for r
    using that by (simp add: read_events_def contiguous_def writers_ok_def)
  have "ir_passed (log_integrity d run_ids) \<longleftrightarrow>
      (\<forall>r \<in> set (logged_runs d run_ids). run_violations r (read_events d r) = [])"
    by (simp add: log_integrity_def Let_def)
  also have "\<dots> \<longleftrightarrow> (\<forall>r \<in> set run_ids. contiguous r (read_events d r) \<and> writers_ok (read_events d r))"
    using empty by (auto simp: set_logged_runs run_violations_Nil_iff)
  finally show ?thesis .
qed

text \<open>
  C35. The log check is sound and complete for its specification: it passes iff, for every listed
  run, the sequence numbers are 1..n, the keys are exactly \<open>run:0 .. run:n-1\<close>, the writers' attempts
  never go backwards and no event follows a final one.
\<close>

theorem log_integrity_iff:
  "ir_passed (log_integrity d run_ids) \<longleftrightarrow>
     (\<forall>r \<in> set run_ids. contiguous r (read_events d r) \<and> writers_ok (read_events d r))"
  by (rule log_integrity_passes_iff)

theorem log_integrity_iff_witness:
  "ir_passed (log_integrity empty_db [''r'']) \<and> contiguous ''r'' (read_events empty_db ''r'')"
proof -
  have e: "read_events empty_db ''r'' = []" by (simp add: read_events_def run_events_def empty_db_def)
  have "contiguous ''r'' [] \<and> writers_ok []" by (simp add: contiguous_def writers_ok_def)
  then show ?thesis using log_integrity_iff [of empty_db "[''r'']"] e by simp
qed


section \<open>What the zombie scenario shows\<close>

definition rejected_claim :: "claim \<Rightarrow> db \<Rightarrow> bool" where
  "rejected_claim a d \<longleftrightarrow> (\<forall>t \<in> set (tasks d). \<not> held_by a t)"

lemma rejected_commit:
  assumes "rejected_claim a d" and "fencing_enabled env"
  shows "commit_step env now a n out d = Inl (LeaseLostError (cl_task_id a) (cl_attempt a) (cl_worker_id a))"
  using assms by (auto simp: commit_step_def assert_lease_def rejected_claim_def list_ex_iff)

lemma rejected_after_commit:
  assumes "rejected_claim a d" and "commit_step env now b n out d = Inr (d', w)"
  shows "rejected_claim a d'"
proof -
  from assms(2) obtain d1 res where d1: "append_event now (cl_run_id b) (step_key (cl_run_id b) n) (so_type out)
      (commit_payload b out) d = Inr (d1, res)" "\<not> w \<Longrightarrow> d' = d1"
    "w \<Longrightarrow> \<exists>d2. add_spend (cl_run_id b) (so_cost_usd out) d1 = Inr d2
       \<and> d' = (if so_final out then finish_run now b (so_final_status out) d2 else d2)"
    by (rule commit_step_InrE) (rule that; blast)
  have "tasks d1 = tasks d" by (rule append_event_frame(3) [OF d1(1)])
  then have "tasks d' = tasks d \<or> tasks d' = sql_update (\<lambda>t. t_id t = cl_task_id b) (\<lambda>t. t\<lparr>t_status := Done\<rparr>) (tasks d)"
  proof (cases w)
    case True
    then obtain d2 where d2: "add_spend (cl_run_id b) (so_cost_usd out) d1 = Inr d2"
      "d' = (if so_final out then finish_run now b (so_final_status out) d2 else d2)"
      using d1(3) by blast
    have "tasks d2 = tasks d1" by (subst add_spend_InrD [OF d2(1)]) simp
    with d2(2) \<open>tasks d1 = tasks d\<close> show ?thesis by (simp add: finish_run_def)
  qed (use d1(2) \<open>tasks d1 = tasks d\<close> in simp)
  with assms(1) show ?thesis by (auto simp: rejected_claim_def set_sql_update held_by_def split: if_splits)
qed

lemma work_steps_rejected:
  "work_steps env clock k b steps n z = Inr z' \<Longrightarrow> rejected_claim a (zs_db z) \<Longrightarrow>
     rejected_claim a (zs_db z') \<and> zs_rejected z' = zs_rejected z \<and> zs_accepted z' = zs_accepted z"
  by (induction n arbitrary: k z) (fastforce split: sum.splits dest: rejected_after_commit)+

lemma work_steps_counts:
  "work_steps env clock k b steps n z = Inr z' \<Longrightarrow> zs_rejected z' = zs_rejected z \<and> zs_accepted z' = zs_accepted z"
  by (induction n arbitrary: k z) (fastforce split: sum.splits)+

lemma zombie_steps_rejected:
  "fencing_enabled env \<Longrightarrow> rejected_claim a (zs_db z) \<Longrightarrow> zombie_steps env clock k a steps n z = Inr z' \<Longrightarrow>
     zs_db z' = zs_db z \<and> zs_rejected z' = zs_rejected z + n \<and> zs_accepted z' = zs_accepted z"
proof (induction n arbitrary: k z)
  case (Suc n)
  let ?z = "z\<lparr>zs_rejected := zs_rejected z + 1\<rparr>"
  have "zombie_steps env clock (Suc k) a steps n ?z = Inr z'"
    using Suc.prems(3) rejected_commit [OF Suc.prems(2,1)] by simp
  with Suc.IH [OF Suc.prems(1), of ?z "Suc k"] Suc.prems(2) show ?case by simp
qed simp

text \<open>Expiring every lease and reaping leaves no task leased.\<close>

lemma expire_and_reap:
  assumes "now \<le> now'"
  shows "\<forall>t \<in> set (tasks (fst (reap_expired [] now' (expire_all_leases now d)))). t_status t \<noteq> Leased"
  using assms by (auto simp: reap_expired_def expire_all_leases_def Let_def set_sql_update expired_before_def)

lemma claim_after_reap:
  assumes "claim_or_fail now w d = Inr (d', b)" and "\<forall>t \<in> set (tasks d). t_status t \<noteq> Leased"
    and "w \<noteq> cl_worker_id a"
  shows "rejected_claim a d'"
proof -
  from assms(1) have "claim_task [] now w 60000000 d = (d', Some b)"
    by (auto simp: claim_or_fail_def split: prod.splits option.splits)
  then obtain row where "d' = claimed_db row w (now + 60000000) d" by (rule claim_task_SomeE)
  with assms(2,3) show ?thesis
    by (auto simp: rejected_claim_def claimed_db_def set_sql_update held_by_def split: if_splits)
qed

text \<open>
  With fencing on, whatever numbers of steps the scenario draws and whatever the database and the
  clock (as long as the reaper does not run before the leases are expired), every commit of the woken
  zombie is rejected and none is accepted.
\<close>

theorem zombie_replay_rejects_all:
  assumes "fencing_enabled env" and "clock (2 + n_a) \<le> clock (3 + n_a)"
    and "zombie_replay env clock rid tid steps n_a n_b n_zombie d = Inr z"
  shows "zs_rejected z = n_zombie \<and> zs_accepted z = 0"
proof -
  from assms(3) obtain d1 x d2 a z1 d4 b z2 z3 where
    a: "claim_or_fail (clock 1) ''A'' d1 = Inr (d2, a)" and
    z1: "work_steps env clock 2 a steps n_a \<lparr>zs_db = d2, zs_idx = 0, zs_rejected = 0, zs_accepted = 0\<rparr> = Inr z1" and
    b: "claim_or_fail (clock (4 + n_a)) ''B''
        (fst (reap_expired [] (clock (3 + n_a)) (expire_all_leases (clock (2 + n_a)) (zs_db z1)))) = Inr (d4, b)" and
    z2: "work_steps env clock (5 + n_a) b steps n_b (z1\<lparr>zs_db := d4\<rparr>) = Inr z2" and
    z3: "zombie_steps env clock (5 + n_a + n_b) a steps n_zombie z2 = Inr z3" and
    z: "work_steps env clock (5 + n_a + n_b + n_zombie) b steps (steps - zs_idx z3) z3 = Inr z"
    by (auto simp: zombie_replay_def bind_result_Inr_iff Let_def)
  have "cl_worker_id a = ''A''"
    using a by (auto simp: claim_or_fail_def split: prod.splits option.splits elim!: claim_task_SomeE)
  then have "rejected_claim a d4" using claim_after_reap [OF b expire_and_reap [OF assms(2)]] by simp
  with work_steps_rejected [OF z2, of a]
  have z2a: "rejected_claim a (zs_db z2)" "zs_rejected z2 = zs_rejected z1" "zs_accepted z2 = zs_accepted z1"
    by simp_all
  from zombie_steps_rejected [OF assms(1) z2a(1) z3] work_steps_counts [OF z] work_steps_counts [OF z1] z2a
  show ?thesis by simp
qed

theorem zombie_replay_rejects_all_witness:
  "\<exists>z. zombie_replay (\<lambda>_. None) int ''r'' ''t'' 3 1 1 1 empty_db = Inr z \<and> zs_idx z = 3
     \<and> zs_rejected z = 1 \<and> zs_accepted z = 0"
proof -
  have "\<exists>z. zombie_replay (\<lambda>_. None) int ''r'' ''t'' 3 1 1 1 empty_db = Inr z \<and> zs_idx z = 3"
    by (simp add: zombie_replay_def submit_run_def insert_run_def enqueue_task_def empty_db_def no_nul_def
        numeric_cast_def numeric_round_fits fits_scale_def claim_or_fail_def claim_task_def claimable_def
        claimed_db_def sql_update_def commit_step_def assert_lease_def held_by_def expires_after_def
        append_event_def find_run_def run_events_def commit_payload_def zombie_outcome_def add_spend_def
        finish_run_def reap_expired_def expire_all_leases_def expired_before_def eval_nat_numeral)
  then obtain z where z: "zombie_replay (\<lambda>_. None) int ''r'' ''t'' 3 1 1 1 empty_db = Inr z" "zs_idx z = 3"
    by blast
  have "int (2 + 1) \<le> int (3 + 1)" by simp
  from zombie_replay_rejects_all [OF fencing_default this z(1)] z show ?thesis by blast
qed

text \<open>
  C33. The check catches what the fence prevents: take any log that holds an event of a newer attempt.
  A stale claim's new step is refused with fencing on; with fencing off it may be written, and then the
  chaos suite's log check fails on that run.
\<close>

theorem unfenced_zombie_detected:
  assumes "gapless d (cl_run_id c)" and "e \<in> set (run_events d (cl_run_id c))"
    and "int (cl_attempt c) < meta_attempt (ev_payload e)"
    and "commit_step env now c n out d = Inr (d', True)"
  shows "\<not> ir_passed (log_integrity d' [cl_run_id c])"
proof
  let ?evs = "run_events d (cl_run_id c)"
  note w = commit_step_written(1) [OF assms(4,1), of "cl_run_id c"]
  have "gapless d' (cl_run_id c)"
    using assms(1) by (simp add: gapless_def w committed_event_def)
  moreover assume "ir_passed (log_integrity d' [cl_run_id c])"
  ultimately have "writers_ok (run_events d' (cl_run_id c))"
    by (simp add: log_integrity_passes_iff read_events_gapless)
  then have "sorted (map (meta_attempt \<circ> ev_payload) ?evs @ [int (cl_attempt c)])"
    by (simp add: w writers_ok_def committed_event_def meta_attempt_def meta_of_def get_default_def)
  with assms(2,3) show False by (auto simp: sorted_append)
qed

definition zombie_db :: db where
  "zombie_db = empty_db\<lparr>runs := [sample_run], tasks := [sample_task],
     events := [\<lparr>er_event = \<lparr>ev_run_id = ''r'', ev_seq = 1, ev_type = ''toy_step'',
        ev_payload = [(''meta'', JObj [(''attempt'', JInt 2)])], ev_idem_key = step_key ''r'' 0\<rparr>,
        er_created_at = 0\<rparr>]\<rparr>"

theorem unfenced_zombie_detected_witness:
  "\<exists>d'. commit_step (\<lambda>_. Some ''1'') 9 stale_claim 1 (zombie_outcome 12 1) zombie_db = Inr (d', True)
     \<and> \<not> ir_passed (log_integrity d' [''r''])"
proof -
  have g: "gapless zombie_db ''r''" "int (cl_attempt stale_claim) < 2" "cl_run_id stale_claim = ''r''"
    by (simp_all add: gapless_def zombie_db_def run_events_def empty_db_def stale_claim_def)
  have e: "\<exists>e \<in> set (run_events zombie_db ''r''). meta_attempt (ev_payload e) = 2"
    by (simp add: zombie_db_def run_events_def empty_db_def meta_attempt_def meta_of_def get_default_def)
  have "\<exists>d'. commit_step (\<lambda>_. Some ''1'') 9 stale_claim 1 (zombie_outcome 12 1) zombie_db = Inr (d', True)"
    by (simp add: zombie_db_def sample_run_def sample_task_def stale_claim_def commit_step_def assert_lease_def
        fencing_enabled_def append_event_def find_run_def run_events_def commit_payload_def zombie_outcome_def
        add_spend_def no_nul_def numeric_cast_def numeric_round_fits fits_scale_def empty_db_def)
  then obtain d' where c: "commit_step (\<lambda>_. Some ''1'') 9 stale_claim 1 (zombie_outcome 12 1) zombie_db = Inr (d', True)"
    by blast
  from e obtain ev where "ev \<in> set (run_events zombie_db ''r'')" "meta_attempt (ev_payload ev) = 2" by blast
  with unfenced_zombie_detected [OF _ _ _ c, of ev] g c show ?thesis by auto
qed

end
