(* ===== verification/System.thy ===== *)
theory System
  imports Agent Chaos
begin

text \<open>
  The whole platform as a transition system: one database and any number of executions of
  \<open>execute_task\<close> (jobs) in flight, each by some worker under its claim. Every step is one
  transaction of the code, at any time and in any interleaving; a job may also vanish at any
  point, which is a \<open>kill -9\<close>, a cancellation or a suspended worker that never wakes up. A job whose
  lease was lost keeps running until its next commit: it is the zombie the fence is there for.
\<close>

section \<open>State\<close>

text \<open>
  Where a job is inside the loop of \<open>execute_task\<close>: at the loop head; after the replay of the
  events; after logging a provider call and before the answer; with a computed outcome about to be
  committed; after an exception; and about to commit the final \<open>failed\<close> event of \<open>_handle_error\<close>.
\<close>

datatype phase =
    Looping
  | Replayed "event list"
  | Asked "event list" string
  | Computed nat StepOutcome
  | Raised error
  | Failing nat StepOutcome

record job =
  jb_claim :: claim
  jb_spec :: dict
  jb_phase :: phase

record sys =
  sy_db :: db
  sy_jobs :: "job list"

text \<open>
  The parameters: the environment (is fencing on), the provider's name and the answers it may give,
  the specs that may be submitted, the hash, the retry limit, the text of exceptions.
\<close>

record config =
  cf_env :: environ
  cf_provider :: string
  cf_answer :: "llm_response \<Rightarrow> bool"
  cf_spec :: "dict \<Rightarrow> bool"
  cf_sha :: "json \<Rightarrow> string"
  cf_max_attempts :: nat
  cf_exc_str :: "error \<Rightarrow> string"
  cf_exc_repr :: "error \<Rightarrow> string"

definition init_sys :: sys where
  "init_sys = \<lparr>sy_db = empty_db, sy_jobs = []\<rparr>"

abbreviation job_run :: "job \<Rightarrow> uuid" where "job_run j \<equiv> cl_run_id (jb_claim j)"

definition is_kind :: "string \<Rightarrow> dict \<Rightarrow> bool" where
  "is_kind k spec \<longleftrightarrow> map_of spec ''kind'' = Some (JStr k)"

text \<open>The decision of \<open>AgentWorkflow.next_step\<close> before the model is asked.\<close>

definition agent_limits :: "dict \<Rightarrow> uuid \<Rightarrow> event list \<Rightarrow> db \<Rightarrow> Termination option result" where
  "agent_limits spec run_id evs d =
     bind_result (py_int (get_default spec ''max_steps'' (JInt DEFAULT_MAX_STEPS))) (\<lambda>m.
     bind_result (run_budget run_id d) (\<lambda>b. check_limits evs b m))"

definition ask_key :: "config \<Rightarrow> job \<Rightarrow> event list \<Rightarrow> string result" where
  "ask_key cf j evs = bind_result (build_messages (jb_spec j) evs) (\<lambda>msgs.
     Inr (cache_key (cf_sha cf) (cf_provider cf) (job_run j) (length evs) msgs))"

section \<open>Steps\<close>

inductive sys_step :: "config \<Rightarrow> sys \<Rightarrow> sys \<Rightarrow> bool" for cf :: config where
  submit: "submit_run now rid tid spec budget d = Inr (d', rid) \<Longrightarrow> cf_spec cf spec \<Longrightarrow>
    sys_step cf \<lparr>sy_db = d, sy_jobs = js\<rparr> \<lparr>sy_db = d', sy_jobs = js\<rparr>"
| claim: "claim_task locked now w l d = (d', Some c) \<Longrightarrow> find_run (cl_run_id c) d' = Some r \<Longrightarrow>
    sys_step cf \<lparr>sy_db = d, sy_jobs = js\<rparr>
      \<lparr>sy_db = d', sy_jobs = js @ [\<lparr>jb_claim = c, jb_spec = r_task_spec r, jb_phase = Looping\<rparr>]\<rparr>"
| beat: "heartbeat now l (jb_claim j) d = (d', b) \<Longrightarrow> j \<in> set js \<Longrightarrow>
    sys_step cf \<lparr>sy_db = d, sy_jobs = js\<rparr> \<lparr>sy_db = d', sy_jobs = js\<rparr>"
| reap: "reap_expired locked now d = (d', n) \<Longrightarrow>
    sys_step cf \<lparr>sy_db = d, sy_jobs = js\<rparr> \<lparr>sy_db = d', sy_jobs = js\<rparr>"
| crash: "sys_step cf \<lparr>sy_db = d, sy_jobs = js1 @ j # js2\<rparr> \<lparr>sy_db = d, sy_jobs = js1 @ js2\<rparr>"
| replay: "jb_phase j = Looping \<Longrightarrow>
    sys_step cf \<lparr>sy_db = d, sy_jobs = js1 @ j # js2\<rparr>
      \<lparr>sy_db = d, sy_jobs = js1 @ j\<lparr>jb_phase := Replayed (read_events d (job_run j))\<rparr> # js2\<rparr>"
| toy: "jb_phase j = Replayed evs \<Longrightarrow> is_kind ''toy'' (jb_spec j) \<Longrightarrow> toy_init (jb_spec j) = Inr tw \<Longrightarrow>
    sys_step cf \<lparr>sy_db = d, sy_jobs = js1 @ j # js2\<rparr>
      \<lparr>sy_db = d, sy_jobs = js1 @ j\<lparr>jb_phase := Computed (length evs)
          (toy_next_step tw (jb_claim j) (length evs))\<rparr> # js2\<rparr>"
| limit: "jb_phase j = Replayed evs \<Longrightarrow> is_kind ''agent'' (jb_spec j) \<Longrightarrow>
    agent_limits (jb_spec j) (job_run j) evs d = Inr (Some stop) \<Longrightarrow>
    sys_step cf \<lparr>sy_db = d, sy_jobs = js1 @ j # js2\<rparr>
      \<lparr>sy_db = d, sy_jobs = js1 @ j\<lparr>jb_phase := Computed (length evs) (stop_outcome stop)\<rparr> # js2\<rparr>"
| cached: "jb_phase j = Replayed evs \<Longrightarrow> is_kind ''agent'' (jb_spec j) \<Longrightarrow>
    agent_limits (jb_spec j) (job_run j) evs d = Inr None \<Longrightarrow> ask_key cf j evs = Inr key \<Longrightarrow>
    cache_lookup key d = Some resp \<Longrightarrow>
    sys_step cf \<lparr>sy_db = d, sy_jobs = js1 @ j # js2\<rparr>
      \<lparr>sy_db = d, sy_jobs = js1 @ j\<lparr>jb_phase := Computed (length evs) (agent_outcome resp obs)\<rparr> # js2\<rparr>"
| ask: "jb_phase j = Replayed evs \<Longrightarrow> is_kind ''agent'' (jb_spec j) \<Longrightarrow>
    agent_limits (jb_spec j) (job_run j) evs d = Inr None \<Longrightarrow> ask_key cf j evs = Inr key \<Longrightarrow>
    cache_lookup key d = None \<Longrightarrow>
    d' = log_call now (job_run j) (length evs) key (cl_attempt (jb_claim j)) (Some (cl_worker_id (jb_claim j))) d \<Longrightarrow>
    sys_step cf \<lparr>sy_db = d, sy_jobs = js1 @ j # js2\<rparr>
      \<lparr>sy_db = d', sy_jobs = js1 @ j\<lparr>jb_phase := Asked evs key\<rparr> # js2\<rparr>"
| answer: "jb_phase j = Asked evs key \<Longrightarrow> cf_answer cf resp \<Longrightarrow> store_response key resp d = Inr d' \<Longrightarrow>
    sys_step cf \<lparr>sy_db = d, sy_jobs = js1 @ j # js2\<rparr>
      \<lparr>sy_db = d', sy_jobs = js1 @ j\<lparr>jb_phase := Computed (length evs) (agent_outcome resp obs)\<rparr> # js2\<rparr>"
| error: "(case jb_phase j of Raised _ \<Rightarrow> False | Failing _ _ \<Rightarrow> False | _ \<Rightarrow> True) \<Longrightarrow>
    sys_step cf \<lparr>sy_db = d, sy_jobs = js1 @ j # js2\<rparr>
      \<lparr>sy_db = d, sy_jobs = js1 @ j\<lparr>jb_phase := Raised e\<rparr> # js2\<rparr>"
| commit: "jb_phase j = Computed n out \<Longrightarrow> commit_step (cf_env cf) now (jb_claim j) n out d = Inr (d', b) \<Longrightarrow>
    \<not> so_final out \<Longrightarrow>
    sys_step cf \<lparr>sy_db = d, sy_jobs = js1 @ j # js2\<rparr>
      \<lparr>sy_db = d', sy_jobs = js1 @ j\<lparr>jb_phase := Looping\<rparr> # js2\<rparr>"
| commit_final: "jb_phase j = Computed n out \<Longrightarrow>
    commit_step (cf_env cf) now (jb_claim j) n out d = Inr (d', b) \<Longrightarrow> so_final out \<Longrightarrow>
    sys_step cf \<lparr>sy_db = d, sy_jobs = js1 @ j # js2\<rparr> \<lparr>sy_db = d', sy_jobs = js1 @ js2\<rparr>"
| commit_lost: "jb_phase j = Computed n out \<Longrightarrow>
    commit_step (cf_env cf) now (jb_claim j) n out d = Inl (LeaseLostError t a w) \<Longrightarrow>
    sys_step cf \<lparr>sy_db = d, sy_jobs = js1 @ j # js2\<rparr> \<lparr>sy_db = d, sy_jobs = js1 @ js2\<rparr>"
| commit_error: "jb_phase j = Computed n out \<Longrightarrow>
    commit_step (cf_env cf) now (jb_claim j) n out d = Inl e \<Longrightarrow> (\<forall>t a w. e \<noteq> LeaseLostError t a w) \<Longrightarrow>
    sys_step cf \<lparr>sy_db = d, sy_jobs = js1 @ j # js2\<rparr>
      \<lparr>sy_db = d, sy_jobs = js1 @ j\<lparr>jb_phase := Raised e\<rparr> # js2\<rparr>"
| release: "jb_phase j = Raised e \<Longrightarrow> cl_attempt (jb_claim j) < cf_max_attempts cf \<Longrightarrow> \<not> fatal e \<Longrightarrow>
    release_task now backoff (jb_claim j) d = (d', b) \<Longrightarrow>
    sys_step cf \<lparr>sy_db = d, sy_jobs = js1 @ j # js2\<rparr> \<lparr>sy_db = d', sy_jobs = js1 @ js2\<rparr>"
| give_up: "jb_phase j = Raised e \<Longrightarrow> \<not> (cl_attempt (jb_claim j) < cf_max_attempts cf \<and> \<not> fatal e) \<Longrightarrow>
    sys_step cf \<lparr>sy_db = d, sy_jobs = js1 @ j # js2\<rparr>
      \<lparr>sy_db = d, sy_jobs = js1 @ j\<lparr>jb_phase := Failing (length (run_events d (job_run j)))
          (failed_outcome (cf_exc_str cf) (cf_exc_repr cf) (jb_claim j) e)\<rparr> # js2\<rparr>"
| fail_commit: "jb_phase j = Failing n out \<Longrightarrow>
    commit_step (cf_env cf) now (jb_claim j) n out d = Inr (d', b) \<Longrightarrow>
    sys_step cf \<lparr>sy_db = d, sy_jobs = js1 @ j # js2\<rparr> \<lparr>sy_db = d', sy_jobs = js1 @ js2\<rparr>"
| fail_error: "jb_phase j = Failing n out \<Longrightarrow>
    commit_step (cf_env cf) now (jb_claim j) n out d = Inl e \<Longrightarrow>
    sys_step cf \<lparr>sy_db = d, sy_jobs = js1 @ j # js2\<rparr> \<lparr>sy_db = d, sy_jobs = js1 @ js2\<rparr>"

definition reachable :: "config \<Rightarrow> sys \<Rightarrow> bool" where
  "reachable cf s \<longleftrightarrow> (sys_step cf)\<^sup>*\<^sup>* init_sys s"

section \<open>The interface: invariants of a transition system\<close>

locale kept_invariant =
  fixes start :: 's
    and step :: "'s \<Rightarrow> 's \<Rightarrow> bool"
    and Inv :: "'s \<Rightarrow> bool"
  assumes Inv_start: "Inv start"
    and Inv_step: "Inv s \<Longrightarrow> step s s' \<Longrightarrow> Inv s'"
begin

lemma Inv_steps: "step\<^sup>*\<^sup>* s s' \<Longrightarrow> Inv s \<Longrightarrow> Inv s'"
  by (induction rule: rtranclp_induct) (auto intro: Inv_step)

lemma Inv_reachable: "step\<^sup>*\<^sup>* start s \<Longrightarrow> Inv s"
  using Inv_steps Inv_start by blast

end

section \<open>The core invariant\<close>

text \<open>
  What every transaction keeps, with fencing or without it: primary keys, exactly one task per run,
  contiguous logs, and only runs with a task have events.
\<close>

definition db_core :: "db \<Rightarrow> bool" where
  "db_core d \<longleftrightarrow> distinct (map r_id (runs d)) \<and> distinct (map t_id (tasks d))
     \<and> distinct (map t_run_id (tasks d)) \<and> t_run_id ` set (tasks d) \<subseteq> r_id ` set (runs d)
     \<and> (\<forall>r. contiguous r (run_events d r))
     \<and> (\<forall>r. run_events d r \<noteq> [] \<longrightarrow> r \<in> t_run_id ` set (tasks d))"

definition claim_valid :: "db \<Rightarrow> claim \<Rightarrow> bool" where
  "claim_valid d c \<longleftrightarrow> (\<exists>t \<in> set (tasks d). t_id t = cl_task_id c \<and> t_run_id t = cl_run_id c
     \<and> cl_attempt c \<le> t_attempt t)"

text \<open>
  What the workflows compute: a final outcome carries a terminal status, and the cost of an outcome is
  the cost its payload records.
\<close>

definition out_ok :: "StepOutcome \<Rightarrow> bool" where
  "out_ok out \<longleftrightarrow> (so_final out \<longrightarrow> so_final_status out \<in> set TERMINAL)
     \<and> priced (so_payload out) \<and> cost_of (so_payload out) = so_cost_usd out"

text \<open>What a job has seen of the log stays a prefix of it.\<close>

fun phase_ok :: "event list \<Rightarrow> phase \<Rightarrow> bool" where
  "phase_ok lg (Replayed evs) = (\<exists>new. lg = evs @ new)"
| "phase_ok lg (Asked evs key) = (\<exists>new. lg = evs @ new)"
| "phase_ok lg (Computed n out) = (n \<le> length lg \<and> out_ok out)"
| "phase_ok lg (Failing n out) = (n \<le> length lg \<and> out_ok out)"
| "phase_ok lg _ = True"

definition job_core :: "db \<Rightarrow> job \<Rightarrow> bool" where
  "job_core d j \<longleftrightarrow> claim_valid d (jb_claim j) \<and> phase_ok (run_events d (job_run j)) (jb_phase j)"

definition job_token :: "job \<Rightarrow> uuid \<times> nat" where
  "job_token j = (cl_task_id (jb_claim j), cl_attempt (jb_claim j))"

definition core :: "sys \<Rightarrow> bool" where
  "core s \<longleftrightarrow> db_core (sy_db s) \<and> (\<forall>j \<in> set (sy_jobs s). job_core (sy_db s) j)
     \<and> distinct (map job_token (sy_jobs s))"

subsection \<open>What a transaction does to the database\<close>

inductive db_op :: "environ \<Rightarrow> db \<Rightarrow> db \<Rightarrow> bool" for env :: environ where
  op_submit: "submit_run now rid tid spec budget d = Inr (d', rid) \<Longrightarrow> db_op env d d'"
| op_claim: "claim_task locked now w l d = (d', Some c) \<Longrightarrow> db_op env d d'"
| op_heartbeat: "heartbeat now l c d = (d', b) \<Longrightarrow> db_op env d d'"
| op_reap: "reap_expired locked now d = (d', n) \<Longrightarrow> db_op env d d'"
| op_release: "release_task now backoff c d = (d', b) \<Longrightarrow> db_op env d d'"
| op_log_call: "d' = log_call now rid i k a w d \<Longrightarrow> db_op env d d'"
| op_store: "store_response k resp d = Inr d' \<Longrightarrow> db_op env d d'"
| op_commit: "commit_step env now c n out d = Inr (d', b) \<Longrightarrow> claim_valid d c \<Longrightarrow>
    n \<le> length (run_events d (cl_run_id c)) \<Longrightarrow> out_ok out \<Longrightarrow> db_op env d d'"

definition same_rows :: "db \<Rightarrow> db \<Rightarrow> bool" where
  "same_rows d d' \<longleftrightarrow> map r_id (runs d') = map r_id (runs d) \<and> map t_id (tasks d') = map t_id (tasks d)
     \<and> map t_run_id (tasks d') = map t_run_id (tasks d)"

lemma contiguous_gapless: "contiguous r (run_events d r) \<Longrightarrow> gapless d r"
  by (simp add: contiguous_def gapless_def)

lemma db_core_gapless: "db_core d \<Longrightarrow> gapless d r"
  by (simp add: db_core_def contiguous_gapless)

lemma contiguous_key_iff:
  "contiguous r evs \<Longrightarrow> step_key r n \<in> ev_idem_key ` set evs \<longleftrightarrow> n < length evs"
proof -
  assume "contiguous r evs"
  then have "ev_idem_key ` set evs = step_key r ` {0..<length evs}"
    by (metis contiguous_def image_set set_upt)
  then show ?thesis by auto
qed

lemma same_rows_queue:
  "claim_task locked now w l d = (d', Some c) \<Longrightarrow> same_rows d d'"
  "heartbeat now l c d = (d', b) \<Longrightarrow> same_rows d d'"
  "reap_expired locked now d = (d', n) \<Longrightarrow> same_rows d d'"
  "release_task now l c d = (d', b) \<Longrightarrow> same_rows d d'"
  by (auto simp: same_rows_def heartbeat_def reap_expired_def release_task_def claimed_db_def Let_def
      table_simps elim!: claim_task_SomeE)

lemma events_queue:
  "claim_task locked now w l d = (d', Some c) \<Longrightarrow> events d' = events d"
  "heartbeat now l c d = (d', b) \<Longrightarrow> events d' = events d"
  "reap_expired locked now d = (d', n) \<Longrightarrow> events d' = events d"
  "release_task now l c d = (d', b) \<Longrightarrow> events d' = events d"
  by (auto simp: heartbeat_def reap_expired_def release_task_def claimed_db_def Let_def
      elim!: claim_task_SomeE)

lemma run_events_cong: "events d' = events d \<Longrightarrow> run_events d' r = run_events d r"
  by (simp add: run_events_def)

lemma same_rows_commit:
  assumes "commit_step env now c n out d = Inr (d', b)" and "gapless d (cl_run_id c)"
  shows "same_rows d d'"
proof (cases b)
  case True
  with assms(1) have "commit_step env now c n out d = Inr (d', True)" by simp
  from commit_step_written(3,4) [OF this assms(2)] show ?thesis
    by (simp add: same_rows_def spend_rows_def table_simps)
next
  case False
  from commit_step_unwritten [OF assms(1) False] show ?thesis by (simp add: same_rows_def)
qed

lemma same_rows_sets:
  assumes "same_rows d d'"
  shows "t_run_id ` set (tasks d') = t_run_id ` set (tasks d)" "r_id ` set (runs d') = r_id ` set (runs d)"
  using assms by (metis same_rows_def set_map)+

lemma db_core_same_rows:
  assumes "db_core d" and "same_rows d d'" and "events d' = events d"
  shows "db_core d'"
  using assms same_rows_sets [OF assms(2)]
  by (simp add: db_core_def same_rows_def run_events_cong [OF assms(3)])

lemma submit_run_InrE:
  assumes "submit_run now rid tid spec budget d = Inr (d', rid')"
  obtains b where "rid' = rid" "numeric_cast 10 4 budget = Some b" "rid \<notin> r_id ` set (runs d)"
    "tid \<notin> t_id ` set (tasks d)" "jsonb_ok (JObj spec)"
    "d' = d\<lparr>runs := runs d @ [\<lparr>r_id = rid, r_task_spec = spec, r_status = Pending, r_budget_usd = b,
        r_spent_usd = 0, r_created_at = now, r_finished_at = None\<rparr>],
      tasks := tasks d @ [\<lparr>t_id = tid, t_run_id = rid, t_status = Queued, t_lease_owner = None,
        t_lease_expires_at = None, t_attempt = 0, t_available_at = now\<rparr>]\<rparr>"
  using assms
  by (auto simp: submit_run_def insert_run_def enqueue_task_def simp del: jsonb_ok.simps
      split: sum.splits if_splits option.splits)

lemma db_core_submit:
  assumes "db_core d" and "submit_run now rid tid spec budget d = Inr (d', rid')"
  shows "db_core d'"
  using assms(2)
proof (rule submit_run_InrE)
  fix b
  assume new: "rid \<notin> r_id ` set (runs d)" "tid \<notin> t_id ` set (tasks d)"
    and d': "d' = d\<lparr>runs := runs d @ [\<lparr>r_id = rid, r_task_spec = spec, r_status = Pending, r_budget_usd = b,
        r_spent_usd = 0, r_created_at = now, r_finished_at = None\<rparr>],
      tasks := tasks d @ [\<lparr>t_id = tid, t_run_id = rid, t_status = Queued, t_lease_owner = None,
        t_lease_expires_at = None, t_attempt = 0, t_available_at = now\<rparr>]\<rparr>"
  have "rid \<notin> t_run_id ` set (tasks d)" using new(1) assms(1) by (auto simp: db_core_def)
  with new assms(1) show ?thesis by (auto simp: db_core_def d' run_events_update)
qed

lemma db_core_commit:
  assumes core: "db_core d" and commit: "commit_step env now c n out d = Inr (d', b)"
    and valid: "claim_valid d c" and n: "n \<le> length (run_events d (cl_run_id c))"
  shows "db_core d'"
proof (cases b)
  case True
  with commit have "commit_step env now c n out d = Inr (d', True)" by simp
  note w = commit_step_written [OF this db_core_gapless [OF core]]
  have "contiguous (cl_run_id c) (run_events d (cl_run_id c))" using core by (simp add: db_core_def)
  with w(2) n have len: "n = length (run_events d (cl_run_id c))" by (simp add: contiguous_key_iff)
  have "contiguous r (run_events d' r)" for r
    using core by (auto simp: w(1) db_core_def contiguous_def committed_event_def len)
  moreover have "cl_run_id c \<in> t_run_id ` set (tasks d)"
    using valid by (auto simp: claim_valid_def intro: rev_image_eqI)
  then have "run_events d' r \<noteq> [] \<longrightarrow> r \<in> t_run_id ` set (tasks d)" for r
    using core by (simp add: w(1) db_core_def)
  moreover have rows: "same_rows d d'" by (rule same_rows_commit [OF commit db_core_gapless [OF core]])
  ultimately show ?thesis using core same_rows_sets [OF rows] by (simp add: db_core_def same_rows_def)
next
  case False
  from commit_step_unwritten [OF commit False] core show ?thesis by simp
qed

lemma db_core_op: "db_op env d d' \<Longrightarrow> db_core d \<Longrightarrow> db_core d'"
proof (induction rule: db_op.induct)
  case (op_log_call d' now rid i k a w d)
  then show ?case by (auto simp: same_rows_def intro: db_core_same_rows)
next
  case (op_store k resp d d')
  then show ?case using store_response_frame [OF op_store(1)]
    by (auto simp: same_rows_def intro: db_core_same_rows)
qed (auto intro: db_core_submit db_core_commit db_core_same_rows same_rows_queue events_queue)

subsection \<open>Logs and tokens only grow\<close>

definition grows :: "db \<Rightarrow> db \<Rightarrow> bool" where
  "grows d d' \<longleftrightarrow> (\<forall>r. \<exists>new. run_events d' r = run_events d r @ new)
     \<and> (\<forall>t \<in> set (tasks d). \<exists>t' \<in> set (tasks d'). t_id t' = t_id t \<and> t_run_id t' = t_run_id t
          \<and> t_attempt t \<le> t_attempt t')
     \<and> (\<forall>rid x. find_run rid d = Some x \<longrightarrow> (\<exists>x'. find_run rid d' = Some x'
          \<and> r_task_spec x' = r_task_spec x \<and> r_budget_usd x' = r_budget_usd x))"

text \<open>An update that keeps the id, the spec and the budget of every run.\<close>

definition keeps_runs :: "run_row list \<Rightarrow> run_row list \<Rightarrow> bool" where
  "keeps_runs rows rows' \<longleftrightarrow> list_all2 (\<lambda>x x'. r_id x' = r_id x \<and> r_task_spec x' = r_task_spec x
     \<and> r_budget_usd x' = r_budget_usd x) rows rows'"

lemma keeps_runs_refl [simp]: "keeps_runs rows rows"
  by (simp add: keeps_runs_def list_all2_same)

lemma keeps_runs_update:
  "(\<And>x. r_id (f x) = r_id x \<and> r_task_spec (f x) = r_task_spec x \<and> r_budget_usd (f x) = r_budget_usd x) \<Longrightarrow>
     keeps_runs rows rows' \<Longrightarrow> keeps_runs rows (sql_update p f rows')"
  by (auto simp: keeps_runs_def sql_update_def list_all2_map2 elim!: list_all2_mono)

lemma keeps_runs_find:
  "keeps_runs (runs d) (runs d') \<Longrightarrow> find_run rid d = Some x \<Longrightarrow> \<exists>x'. find_run rid d' = Some x'
     \<and> r_task_spec x' = r_task_spec x \<and> r_budget_usd x' = r_budget_usd x"
proof -
  have "list_all2 (\<lambda>x x'. r_id x' = r_id x \<and> r_task_spec x' = r_task_spec x
       \<and> r_budget_usd x' = r_budget_usd x) xs ys \<Longrightarrow> List.find (\<lambda>r. r_id r = rid) xs = Some x \<Longrightarrow>
     \<exists>x'. List.find (\<lambda>r. r_id r = rid) ys = Some x'
       \<and> r_task_spec x' = r_task_spec x \<and> r_budget_usd x' = r_budget_usd x" for xs ys
    by (induction rule: list_all2_induct) (auto split: if_splits)
  then show "keeps_runs (runs d) (runs d') \<Longrightarrow> find_run rid d = Some x \<Longrightarrow> ?thesis"
    by (simp add: keeps_runs_def find_run_def)
qed

lemma sql_update_image: "t \<in> set rows \<Longrightarrow> (if p t then f t else t) \<in> set (sql_update p f rows)"
  by (simp add: set_sql_update)

lemma tasks_grow:
  assumes "\<And>t. t_id (f t) = t_id t \<and> t_run_id (f t) = t_run_id t \<and> t_attempt t \<le> t_attempt (f t)"
  shows "\<forall>t \<in> set rows. \<exists>t' \<in> set (sql_update p f rows). t_id t' = t_id t \<and> t_run_id t' = t_run_id t
          \<and> t_attempt t \<le> t_attempt t'"
  using assms sql_update_image [of _ rows p f] by (metis order_refl)

lemma grows_sql_update:
  assumes "tasks d' = sql_update p f (tasks d)" and "events d' = events d" and "keeps_runs (runs d) (runs d')"
    and "\<And>t. t_id (f t) = t_id t \<and> t_run_id (f t) = t_run_id t \<and> t_attempt t \<le> t_attempt (f t)"
  shows "grows d d'"
  using tasks_grow [of f "tasks d" p, OF assms(4)] keeps_runs_find [OF assms(3)]
  by (simp add: grows_def run_events_cong [OF assms(2)] assms(1))

lemma grows_op: "db_op env d d' \<Longrightarrow> db_core d \<Longrightarrow> grows d d'"
proof (induction rule: db_op.induct)
  case (op_submit now rid tid spec budget d d')
  from op_submit(1) show ?case
    by (rule submit_run_InrE) (auto simp: grows_def run_events_update find_run_def find_append)
next
  case (op_claim locked now w l d d' c)
  from op_claim(1) obtain row where "d' = claimed_db row w (now + l) d" by (rule claim_task_SomeE)
  then show ?case
    by (intro grows_sql_update [where p = "\<lambda>t. t_id t = t_id row" and
          f = "\<lambda>t. t\<lparr>t_status := Leased, t_lease_owner := Some w, t_attempt := t_attempt t + 1,
                   t_lease_expires_at := Some (now + l)\<rparr>"])
       (simp_all add: claimed_db_def keeps_runs_update)
next
  case (op_log_call d' now rid i k a w d)
  then show ?case by (auto simp: grows_def log_call_def run_events_update find_run_def)
next
  case (op_store k resp d d')
  from store_response_frame [OF op_store(1)]
  have "events d' = events d" "tasks d' = tasks d" "runs d' = runs d" by simp_all
  then show ?case by (auto simp: grows_def run_events_def find_run_def)
next
  case (op_commit now c n out d d' b)
  show ?case
  proof (cases b)
    case True
    with op_commit(1) have "commit_step env now c n out d = Inr (d', True)" by simp
    note w = commit_step_written [OF this db_core_gapless [OF op_commit(5)]]
    have "\<forall>t \<in> set (tasks d). \<exists>t' \<in> set (tasks d'). t_id t' = t_id t \<and> t_run_id t' = t_run_id t
        \<and> t_attempt t \<le> t_attempt t'"
      unfolding w(3) by (cases "so_final out") (auto intro!: tasks_grow [rule_format])
    moreover have "keeps_runs (runs d) (runs d')"
      unfolding w(4) spend_rows_def by (simp add: keeps_runs_update)
    ultimately show ?thesis using keeps_runs_find by (simp add: grows_def w(1))
  next
    case False
    from commit_step_unwritten [OF op_commit(1) False] show ?thesis by (auto simp: grows_def)
  qed
next
  case (op_heartbeat now l c d d' b)
  then show ?case
    by (intro grows_sql_update [where f = "\<lambda>t. t\<lparr>t_lease_expires_at := Some (now + l)\<rparr>"])
       (auto simp: heartbeat_def)
next
  case (op_reap locked now d d' n)
  then show ?case
    by (intro grows_sql_update [where
          f = "\<lambda>t. t\<lparr>t_status := Queued, t_lease_owner := None, t_lease_expires_at := None\<rparr>"])
       (auto simp: reap_expired_def Let_def)
next
  case (op_release now backoff c d d' b)
  then show ?case
    by (intro grows_sql_update [where
          f = "\<lambda>t. t\<lparr>t_status := Queued, t_lease_owner := None, t_lease_expires_at := None,
                      t_available_at := now + backoff\<rparr>"]) (auto simp: release_task_def)
qed

lemma claim_valid_grows: "claim_valid d c \<Longrightarrow> grows d d' \<Longrightarrow> claim_valid d' c"
  unfolding claim_valid_def grows_def by (metis order_trans)

lemma phase_ok_append: "phase_ok lg ph \<Longrightarrow> phase_ok (lg @ new) ph"
  by (cases ph) auto

lemma job_core_grows: "job_core d j \<Longrightarrow> grows d d' \<Longrightarrow> job_core d' j"
  unfolding job_core_def using claim_valid_grows phase_ok_append by (metis grows_def)

subsection \<open>Every step keeps the core invariant\<close>

lemma grows_refl: "grows d d"
  by (auto simp: grows_def)

lemma out_ok_workflows:
  "out_ok (toy_next_step tw c i)" "out_ok (agent_outcome resp obs)"
  "out_ok (failed_outcome exc_str exc_repr c e)"
  "check_limits evs b m = Inr (Some stop) \<Longrightarrow> out_ok (stop_outcome stop)"
  by (auto simp: out_ok_def toy_next_step_def agent_outcome_def failed_outcome_def stop_outcome_def
      check_limits_def TERMINAL_def priced_def cost_of_def Let_def split: sum.splits if_splits)

lemma agent_limits_out_ok: "agent_limits spec r evs d = Inr (Some stop) \<Longrightarrow> out_ok (stop_outcome stop)"
  by (auto simp: agent_limits_def bind_result_Inr_iff intro: out_ok_workflows(4))

lemma sys_step_op:
  assumes "sys_step cf s s'" and "core s"
  shows "sy_db s' = sy_db s \<or> db_op (cf_env cf) (sy_db s) (sy_db s')"
  using assms
proof (induction rule: sys_step.induct)
  case (commit j n out now d d' b js1 js2)
  then show ?case by (auto simp: core_def job_core_def intro: op_commit)
next
  case (commit_final j n out now d d' b js1 js2)
  then show ?case by (auto simp: core_def job_core_def intro: op_commit)
next
  case (fail_commit j n out now d d' b js1 js2)
  then show ?case by (auto simp: core_def job_core_def intro: op_commit)
qed (auto intro: db_op.intros)

lemma sys_step_grows:
  assumes "sys_step cf s s'" and "core s"
  shows "grows (sy_db s) (sy_db s')" and "db_core (sy_db s')"
  using sys_step_op [OF assms] assms(2) grows_refl grows_op db_core_op by (auto simp: core_def)


lemma claim_task_valid:
  assumes "claim_task locked now w l d = (d', Some c)" and "db_core d"
  shows "claim_valid d' c" and "\<And>c'. claim_valid d c' \<Longrightarrow> cl_task_id c' = cl_task_id c \<Longrightarrow> cl_attempt c' < cl_attempt c"
proof -
  from assms(1) obtain row where row: "row \<in> set (tasks d)"
    "c = \<lparr>cl_task_id = t_id row, cl_run_id = t_run_id row, cl_worker_id = w, cl_attempt = t_attempt row + 1\<rparr>"
    "d' = claimed_db row w (now + l) d"
    by (rule claim_task_SomeE)
  have "row\<lparr>t_status := Leased, t_lease_owner := Some w, t_attempt := t_attempt row + 1,
      t_lease_expires_at := Some (now + l)\<rparr> \<in> set (tasks d')"
    using row(1) by (force simp: row(3) claimed_db_def set_sql_update)
  then show "claim_valid d' c" by (auto simp: claim_valid_def row(2) intro: rev_bexI)
  show "cl_attempt c' < cl_attempt c" if "claim_valid d c'" "cl_task_id c' = cl_task_id c" for c'
  proof -
    from that obtain t where t: "t \<in> set (tasks d)" "t_id t = t_id row" "cl_attempt c' \<le> t_attempt t"
      by (auto simp: claim_valid_def row(2))
    have "t = row" by (rule distinct_key_unique [of t_id "tasks d"]) (use t row(1) assms(2) in \<open>simp_all add: db_core_def\<close>)
    with t(3) show ?thesis by (simp add: row(2))
  qed
qed

lemma core_claim:
  assumes "core \<lparr>sy_db = d, sy_jobs = js\<rparr>" and "claim_task locked now w l d = (d', Some c)"
    and "grows d d'" and "db_core d'"
  shows "core \<lparr>sy_db = d', sy_jobs = js @ [\<lparr>jb_claim = c, jb_spec = sp, jb_phase = Looping\<rparr>]\<rparr>"
proof -
  have d: "db_core d" and jobs: "\<And>j. j \<in> set js \<Longrightarrow> job_core d j" "distinct (map job_token js)"
    using assms(1) by (auto simp: core_def)
  have "job_token j \<noteq> (cl_task_id c, cl_attempt c)" if "j \<in> set js" for j
    using jobs(1) [OF that] claim_task_valid(2) [OF assms(2) d, of "jb_claim j"]
    by (auto simp: job_token_def job_core_def)
  then have "(cl_task_id c, cl_attempt c) \<notin> job_token ` set js" by (metis imageE)
  with jobs assms(3,4) claim_task_valid(1) [OF assms(2) d] show ?thesis
    by (auto simp: core_def job_core_def [of d' "\<lparr>jb_claim = c, jb_spec = sp, jb_phase = Looping\<rparr>"]
        job_token_def [of "\<lparr>jb_claim = c, jb_spec = sp, jb_phase = Looping\<rparr>"] intro: job_core_grows)
qed

lemma core_replace:
  assumes "core \<lparr>sy_db = d, sy_jobs = js1 @ j # js2\<rparr>" and "grows d d'" and "db_core d'"
    and "phase_ok (run_events d' (job_run j)) ph"
  shows "core \<lparr>sy_db = d', sy_jobs = js1 @ j\<lparr>jb_phase := ph\<rparr> # js2\<rparr>"
proof -
  have "job_core d' x" if "x \<in> set (js1 @ j # js2)" for x
    using assms(1,2) that by (auto simp: core_def intro: job_core_grows)
  then have "job_core d' (j\<lparr>jb_phase := ph\<rparr>)" "\<And>x. x \<in> set js1 \<union> set js2 \<Longrightarrow> job_core d' x"
    using assms(4) by (auto simp: job_core_def)
  moreover have "job_token (j\<lparr>jb_phase := ph\<rparr>) = job_token j" by (simp add: job_token_def)
  ultimately show ?thesis using assms(1,3) by (auto simp: core_def)
qed

lemma core_remove:
  assumes "core \<lparr>sy_db = d, sy_jobs = js1 @ j # js2\<rparr>" and "grows d d'" and "db_core d'"
  shows "core \<lparr>sy_db = d', sy_jobs = js1 @ js2\<rparr>"
  using assms by (auto simp: core_def intro: job_core_grows)

lemma core_same:
  assumes "core \<lparr>sy_db = d, sy_jobs = js\<rparr>" and "grows d d'" and "db_core d'"
  shows "core \<lparr>sy_db = d', sy_jobs = js\<rparr>"
  using assms by (auto simp: core_def intro: job_core_grows)

lemma core_job: "core \<lparr>sy_db = d, sy_jobs = js1 @ j # js2\<rparr> \<Longrightarrow> phase_ok (run_events d (job_run j)) (jb_phase j)"
  by (simp add: core_def job_core_def)

lemma core_read: "core \<lparr>sy_db = d, sy_jobs = js\<rparr> \<Longrightarrow> read_events d r = run_events d r"
  by (simp add: core_def db_core_gapless read_events_gapless)

lemma core_step:
  assumes "sys_step cf s s'" and "core s"
  shows "core s'"
  using assms sys_step_grows [OF assms]
proof (induction rule: sys_step.induct)
  case (ask j evs d key d' now js1 js2)
  from core_job [OF ask(7)] ask(1) have "phase_ok (run_events d' (job_run j)) (Asked evs key)"
    by (simp add: ask(6) log_call_def run_events_update)
  with ask core_replace show ?case by simp
next
  case (answer j evs key resp d d' js1 js2 obs)
  then have "run_events d' (job_run j) = run_events d (job_run j)"
    using store_response_frame [OF answer(3)] by (simp add: run_events_def)
  with core_job [OF answer(4)] answer(1)
  have "phase_ok (run_events d' (job_run j)) (Computed (length evs) (agent_outcome resp obs))"
    by (auto simp: out_ok_workflows)
  with answer core_replace show ?case by simp
next
  case (toy j evs tw d js1 js2)
  have "phase_ok (run_events d (job_run j)) (Computed (length evs) (toy_next_step tw (jb_claim j) (length evs)))"
    using core_job [OF toy(4)] toy(1) by (auto simp: out_ok_workflows)
  with toy core_replace show ?case by simp
next
  case (limit j evs d stop js1 js2)
  have "phase_ok (run_events d (job_run j)) (Computed (length evs) (stop_outcome stop))"
    using core_job [OF limit(4)] limit(1) agent_limits_out_ok [OF limit(3)] by auto
  with limit core_replace show ?case by simp
next
  case (cached j evs d key resp js1 js2 obs)
  have "phase_ok (run_events d (job_run j)) (Computed (length evs) (agent_outcome resp obs))"
    using core_job [OF cached(6)] cached(1) by (auto simp: out_ok_workflows)
  with cached core_replace show ?case by simp
next
  case (commit j n out now d d' b js1 js2)
  then show ?case using core_replace by simp
qed (auto intro: core_claim core_same core_remove core_replace dest: core_job agent_limits_out_ok
      simp: out_ok_workflows core_read)

lemma core_init: "core init_sys"
  by (simp add: core_def init_sys_def db_core_def empty_db_def run_events_def contiguous_def)

interpretation core_inv: kept_invariant init_sys "sys_step cf" core for cf
  by unfold_locales (rule core_init, rule core_step)

lemma reachable_core: "reachable cf s \<Longrightarrow> core s"
  unfolding reachable_def by (rule core_inv.Inv_reachable)

end
