(* ===== verification/Trace.thy ===== *)
theory Trace
  imports System
begin

text \<open>
  One concrete execution of the platform, from the empty database to a finished agent run: submit,
  claim, replay, provider call, cached answer, final commit. The theorems about reachable states are
  applied to its last state, so their hypotheses are known to hold somewhere.
\<close>

definition demo_config :: config where
  "demo_config = \<lparr>cf_env = \<lambda>_. None, cf_provider = ''mock'', cf_answer = \<lambda>_. True, cf_spec = \<lambda>_. True,
     cf_sha = \<lambda>_. ''k'', cf_max_attempts = 3, cf_exc_str = \<lambda>_. ''error'', cf_exc_repr = \<lambda>_. ''error''\<rparr>"

definition demo_spec :: dict where
  "demo_spec = [(''kind'', JStr ''agent''), (''prompt'', JStr ''print hello''),
     (''mock_scenario'', JStr ''fail_twice_then_fix'')]"

definition demo_run :: "run_status \<Rightarrow> money \<Rightarrow> time option \<Rightarrow> run_row" where
  "demo_run st spent fin = \<lparr>r_id = ''r'', r_task_spec = demo_spec, r_status = st, r_budget_usd = 1,
     r_spent_usd = spent, r_created_at = 0, r_finished_at = fin\<rparr>"

definition demo_task :: "task_status \<Rightarrow> string option \<Rightarrow> time option \<Rightarrow> nat \<Rightarrow> task_row" where
  "demo_task st owner expires att = \<lparr>t_id = ''t'', t_run_id = ''r'', t_status = st, t_lease_owner = owner,
     t_lease_expires_at = expires, t_attempt = att, t_available_at = 0\<rparr>"

definition demo_claim :: claim where
  "demo_claim = \<lparr>cl_task_id = ''t'', cl_run_id = ''r'', cl_worker_id = ''W'', cl_attempt = 1\<rparr>"

definition demo_response :: llm_response where
  "demo_response = \<lparr>lr_action = finish_action ''ok'', lr_input_tokens = 100, lr_output_tokens = 50,
     lr_cost_usd = 35 / 100000\<rparr>"

definition demo_outcome :: StepOutcome where
  "demo_outcome = agent_outcome demo_response [(''summary'', JStr ''ok'')]"

definition demo_submitted :: db where
  "demo_submitted = \<lparr>runs = [demo_run Pending 0 None], events = [], tasks = [demo_task Queued None None 0],
     llm_cache = [], provider_calls = []\<rparr>"

definition demo_claimed :: db where
  "demo_claimed = \<lparr>runs = [demo_run Running 0 None], events = [], tasks = [demo_task Leased (Some ''W'') (Some 30) 1],
     llm_cache = [], provider_calls = []\<rparr>"

definition demo_asked :: db where
  "demo_asked = log_call 1 ''r'' 0 ''k'' 1 (Some ''W'') demo_claimed"

definition demo_answered :: db where
  "demo_answered = demo_asked\<lparr>llm_cache := [\<lparr>lc_key = ''k'', lc_response = finish_action ''ok'',
     lc_input_tokens = 100, lc_output_tokens = 50, lc_cost_usd = 35 / 100000\<rparr>]\<rparr>"

definition demo_event :: event where
  "demo_event = \<lparr>ev_run_id = ''r'', ev_seq = 1, ev_type = ''finish'',
     ev_payload = commit_payload demo_claim demo_outcome, ev_idem_key = step_key ''r'' 0\<rparr>"

definition demo_finished :: db where
  "demo_finished = demo_answered\<lparr>runs := [demo_run Succeeded (35 / 100000) (Some 3)],
     events := [\<lparr>er_event = demo_event, er_created_at = 3\<rparr>],
     tasks := [demo_task Done (Some ''W'') (Some 30) 1]\<rparr>"

definition demo_final :: sys where
  "demo_final = \<lparr>sy_db = demo_finished, sy_jobs = []\<rparr>"

lemma demo_run_fields [simp]:
  "r_id (demo_run st spent fin) = ''r''" "r_budget_usd (demo_run st spent fin) = 1"
  "r_task_spec (demo_run st spent fin) = demo_spec" "r_status (demo_run st spent fin) = st"
  "r_spent_usd (demo_run st spent fin) = spent" "r_finished_at (demo_run st spent fin) = fin"
  by (simp_all add: demo_run_def)

lemma demo_rounding:
  "numeric_round 4 1 = 1" "numeric_round 6 (7 / 20000) = 7 / 20000"
  by (rule numeric_round_fits, simp add: fits_scale_def)+

lemmas demo_defs = demo_run_def demo_task_def demo_claim_def demo_submitted_def demo_claimed_def

lemma demo_submit: "submit_run 0 ''r'' ''t'' demo_spec 1 empty_db = Inr (demo_submitted, ''r'')"
  by (simp add: submit_run_def insert_run_def enqueue_task_def empty_db_def demo_spec_def demo_defs no_nul_def
      numeric_cast_def demo_rounding)

lemma demo_claiming: "claim_task [] 0 ''W'' 30 demo_submitted = (demo_claimed, Some demo_claim)"
  by (simp add: claim_task_def claimable_def claimed_db_def demo_defs sql_update_def)

lemma demo_no_limit: "agent_limits demo_spec ''r'' [] demo_claimed = Inr None"
  by (simp add: agent_limits_def demo_spec_def get_default_def py_int_def DEFAULT_MAX_STEPS_def run_budget_def
      find_run_def demo_defs check_limits_def spent_from_events_def detect_loop_def event_actions_def
      map_filter_simps LOOP_WINDOW_def)

lemma demo_storing: "store_response ''k'' demo_response demo_asked = Inr demo_answered"
  by (simp add: store_response_def demo_response_def demo_asked_def demo_answered_def log_call_def
      demo_claimed_def finish_action_def no_nul_def numeric_cast_def demo_rounding)

lemma demo_tables:
  "runs demo_answered = [demo_run Running 0 None]" "events demo_answered = []"
  "tasks demo_answered = [demo_task Leased (Some ''W'') (Some 30) 1]"
  by (simp_all add: demo_answered_def demo_asked_def log_call_def demo_claimed_def)

lemma demo_payload_ok: "jsonb_ok (JObj (commit_payload demo_claim demo_outcome))"
  by (simp add: commit_payload_def demo_claim_def demo_outcome_def agent_outcome_def demo_response_def
      finish_action_def no_nul_def Let_def)

lemma demo_outcome_fields:
  "so_final demo_outcome" "so_type demo_outcome = ''finish''" "so_cost_usd demo_outcome = 35 / 100000"
  "so_final_status demo_outcome = Succeeded"
  by (simp_all add: demo_outcome_def agent_outcome_def demo_response_def finish_action_def Let_def)

lemma demo_commit: "commit_step (\<lambda>_. None) 3 demo_claim 0 demo_outcome demo_answered = Inr (demo_finished, True)"
proof -
  have "assert_lease (\<lambda>_. None) 3 demo_claim demo_answered = Inr ()"
    by (simp add: assert_lease_def demo_tables held_by_def expires_after_def demo_task_def demo_claim_def)
  moreover have "append_event 3 ''r'' (step_key ''r'' 0) ''finish'' (commit_payload demo_claim demo_outcome) demo_answered
      = Inr (demo_answered\<lparr>events := [\<lparr>er_event = demo_event, er_created_at = 3\<rparr>]\<rparr>,
             \<lparr>ar_seq = 1, ar_inserted = True\<rparr>)"
    using demo_payload_ok
    by (simp add: append_event_def find_run_def run_events_def demo_tables demo_run_def demo_event_def
        del: jsonb_ok.simps)
  ultimately show ?thesis
    by (simp add: commit_step_def demo_claim_def demo_outcome_fields add_spend_def finish_run_def demo_tables
        demo_run_def demo_task_def sql_update_def numeric_cast_def demo_rounding demo_finished_def)
qed

lemma demo_submits: "sys_step demo_config init_sys \<lparr>sy_db = demo_submitted, sy_jobs = []\<rparr>"
  unfolding init_sys_def by (rule sys_step.submit [OF demo_submit]) (simp add: demo_config_def)

lemma demo_finishes: "(sys_step demo_config)\<^sup>*\<^sup>* \<lparr>sy_db = demo_submitted, sy_jobs = []\<rparr> demo_final"
proof -
  let ?j = "\<lambda>ph. \<lparr>jb_claim = demo_claim, jb_spec = demo_spec, jb_phase = ph\<rparr>"
  let ?step = "sys_step demo_config"
  have "?step \<lparr>sy_db = demo_submitted, sy_jobs = []\<rparr> \<lparr>sy_db = demo_claimed, sy_jobs = [?j Looping]\<rparr>"
    using sys_step.claim [OF demo_claiming, of "demo_run Running 0 None" demo_config "[]"]
    by (simp add: find_run_def demo_defs)
  moreover have "?step \<lparr>sy_db = demo_claimed, sy_jobs = [?j Looping]\<rparr> \<lparr>sy_db = demo_claimed, sy_jobs = [?j (Replayed [])]\<rparr>"
    using sys_step.replay [of "?j Looping" demo_config demo_claimed "[]" "[]"]
    by (simp add: read_events_def run_events_def demo_claimed_def)
  moreover have "?step \<lparr>sy_db = demo_claimed, sy_jobs = [?j (Replayed [])]\<rparr> \<lparr>sy_db = demo_asked, sy_jobs = [?j (Asked [] ''k'')]\<rparr>"
    using sys_step.ask [of "?j (Replayed [])" "[]" demo_claimed demo_config "''k''" demo_asked 1 "[]" "[]"] demo_no_limit
    by (simp add: is_kind_def demo_spec_def demo_claim_def ask_key_def build_messages_def dict_item_def cache_key_def
        demo_config_def cache_lookup_def demo_asked_def demo_claimed_def)
  moreover have "?step \<lparr>sy_db = demo_asked, sy_jobs = [?j (Asked [] ''k'')]\<rparr>
      \<lparr>sy_db = demo_answered, sy_jobs = [?j (Computed 0 demo_outcome)]\<rparr>"
    using sys_step.answer [OF _ _ demo_storing, of "?j (Asked [] ''k'')" "[]" demo_config "[]" "[]" "[(''summary'', JStr ''ok'')]"]
    by (simp add: demo_config_def demo_outcome_def)
  moreover have "?step \<lparr>sy_db = demo_answered, sy_jobs = [?j (Computed 0 demo_outcome)]\<rparr> demo_final"
    using sys_step.commit_final [of "?j (Computed 0 demo_outcome)" 0 demo_outcome demo_config 3 demo_answered demo_finished
        True "[]" "[]"] demo_commit demo_outcome_fields(1)
    by (simp add: demo_final_def demo_config_def)
  ultimately show ?thesis by (meson rtranclp.rtrancl_into_rtrancl rtranclp.rtrancl_refl)
qed

lemma demo_reachable: "reachable demo_config demo_final"
  unfolding reachable_def by (rule converse_rtranclp_into_rtranclp [of _ _ _, OF demo_submits demo_finishes])

lemma demo_facts:
  "fencing_enabled (cf_env demo_config)" "sy_db demo_final = demo_finished"
  "runs demo_finished = [demo_run Succeeded (35 / 100000) (Some 3)]"
  "tasks demo_finished = [demo_task Done (Some ''W'') (Some 30) 1]"
  "read_events demo_finished ''r'' = [demo_event]"
  by (simp_all add: demo_config_def demo_final_def demo_finished_def read_events_def run_events_def demo_event_def)

end
