(* ===== verification/Safety.thy ===== *)
theory Safety
  imports Trace
begin

text \<open>
  What holds in every state the platform can reach, whatever the interleaving, the crashes and the
  clocks: contiguous logs always; with fencing on, ordered writers, finished runs that never change,
  and the consistency of run status, task status and log. The checks of \<open>chaos/invariants.py\<close> are
  shown to pass on these states.
\<close>

section \<open>The interface: invariants of the tables\<close>

text \<open>
  A property of the tables alone that every transaction keeps, given the core invariant, holds in
  every reachable state.
\<close>

locale table_invariant =
  fixes env :: environ
    and Q :: "db \<Rightarrow> bool"
  assumes Q_empty: "Q empty_db"
    and Q_op: "Q d \<Longrightarrow> db_core d \<Longrightarrow> db_op env d d' \<Longrightarrow> Q d'"
begin

lemma Q_step: "sys_step cf s s' \<Longrightarrow> cf_env cf = env \<Longrightarrow> core s \<Longrightarrow> Q (sy_db s) \<Longrightarrow> Q (sy_db s')"
  using sys_step_op [of cf s s'] Q_op [of "sy_db s" "sy_db s'"] by (auto simp: core_def)

lemma Q_reachable: "reachable cf s \<Longrightarrow> cf_env cf = env \<Longrightarrow> Q (sy_db s)"
  unfolding reachable_def
proof (induction rule: rtranclp_induct)
  case (step s s')
  have "core s" using step(1) by (simp add: reachable_core reachable_def)
  with step Q_step show ?case by blast
qed (simp add: init_sys_def Q_empty)

end

section \<open>A transaction is a queue operation or a commit\<close>

text \<open>What a transaction that is no commit may do to the rows.\<close>

definition task_evolves :: "task_row \<Rightarrow> task_row \<Rightarrow> bool" where
  "task_evolves t t' \<longleftrightarrow> t_id t' = t_id t \<and> t_run_id t' = t_run_id t \<and> t_attempt t \<le> t_attempt t'
     \<and> (t_status t = Done \<or> t_status t' = Done \<longrightarrow> t' = t)"

definition run_evolves :: "run_row \<Rightarrow> run_row \<Rightarrow> bool" where
  "run_evolves x x' \<longleftrightarrow> x' = x \<or> (r_status x = Pending \<and> x' = x\<lparr>r_status := Running\<rparr>)"

definition evolves :: "db \<Rightarrow> db \<Rightarrow> bool" where
  "evolves d d' \<longleftrightarrow> events d' = events d
     \<and> (\<exists>ts ts2. tasks d' = ts @ ts2 \<and> list_all2 task_evolves (tasks d) ts
          \<and> (\<forall>t \<in> set ts2. t_run_id t \<notin> r_id ` set (runs d) \<and> t_status t = Queued))
     \<and> (\<exists>rs rs2. runs d' = rs @ rs2 \<and> list_all2 run_evolves (runs d) rs
          \<and> (\<forall>x \<in> set rs2. r_id x \<notin> r_id ` set (runs d) \<and> r_status x = Pending
               \<and> r_spent_usd x = 0 \<and> r_finished_at x = None))"

lemma task_evolves_refl [simp]: "task_evolves t t"
  by (simp add: task_evolves_def)

lemma run_evolves_refl [simp]: "run_evolves x x"
  by (simp add: run_evolves_def)

lemma evolves_rows:
  assumes "events d' = events d" and "list_all2 task_evolves (tasks d) (tasks d')"
    and "list_all2 run_evolves (runs d) (runs d')"
  shows "evolves d d'"
  unfolding evolves_def using assms by (metis append_Nil2 empty_iff list.set(1))

lemma evolves_refl: "evolves d d"
  by (rule evolves_rows) (simp_all add: list_all2_same)

lemma list_all2_sql_update:
  "(\<And>x. x \<in> set rows \<Longrightarrow> p x \<Longrightarrow> R x (f x)) \<Longrightarrow> (\<And>x. R x x) \<Longrightarrow> list_all2 R rows (sql_update p f rows)"
  by (simp add: sql_update_def list_all2_map2 list_all2_same)

lemma evolves_queue:
  assumes "tasks d' = sql_update p f (tasks d)" and "events d' = events d" and "runs d' = runs d"
    and "\<And>t. t \<in> set (tasks d) \<Longrightarrow> p t \<Longrightarrow> task_evolves t (f t)"
  shows "evolves d d'"
  using assms by (intro evolves_rows) (auto intro!: list_all2_sql_update simp: list_all2_same)

lemma evolves_claim:
  assumes "claim_task locked now w l d = (d', Some c)" and "db_core d"
  shows "evolves d d'"
proof -
  from assms(1) obtain row where row: "row \<in> set (tasks d)" "claimable locked now row"
    "d' = claimed_db row w (now + l) d"
    by (rule claim_task_SomeE)
  have "t_status t = Queued" if "t \<in> set (tasks d)" "t_id t = t_id row" for t
    using that row(1,2) assms(2) distinct_key_unique [of t_id "tasks d" t row]
    by (simp add: db_core_def claimable_def)
  then show ?thesis
    by (intro evolves_rows)
       (auto intro!: list_all2_sql_update simp: row(3) claimed_db_def task_evolves_def run_evolves_def)
qed

text \<open>A commit that writes: by a claim on the run's task, at the end of the run's log.\<close>

inductive commits :: "environ \<Rightarrow> db \<Rightarrow> db \<Rightarrow> time \<Rightarrow> claim \<Rightarrow> StepOutcome \<Rightarrow> bool"
    for env :: environ and d :: db and d' :: db where
  "commit_step env now c (length (run_events d (cl_run_id c))) out d = Inr (d', True) \<Longrightarrow> claim_valid d c \<Longrightarrow>
     out_ok out \<Longrightarrow> commits env d d' now c out"

lemma commit_commits:
  assumes "commit_step env now c n out d = Inr (d', True)" and "claim_valid d c"
    and "n \<le> length (run_events d (cl_run_id c))" and "out_ok out" and "db_core d"
  shows "commits env d d' now c out"
proof -
  have "contiguous (cl_run_id c) (run_events d (cl_run_id c))" using assms(5) by (simp add: db_core_def)
  with commit_step_written(2) [OF assms(1) db_core_gapless [OF assms(5)]] assms(3)
  have "n = length (run_events d (cl_run_id c))" by (simp add: contiguous_key_iff)
  with assms show ?thesis by (auto intro: commits.intros)
qed

lemma db_op_cases:
  assumes "db_op env d d'" and "db_core d"
  obtains (queue) "evolves d d'" | (written) now c out where "commits env d d' now c out"
  using assms
proof (induction rule: db_op.induct)
  case (op_submit now rid tid spec budget d d')
  have "t_run_id ` set (tasks d) \<subseteq> r_id ` set (runs d)" using op_submit(4) by (simp add: db_core_def)
  with op_submit(1) have "evolves d d'"
    by (elim submit_run_InrE) (auto simp: evolves_def list_all2_same intro!: exI)
  with op_submit(2) show ?case .
next
  case (op_claim locked now w l d d' c)
  with evolves_claim show ?case by blast
next
  case (op_heartbeat now l c d d' b)
  then have "evolves d d'"
    by (intro evolves_queue [where p = "\<lambda>t. held_by c t \<and> expires_after now t" and
          f = "\<lambda>t. t\<lparr>t_lease_expires_at := Some (now + l)\<rparr>"])
       (auto simp: heartbeat_def task_evolves_def held_by_def)
  with op_heartbeat(2) show ?case .
next
  case (op_reap locked now d d' n)
  then have "evolves d d'"
    by (intro evolves_queue [where p = "\<lambda>t. t_status t = Leased \<and> expired_before now t \<and> t_id t \<notin> set locked"
          and f = "\<lambda>t. t\<lparr>t_status := Queued, t_lease_owner := None, t_lease_expires_at := None\<rparr>"])
       (auto simp: reap_expired_def Let_def task_evolves_def)
  with op_reap(2) show ?case .
next
  case (op_release now backoff c d d' b)
  then have "evolves d d'"
    by (intro evolves_queue [where p = "held_by c" and
          f = "\<lambda>t. t\<lparr>t_status := Queued, t_lease_owner := None, t_lease_expires_at := None,
                      t_available_at := now + backoff\<rparr>"])
       (auto simp: release_task_def task_evolves_def held_by_def)
  with op_release(2) show ?case .
next
  case (op_log_call d' now rid i k a w d)
  then show ?case by (auto intro!: op_log_call(2) evolves_rows simp: list_all2_same)
next
  case (op_store k resp d d')
  with store_response_frame [OF op_store(1)] show ?case
    by (auto intro!: op_store(2) evolves_rows simp: list_all2_same)
next
  case (op_commit now c n out d d' b)
  show ?case
  proof (cases b)
    case True
    with op_commit(1) have c: "commit_step env now c n out d = Inr (d', True)" by simp
    show ?thesis by (rule op_commit(6) [OF commit_commits [OF c op_commit(2-4,7)]])
  next
    case False
    from commit_step_unwritten [OF op_commit(1) False] op_commit(5) evolves_refl show ?thesis by simp
  qed
qed


lemma evolves_taskE:
  assumes "evolves d d'" and "t' \<in> set (tasks d')"
  obtains (old) t where "t \<in> set (tasks d)" "task_evolves t t'"
  | (new) "t_run_id t' \<notin> r_id ` set (runs d)" "t_status t' = Queued"
proof -
  from assms(1) obtain ts ts2 where "tasks d' = ts @ ts2" "list_all2 task_evolves (tasks d) ts"
    "\<forall>t \<in> set ts2. t_run_id t \<notin> r_id ` set (runs d) \<and> t_status t = Queued"
    unfolding evolves_def by blast
  with assms(2) that list_all2_set2 [of task_evolves "tasks d" ts t'] show ?thesis by auto
qed

lemma evolves_runE:
  assumes "evolves d d'" and "x' \<in> set (runs d')"
  obtains (old) x where "x \<in> set (runs d)" "run_evolves x x'"
  | (new) "r_id x' \<notin> r_id ` set (runs d)" "r_status x' = Pending" "r_spent_usd x' = 0" "r_finished_at x' = None"
proof -
  from assms(1) obtain rs rs2 where "runs d' = rs @ rs2" "list_all2 run_evolves (runs d) rs"
    "\<forall>x \<in> set rs2. r_id x \<notin> r_id ` set (runs d) \<and> r_status x = Pending
       \<and> r_spent_usd x = 0 \<and> r_finished_at x = None"
    unfolding evolves_def by blast
  with assms(2) that list_all2_set2 [of run_evolves "runs d" rs x'] show ?thesis by auto
qed

lemma evolves_keeps_run:
  assumes "evolves d d'" and "x \<in> set (runs d)" and "r_status x \<noteq> Pending"
  shows "x \<in> set (runs d')"
proof -
  from assms(1) obtain rs rs2 where rs: "runs d' = rs @ rs2" "list_all2 run_evolves (runs d) rs"
    by (auto simp: evolves_def)
  from rs(2) assms(2) obtain x' where "x' \<in> set rs" "run_evolves x x'"
    using list_all2_set1 by metis
  with assms(3) rs(1) show ?thesis by (auto simp: run_evolves_def)
qed

lemma evolves_run_events: "evolves d d' \<Longrightarrow> run_events d' r = run_events d r"
  by (auto simp: evolves_def intro: run_events_cong)

lemma meta_committed [simp]:
  "meta_attempt (commit_payload c out) = int (cl_attempt c)" "meta_final (commit_payload c out) = so_final out"
  "priced (commit_payload c out) = priced (so_payload out)" "cost_of (commit_payload c out) = cost_of (so_payload out)"
  by (simp_all add: meta_attempt_def meta_final_def meta_of_def get_default_def priced_def cost_of_def)

lemma commits_written:
  assumes "commits env d d' now c out" and "db_core d"
  shows "run_events d' r = run_events d r @ (if r = cl_run_id c
      then [committed_event c (length (run_events d (cl_run_id c))) out (Suc (length (run_events d r)))] else [])"
    and "tasks d' = (if so_final out
      then sql_update (\<lambda>t. t_id t = cl_task_id c) (\<lambda>t. t\<lparr>t_status := Done\<rparr>) (tasks d) else tasks d)"
    and "runs d' = (if so_final out
      then sql_update (\<lambda>r. r_id r = cl_run_id c)
        (\<lambda>r. r\<lparr>r_status := so_final_status out, r_finished_at := Some now\<rparr>)
        (spend_rows (cl_run_id c) (so_cost_usd out) (runs d))
      else spend_rows (cl_run_id c) (so_cost_usd out) (runs d))"
proof -
  from assms(1) have "commit_step env now c (length (run_events d (cl_run_id c))) out d = Inr (d', True)"
    by (auto elim: commits.cases)
  note w = commit_step_written [OF this db_core_gapless [OF assms(2)]]
  show "run_events d' r = run_events d r @ (if r = cl_run_id c
      then [committed_event c (length (run_events d (cl_run_id c))) out (Suc (length (run_events d r)))] else [])"
    by (rule w(1))
  show "tasks d' = (if so_final out
      then sql_update (\<lambda>t. t_id t = cl_task_id c) (\<lambda>t. t\<lparr>t_status := Done\<rparr>) (tasks d) else tasks d)"
    by (rule w(3))
  show "runs d' = (if so_final out
      then sql_update (\<lambda>r. r_id r = cl_run_id c)
        (\<lambda>r. r\<lparr>r_status := so_final_status out, r_finished_at := Some now\<rparr>)
        (spend_rows (cl_run_id c) (so_cost_usd out) (runs d))
      else spend_rows (cl_run_id c) (so_cost_usd out) (runs d))"
    by (rule w(4))
qed

lemma commits_task:
  assumes "commits env d d' now c out" and "db_core d"
  obtains t where "t \<in> set (tasks d)" "t_id t = cl_task_id c" "t_run_id t = cl_run_id c"
    "fencing_enabled env \<Longrightarrow> t_attempt t = cl_attempt c \<and> t_status t = Leased"
proof -
  from assms(1) obtain t where t: "t \<in> set (tasks d)" "t_id t = cl_task_id c" "t_run_id t = cl_run_id c"
    by (auto simp: claim_valid_def elim!: commits.cases)
  have "t_attempt t = cl_attempt c \<and> t_status t = Leased" if "fencing_enabled env"
  proof -
    from assms(1) that obtain t' where t': "t' \<in> set (tasks d)" "held_by c t'"
      by (auto elim!: commits.cases dest: commit_step_fenced)
    moreover have "t' = t"
      by (rule distinct_key_unique [of t_id "tasks d"])
         (use t t' assms(2) in \<open>auto simp: db_core_def held_by_def\<close>)
    ultimately show ?thesis by (simp add: held_by_def)
  qed
  with t that show ?thesis by blast
qed

lemma task_of_run_unique:
  "db_core d \<Longrightarrow> t \<in> set (tasks d) \<Longrightarrow> t' \<in> set (tasks d) \<Longrightarrow> t_run_id t = t_run_id t' \<Longrightarrow> t = t'"
  using distinct_key_unique [of t_run_id "tasks d" t t'] by (simp add: db_core_def)

lemma task_id_unique:
  "db_core d \<Longrightarrow> t \<in> set (tasks d) \<Longrightarrow> t' \<in> set (tasks d) \<Longrightarrow> t_id t = t_id t' \<Longrightarrow> t = t'"
  using distinct_key_unique [of t_id "tasks d" t t'] by (simp add: db_core_def)

lemma untasked_log_empty: "db_core d \<Longrightarrow> r \<notin> r_id ` set (runs d) \<Longrightarrow> run_events d r = []"
  unfolding db_core_def by blast

section \<open>Ordered writers\<close>

definition fenced_log :: "task_row \<Rightarrow> event list \<Rightarrow> bool" where
  "fenced_log t evs \<longleftrightarrow> writers_ok evs \<and> (\<forall>e \<in> set evs. meta_attempt (ev_payload e) \<le> int (t_attempt t))
     \<and> ((\<exists>e \<in> set evs. meta_final (ev_payload e)) \<longleftrightarrow> t_status t = Done)"

definition fenced :: "db \<Rightarrow> bool" where
  "fenced d \<longleftrightarrow> (\<forall>t \<in> set (tasks d). fenced_log t (run_events d (t_run_id t)))"

lemma writers_ok_Nil [simp]: "writers_ok []"
  by (simp add: writers_ok_def)

lemma writers_ok_snoc:
  assumes "writers_ok evs" and "\<And>x. x \<in> set evs \<Longrightarrow> meta_attempt (ev_payload x) \<le> meta_attempt (ev_payload e)"
    and "\<And>x. x \<in> set evs \<Longrightarrow> \<not> meta_final (ev_payload x)" and "0 \<le> meta_attempt (ev_payload e)"
  shows "writers_ok (evs @ [e])"
  using assms by (auto simp: writers_ok_def sorted_append)

lemma fenced_log_evolves: "fenced_log t evs \<Longrightarrow> task_evolves t t' \<Longrightarrow> fenced_log t' evs"
  unfolding fenced_log_def task_evolves_def by (metis of_nat_le_iff order_trans)

lemma fenced_log_snoc:
  assumes "fenced_log t evs" and "t_status t \<noteq> Done" and "t_attempt t = cl_attempt c"
  shows "fenced_log (if so_final out then t\<lparr>t_status := Done\<rparr> else t) (evs @ [committed_event c n out m])"
proof -
  have "writers_ok (evs @ [committed_event c n out m])"
    using assms by (intro writers_ok_snoc) (auto simp: fenced_log_def committed_event_def)
  with assms show ?thesis by (auto simp: fenced_log_def committed_event_def)
qed

lemma fenced_evolves:
  assumes "fenced d" and "db_core d" and "evolves d d'"
  shows "fenced d'"
  unfolding fenced_def evolves_run_events [OF assms(3)]
proof
  fix t' assume "t' \<in> set (tasks d')"
  with assms(3) show "fenced_log t' (run_events d (t_run_id t'))"
  proof (cases rule: evolves_taskE)
    case (old t)
    with assms(1) have "fenced_log t (run_events d (t_run_id t))" by (simp add: fenced_def)
    with old(2) fenced_log_evolves show ?thesis by (metis task_evolves_def)
  next
    case new
    from untasked_log_empty [OF assms(2) new(1)] new(2) show ?thesis by (simp add: fenced_log_def)
  qed
qed

lemma fenced_commits:
  assumes f: "fenced d" and core: "db_core d" and c: "commits env d d' now c out" and fence: "fencing_enabled env"
  shows "fenced d'"
  unfolding fenced_def
proof
  note w = commits_written [OF c core]
  obtain t where t: "t \<in> set (tasks d)" "t_id t = cl_task_id c" "t_run_id t = cl_run_id c"
    "t_attempt t = cl_attempt c" "t_status t = Leased"
    using commits_task [OF c core] fence by metis
  fix t' assume "t' \<in> set (tasks d')"
  then obtain t0 where t0: "t0 \<in> set (tasks d)"
    "t' = (if so_final out \<and> t_id t0 = cl_task_id c then t0\<lparr>t_status := Done\<rparr> else t0)"
    by (auto simp: w(2) set_sql_update split: if_splits)
  have old: "fenced_log t0 (run_events d (t_run_id t0))" using f t0(1) by (simp add: fenced_def)
  show "fenced_log t' (run_events d' (t_run_id t'))"
  proof (cases "t0 = t")
    case True
    with fenced_log_snoc [OF old, of c out] t t0(2) show ?thesis by (auto simp: w(1))
  next
    case False
    then have "t_run_id t0 \<noteq> cl_run_id c" "t_id t0 \<noteq> cl_task_id c"
      using task_of_run_unique [OF core t0(1) t(1)] task_id_unique [OF core t0(1) t(1)] t by auto
    with old t0(2) show ?thesis by (simp add: w(1))
  qed
qed

interpretation fence_inv: table_invariant env "\<lambda>d. fencing_enabled env \<longrightarrow> fenced d" for env
proof
  show "fencing_enabled env \<longrightarrow> fenced empty_db" by (simp add: fenced_def empty_db_def)
  fix d d' assume "fencing_enabled env \<longrightarrow> fenced d" "db_core d" "db_op env d d'"
  then show "fencing_enabled env \<longrightarrow> fenced d'"
    using fenced_evolves fenced_commits by (elim db_op_cases) blast+
qed


section \<open>Status\<close>

definition status_match :: "task_row \<Rightarrow> run_row \<Rightarrow> bool" where
  "status_match t x \<longleftrightarrow> (t_status t = Done \<longleftrightarrow> r_status x \<in> set TERMINAL)
     \<and> (r_finished_at x \<noteq> None \<longleftrightarrow> t_status t = Done)"

definition status_ok :: "db \<Rightarrow> bool" where
  "status_ok d \<longleftrightarrow> (\<forall>t \<in> set (tasks d). \<forall>x \<in> set (runs d). r_id x = t_run_id t \<longrightarrow> status_match t x)"

lemma status_match_evolves:
  "status_match t x \<Longrightarrow> task_evolves t t' \<Longrightarrow> run_evolves x x' \<Longrightarrow> status_match t' x'"
  by (auto simp: status_match_def task_evolves_def run_evolves_def TERMINAL_def)

lemma status_ok_evolves:
  assumes st: "status_ok d" and core: "db_core d" and ev: "evolves d d'"
  shows "status_ok d'"
  unfolding status_ok_def
proof (intro ballI impI)
  fix t' x' assume t': "t' \<in> set (tasks d')" and x': "x' \<in> set (runs d')" and eq: "r_id x' = t_run_id t'"
  from ev t' show "status_match t' x'"
  proof (cases rule: evolves_taskE)
    case (old t)
    from ev x' show ?thesis
    proof (cases rule: evolves_runE)
      case old2: (old x)
      with old eq have "r_id x = t_run_id t" by (auto simp: task_evolves_def run_evolves_def)
      with st old old2 have "status_match t x" by (simp add: status_ok_def)
      with old(2) old2(2) status_match_evolves show ?thesis by blast
    next
      case new
      with old eq core show ?thesis by (auto simp: task_evolves_def db_core_def)
    qed
  next
    case new
    from ev x' show ?thesis
    proof (cases rule: evolves_runE)
      case (old x)
      with new eq have "t_run_id t' \<in> r_id ` set (runs d)"
        by (auto simp: run_evolves_def intro: rev_image_eqI)
      with new(1) show ?thesis by simp
    next
      case new2: new
      with new show ?thesis by (simp add: status_match_def TERMINAL_def)
    qed
  qed
qed

lemma commits_runE:
  assumes "commits env d d' now c out" and "db_core d" and "x' \<in> set (runs d')"
  obtains (other) "x' \<in> set (runs d)" "r_id x' \<noteq> cl_run_id c"
  | (mine) x where "x \<in> set (runs d)" "r_id x = cl_run_id c" "r_id x' = r_id x"
    "r_spent_usd x' = numeric_round 6 (r_spent_usd x + so_cost_usd out)"
    "r_status x' = (if so_final out then so_final_status out else r_status x)"
    "r_finished_at x' = (if so_final out then Some now else r_finished_at x)"
  using assms(3) unfolding commits_written(3) [OF assms(1,2)] spend_rows_def
  by (auto simp: set_sql_update split: if_splits)

lemma status_ok_commits:
  assumes st: "status_ok d" and core: "db_core d" and c: "commits env d d' now c out"
  shows "status_ok d'"
  unfolding status_ok_def
proof (intro ballI impI)
  fix t' x' assume t': "t' \<in> set (tasks d')" and x': "x' \<in> set (runs d')" and eq: "r_id x' = t_run_id t'"
  obtain t where t: "t \<in> set (tasks d)" "t_id t = cl_task_id c" "t_run_id t = cl_run_id c"
    by (rule commits_task [OF c core])
  from t' obtain t0 where t0: "t0 \<in> set (tasks d)"
    "t' = (if so_final out \<and> t_id t0 = cl_task_id c then t0\<lparr>t_status := Done\<rparr> else t0)"
    by (auto simp: commits_written(2) [OF c core] set_sql_update split: if_splits)
  then have run: "t_run_id t' = t_run_id t0" by simp
  have same: "t_id t0 = cl_task_id c \<longleftrightarrow> t_run_id t0 = cl_run_id c"
    using task_of_run_unique [OF core t0(1) t(1)] task_id_unique [OF core t0(1) t(1)] t by auto
  have out: "so_final out \<Longrightarrow> so_final_status out \<in> set TERMINAL"
    using c by (auto simp: out_ok_def elim!: commits.cases)
  from c core x' show "status_match t' x'"
  proof (cases rule: commits_runE)
    case other
    then have "status_match t0 x'" using st t0(1) eq run by (simp add: status_ok_def)
    with other same eq run t0(2) show ?thesis by auto
  next
    case (mine x)
    then have "status_match t0 x" using st t0(1) eq run by (simp add: status_ok_def)
    with mine same eq run t0(2) out show ?thesis by (auto simp: status_match_def)
  qed
qed

interpretation status_inv: table_invariant env status_ok for env
proof
  show "status_ok empty_db" by (simp add: status_ok_def empty_db_def)
  fix d d' assume "status_ok d" "db_core d" "db_op env d d'"
  then show "status_ok d'"
    using status_ok_evolves status_ok_commits by (elim db_op_cases) blast+
qed

section \<open>Spend\<close>

abbreviation log_cost :: "event list \<Rightarrow> money" where
  "log_cost evs \<equiv> sum_list (map (cost_of \<circ> ev_payload) evs)"

definition spend_match :: "event list \<Rightarrow> run_row \<Rightarrow> bool" where
  "spend_match evs x \<longleftrightarrow> \<bar>r_spent_usd x - log_cost evs\<bar> \<le> of_nat (length evs) / (2 * 10 ^ 6)
     \<and> ((\<forall>e \<in> set evs. fits_scale 6 (cost_of (ev_payload e))) \<longrightarrow> r_spent_usd x = log_cost evs)"

definition spend_ok :: "db \<Rightarrow> bool" where
  "spend_ok d \<longleftrightarrow> (\<forall>r. \<forall>e \<in> set (run_events d r). priced (ev_payload e))
     \<and> (\<forall>x \<in> set (runs d). spend_match (run_events d (r_id x)) x)"

lemma log_cost_fits: "(\<forall>e \<in> set evs. fits_scale s (cost_of (ev_payload e))) \<Longrightarrow> fits_scale s (log_cost evs)"
  by (induction evs) (auto intro: fits_scale_add)

lemma spend_match_snoc:
  assumes "spend_match evs x" and "r_spent_usd x' = numeric_round 6 (r_spent_usd x + cost_of (ev_payload e))"
  shows "spend_match (evs @ [e]) x'"
proof -
  let ?c = "cost_of (ev_payload e)"
  have "\<bar>r_spent_usd x' - (r_spent_usd x + ?c)\<bar> \<le> 1 / (2 * 10 ^ 6)"
    unfolding assms(2) by (rule numeric_round_error)
  moreover have "\<bar>r_spent_usd x - log_cost evs\<bar> \<le> of_nat (length evs) / (2 * 10 ^ 6)"
    using assms(1) by (simp add: spend_match_def)
  ultimately have "\<bar>r_spent_usd x' - (log_cost evs + ?c)\<bar> \<le> of_nat (length evs) / (2 * 10 ^ 6) + 1 / (2 * 10 ^ 6)"
    by linarith
  moreover have "r_spent_usd x' = log_cost evs + ?c"
    if "\<forall>y \<in> set (evs @ [e]). fits_scale 6 (cost_of (ev_payload y))"
    using that assms log_cost_fits [of evs 6]
    by (simp add: spend_match_def numeric_round_fits fits_scale_add)
  ultimately show ?thesis by (simp add: spend_match_def add_divide_distrib)
qed

lemma spend_ok_evolves:
  assumes sp: "spend_ok d" and core: "db_core d" and ev: "evolves d d'"
  shows "spend_ok d'"
  unfolding spend_ok_def evolves_run_events [OF ev]
proof (intro conjI ballI)
  show "\<forall>r. \<forall>e \<in> set (run_events d r). priced (ev_payload e)" using sp by (simp add: spend_ok_def)
  fix x' assume "x' \<in> set (runs d')"
  with ev show "spend_match (run_events d (r_id x')) x'"
  proof (cases rule: evolves_runE)
    case (old x)
    then have "spend_match (run_events d (r_id x)) x" using sp by (simp add: spend_ok_def)
    with old(2) show ?thesis by (auto simp: run_evolves_def spend_match_def)
  next
    case new
    with untasked_log_empty [OF core new(1)] show ?thesis by (simp add: spend_match_def)
  qed
qed

lemma spend_ok_commits:
  assumes sp: "spend_ok d" and core: "db_core d" and c: "commits env d d' now c out"
  shows "spend_ok d'"
  unfolding spend_ok_def
proof (intro conjI ballI)
  have out: "priced (so_payload out)" "cost_of (so_payload out) = so_cost_usd out"
    using c by (auto simp: out_ok_def elim!: commits.cases)
  show "\<forall>r. \<forall>e \<in> set (run_events d' r). priced (ev_payload e)"
    using sp out by (auto simp: spend_ok_def commits_written(1) [OF c core] committed_event_def)
  fix x' assume "x' \<in> set (runs d')"
  with c core show "spend_match (run_events d' (r_id x')) x'"
  proof (cases rule: commits_runE)
    case other
    with sp show ?thesis by (simp add: spend_ok_def commits_written(1) [OF c core])
  next
    case (mine x)
    have "spend_match (run_events d (r_id x)) x" using sp mine(1) unfolding spend_ok_def by blast
    from spend_match_snoc [OF this, of x'] mine out show ?thesis by (simp add: commits_written(1) [OF c core] committed_event_def)
  qed
qed

interpretation spend_inv: table_invariant env spend_ok for env
proof
  show "spend_ok empty_db" by (simp add: spend_ok_def empty_db_def run_events_def)
  fix d d' assume "spend_ok d" "db_core d" "db_op env d d'"
  then show "spend_ok d'"
    using spend_ok_evolves spend_ok_commits by (elim db_op_cases) blast+
qed


section \<open>Properties\<close>

lemma reachable_fenced: "reachable cf s \<Longrightarrow> fencing_enabled (cf_env cf) \<Longrightarrow> fenced (sy_db s)"
  using fence_inv.Q_reachable by blast

lemma reachable_db_core: "reachable cf s \<Longrightarrow> db_core (sy_db s)"
  using reachable_core by (simp add: core_def)

lemma reachable_read: "reachable cf s \<Longrightarrow> read_events (sy_db s) r = run_events (sy_db s) r"
  using reachable_db_core db_core_gapless read_events_gapless by blast

lemma reachable_writers_ok:
  assumes "reachable cf s" and "fencing_enabled (cf_env cf)"
  shows "writers_ok (run_events (sy_db s) r)"
proof (cases "run_events (sy_db s) r = []")
  case False
  with reachable_db_core [OF assms(1)] obtain t where "t \<in> set (tasks (sy_db s))" "t_run_id t = r"
    unfolding db_core_def by blast
  with reachable_fenced [OF assms] show ?thesis by (auto simp: fenced_def fenced_log_def)
qed simp

text \<open>
  C4. Exactly-once steps, even without fencing: in every reachable state the log of every run is
  contiguous, with sequence numbers 1..n and the keys of steps 0..n-1 once each, whatever workers
  crash, resume after their lease or commit the same step at the same time.
\<close>

theorem logs_always_contiguous:
  assumes "reachable cf s"
  shows "map ev_seq (read_events (sy_db s) r) = [1..<Suc (length (read_events (sy_db s) r))]
    \<and> map ev_idem_key (read_events (sy_db s) r) = map (step_key r) [0..<length (read_events (sy_db s) r)]"
  using reachable_db_core [OF assms] unfolding reachable_read [OF assms] db_core_def contiguous_def by blast

theorem logs_always_contiguous_witness:
  "map ev_seq (read_events (sy_db demo_final) ''r'') = [1]
    \<and> map ev_idem_key (read_events (sy_db demo_final) ''r'') = [step_key ''r'' 0]"
  using logs_always_contiguous [OF demo_reachable, of "''r''"] by (simp add: demo_facts)

text \<open>
  C3. Fencing works: with fencing on, the chaos suite's log check passes in every reachable state,
  for every set of runs. No stale attempt ever writes after a newer one and nothing is written after
  a final event.
\<close>

theorem fenced_logs_pass_integrity:
  assumes "reachable cf s" and "fencing_enabled (cf_env cf)"
  shows "ir_passed (log_integrity (sy_db s) run_ids)"
  using reachable_writers_ok [OF assms] reachable_db_core [OF assms(1)]
  by (simp add: log_integrity_passes_iff reachable_read [OF assms(1)] db_core_def)

theorem fenced_logs_pass_integrity_witness: "ir_passed (log_integrity demo_finished [''r''])"
  using fenced_logs_pass_integrity [OF demo_reachable demo_facts(1), of "[''r'']"] by (simp only: demo_facts)

lemma finished_op:
  assumes "db_op env d d'" and "db_core d" and "status_ok d" and "fencing_enabled env"
    and "x \<in> set (runs d)" and "r_status x \<in> set TERMINAL"
  shows "x \<in> set (runs d') \<and> run_events d' (r_id x) = run_events d (r_id x)"
  using assms(1,2)
proof (cases rule: db_op_cases)
  case queue
  have "r_status x \<noteq> Pending" using assms(6) by (auto simp: TERMINAL_def)
  with evolves_keeps_run [OF queue assms(5)] evolves_run_events [OF queue] show ?thesis by simp
next
  case (written now c out)
  obtain t where t: "t \<in> set (tasks d)" "t_run_id t = cl_run_id c" "t_status t = Leased"
    using commits_task [OF written assms(2)] assms(4) by metis
  have "r_id x \<noteq> cl_run_id c"
  proof
    assume "r_id x = cl_run_id c"
    with assms(3,5) t have "status_match t x" by (simp add: status_ok_def)
    with t(3) assms(6) show False by (simp add: status_match_def)
  qed
  with assms(5) show ?thesis
    by (auto simp: commits_written(1,3) [OF written assms(2)] spend_rows_def set_sql_update intro!: rev_image_eqI)
qed

lemma finished_steps:
  assumes "(sys_step cf)\<^sup>*\<^sup>* s s'" and "reachable cf s" and "fencing_enabled (cf_env cf)"
    and "x \<in> set (runs (sy_db s))" and "r_status x \<in> set TERMINAL"
  shows "x \<in> set (runs (sy_db s')) \<and> run_events (sy_db s') (r_id x) = run_events (sy_db s) (r_id x)"
  using assms(1)
proof (induction rule: rtranclp_induct)
  case (step s1 s2)
  have r: "reachable cf s1" using assms(2) step(1) unfolding reachable_def by (rule rtranclp_trans)
  from sys_step_op [OF step(2) reachable_core [OF r]]
  show ?case
  proof
    assume "db_op (cf_env cf) (sy_db s1) (sy_db s2)"
    from finished_op [OF this reachable_db_core [OF r] status_inv.Q_reachable [OF r refl] assms(3)] step.IH assms(5)
    show ?thesis by simp
  qed (use step.IH in simp)
qed (use assms(4) in simp)

text \<open>
  C5. A finished run is immutable: with fencing on, once a run has a terminal status, no further
  sequence of steps of the platform (zombies, retries, reaps and new claims included) changes its
  row, its spend or its log.
\<close>

theorem finished_run_immutable:
  assumes "reachable cf s" and "fencing_enabled (cf_env cf)" and "x \<in> set (runs (sy_db s))"
    and "r_status x \<in> set TERMINAL" and "(sys_step cf)\<^sup>*\<^sup>* s s'"
  shows "x \<in> set (runs (sy_db s')) \<and> read_events (sy_db s') (r_id x) = read_events (sy_db s) (r_id x)"
proof -
  have "reachable cf s'" using assms(1,5) unfolding reachable_def by (rule rtranclp_trans)
  with finished_steps [OF assms(5,1-4)] assms(1) show ?thesis by (simp add: reachable_read)
qed

theorem finished_run_immutable_witness:
  "(sys_step demo_config)\<^sup>*\<^sup>* demo_final \<lparr>sy_db = fst (reap_expired [] 99 demo_finished), sy_jobs = []\<rparr>
   \<and> read_events (fst (reap_expired [] 99 demo_finished)) ''r'' = [demo_event]"
proof
  let ?d = "fst (reap_expired [] 99 demo_finished)"
  have "sys_step demo_config demo_final \<lparr>sy_db = ?d, sy_jobs = []\<rparr>"
    unfolding demo_final_def by (rule sys_step.reap [OF prod.collapse [symmetric]])
  then show steps: "(sys_step demo_config)\<^sup>*\<^sup>* demo_final \<lparr>sy_db = ?d, sy_jobs = []\<rparr>" by simp
  show "read_events ?d ''r'' = [demo_event]"
    using finished_run_immutable [OF demo_reachable demo_facts(1) _ _ steps, of "demo_run Succeeded (35 / 100000) (Some 3)"]
    by (simp add: demo_facts TERMINAL_def demo_run_def)
qed

text \<open>
  C6. The three records of a run's end agree: with fencing on, in every reachable state a run has a
  terminal status iff its task is done, iff its finish time is set, iff its log has a final event,
  and that event is the last one.
\<close>

theorem run_end_consistent:
  assumes "reachable cf s" and "fencing_enabled (cf_env cf)" and "x \<in> set (runs (sy_db s))"
    and "t \<in> set (tasks (sy_db s))" and "t_run_id t = r_id x"
  shows "(r_status x \<in> set TERMINAL \<longleftrightarrow> t_status t = Done) \<and> (r_finished_at x \<noteq> None \<longleftrightarrow> t_status t = Done)
    \<and> (t_status t = Done \<longleftrightarrow> read_events (sy_db s) (r_id x) \<noteq> []
          \<and> meta_final (ev_payload (last (read_events (sy_db s) (r_id x)))))"
proof -
  have m: "status_match t x"
    using status_inv.Q_reachable [OF assms(1) refl] assms(3-5) by (simp add: status_ok_def)
  have f: "fenced_log t (run_events (sy_db s) (r_id x))"
    using reachable_fenced [OF assms(1,2)] assms(4,5) by (auto simp: fenced_def)
  have last_final: "(\<exists>e \<in> set evs. meta_final (ev_payload e)) \<longleftrightarrow> evs \<noteq> [] \<and> meta_final (ev_payload (last evs))"
    if "writers_ok evs" for evs
    using that by (cases evs rule: rev_cases) (auto simp: writers_ok_def)
  show ?thesis
    using m f last_final [of "run_events (sy_db s) (r_id x)"]
    by (auto simp: status_match_def fenced_log_def reachable_read [OF assms(1)])
qed

theorem run_end_consistent_witness:
  "r_status (demo_run Succeeded (35 / 100000) (Some 3)) \<in> set TERMINAL \<and> meta_final (ev_payload demo_event)"
  using run_end_consistent [OF demo_reachable demo_facts(1), of "demo_run Succeeded (35 / 100000) (Some 3)"
      "demo_task Done (Some ''W'') (Some 30) 1"]
  by (simp add: demo_facts demo_run_def demo_task_def)

text \<open>
  C10. Spend accounting: in every reachable state, fenced or not, every run's \<open>spent_usd\<close> differs from
  the sum of its event costs by at most half a micro-dollar per event (the rounding of the column),
  and equals it whenever every cost has at most six decimals.
\<close>

theorem spend_matches_events:
  assumes "reachable cf s" and "x \<in> set (runs (sy_db s))"
  shows "\<exists>total_cost. spent_from_events (read_events (sy_db s) (r_id x)) = Inr total_cost
    \<and> \<bar>r_spent_usd x - total_cost\<bar> \<le> of_nat (length (read_events (sy_db s) (r_id x))) / 2000000
    \<and> ((\<forall>e \<in> set (read_events (sy_db s) (r_id x)). fits_scale 6 (cost_of (ev_payload e))) \<longrightarrow>
         r_spent_usd x = total_cost)"
proof -
  have sp: "spend_ok (sy_db s)" by (rule spend_inv.Q_reachable [OF assms(1) refl])
  then have "spent_from_events (run_events (sy_db s) (r_id x)) = Inr (log_cost (run_events (sy_db s) (r_id x)))"
    by (intro spent_from_events_priced) (simp add: spend_ok_def)
  moreover have "spend_match (run_events (sy_db s) (r_id x)) x" using sp assms(2) by (simp add: spend_ok_def)
  ultimately show ?thesis by (simp add: reachable_read [OF assms(1)] spend_match_def)
qed

theorem spend_matches_events_witness: "spent_from_events [demo_event] = Inr (35 / 100000)"
proof -
  have cost: "cost_of (ev_payload demo_event) = 35 / 100000"
    by (simp add: demo_event_def cost_of_def demo_outcome_def agent_outcome_def demo_response_def Let_def)
  have "fits_scale 6 (cost_of (ev_payload demo_event))" unfolding cost by (simp add: fits_scale_def)
  with spend_matches_events [OF demo_reachable, of "demo_run Succeeded (35 / 100000) (Some 3)"] show ?thesis
    by (auto simp: demo_facts field_simps)
qed

end
