(* ===== verification/Billing.thy ===== *)
theory Billing
  imports Safety
begin

text \<open>
  Provider calls and limits over every reachable state: no attempt pays twice for a step, and every
  agent action was decided while the run was under its budget and its step limit. Both rest on what a
  job has done so far, so the invariants range over the jobs in flight as well as over the tables.
\<close>

section \<open>Calls\<close>

definition call_key :: "call_row \<Rightarrow> uuid \<times> nat \<times> nat" where
  "call_key k = (pc_run_id k, pc_step_index k, pc_attempt k)"

text \<open>Which steps a job in a given phase may already have asked the provider about.\<close>

fun ask_bound :: "event list \<Rightarrow> phase \<Rightarrow> nat \<Rightarrow> bool" where
  "ask_bound lg Looping i = (i < length lg)"
| "ask_bound lg (Replayed evs) i = (i < length evs)"
| "ask_bound lg (Asked evs key) i = (i \<le> length evs)"
| "ask_bound lg (Computed n out) i = (i \<le> n)"
| "ask_bound lg _ i = True"

definition calls_ok :: "db \<Rightarrow> bool" where
  "calls_ok d \<longleftrightarrow> distinct (map call_key (provider_calls d))
     \<and> (\<forall>k \<in> set (provider_calls d). \<exists>t \<in> set (tasks d). t_run_id t = pc_run_id k \<and> pc_attempt k \<le> t_attempt t)"

definition job_calls :: "db \<Rightarrow> job \<Rightarrow> bool" where
  "job_calls d j \<longleftrightarrow> (\<forall>k \<in> set (provider_calls d).
     pc_run_id k = job_run j \<and> pc_attempt k = cl_attempt (jb_claim j) \<longrightarrow>
     ask_bound (run_events d (job_run j)) (jb_phase j) (pc_step_index k))"

definition billing :: "sys \<Rightarrow> bool" where
  "billing s \<longleftrightarrow> core s \<and> calls_ok (sy_db s) \<and> (\<forall>j \<in> set (sy_jobs s). job_calls (sy_db s) j)"

lemma calls_ok_grows: "calls_ok d \<Longrightarrow> grows d d' \<Longrightarrow> provider_calls d' = provider_calls d \<Longrightarrow> calls_ok d'"
  unfolding calls_ok_def grows_def by (metis order_trans)

lemma ask_bound_append: "ask_bound lg ph i \<Longrightarrow> ask_bound (lg @ new) ph i"
  by (cases ph) auto

lemma job_calls_grows:
  "job_calls d j \<Longrightarrow> grows d d' \<Longrightarrow> provider_calls d' = provider_calls d \<Longrightarrow> job_calls d' j"
  unfolding job_calls_def grows_def using ask_bound_append by metis

lemma job_calls_replace:
  assumes "job_calls d j" and "\<And>i. ask_bound (run_events d (job_run j)) (jb_phase j) i \<Longrightarrow>
      ask_bound (run_events d' (job_run j)) ph i" and "provider_calls d' = provider_calls d"
  shows "job_calls d' (j\<lparr>jb_phase := ph\<rparr>)"
  using assms by (auto simp: job_calls_def)

lemma commit_step_progress:
  assumes "commit_step env now c n out d = Inr (d', b)" and "db_core d"
    and "n \<le> length (run_events d (cl_run_id c))"
  shows "n < length (run_events d' (cl_run_id c))" and "provider_calls d' = provider_calls d"
proof -
  have k: "contiguous (cl_run_id c) (run_events d (cl_run_id c))" using assms(2) by (simp add: db_core_def)
  show "n < length (run_events d' (cl_run_id c))"
  proof (cases b)
    case True
    with assms(1) commit_step_written(1) [OF _ db_core_gapless [OF assms(2)], of env now c n out d'] assms(3)
    show ?thesis by simp
  next
    case False
    with assms(1) commit_step_noop [of env now c n out d d'] k show ?thesis by (simp add: contiguous_key_iff)
  qed
  show "provider_calls d' = provider_calls d"
    using assms(1) commit_step_written(6) [OF _ db_core_gapless [OF assms(2)], of env now c n out d']
      commit_step_unwritten [OF assms(1)] by (cases b) auto
qed

lemma provider_calls_ops:
  "submit_run now rid tid spec budget d = Inr (d', rid') \<Longrightarrow> provider_calls d' = provider_calls d"
  "claim_task locked now w l d = (d', Some c) \<Longrightarrow> provider_calls d' = provider_calls d"
  "heartbeat now l c d = (d', b) \<Longrightarrow> provider_calls d' = provider_calls d"
  "reap_expired locked now d = (d', m) \<Longrightarrow> provider_calls d' = provider_calls d"
  "release_task now l c d = (d', b) \<Longrightarrow> provider_calls d' = provider_calls d"
  by (auto simp: heartbeat_def reap_expired_def release_task_def claimed_db_def Let_def
      elim!: claim_task_SomeE submit_run_InrE)

lemma claim_task_fresh:
  assumes "claim_task locked now w l d = (d', Some c)" and "db_core d"
    and "t \<in> set (tasks d)" and "t_run_id t = cl_run_id c"
  shows "t_attempt t < cl_attempt c"
proof -
  from assms(1) obtain row where row: "row \<in> set (tasks d)"
    "c = \<lparr>cl_task_id = t_id row, cl_run_id = t_run_id row, cl_worker_id = w, cl_attempt = t_attempt row + 1\<rparr>"
    by (rule claim_task_SomeE)
  with task_of_run_unique [OF assms(2,3) row(1)] assms(4) show ?thesis by simp
qed

text \<open>Two jobs on the same run under the same attempt are the same job.\<close>

lemma job_tokens_by_run:
  assumes "core \<lparr>sy_db = d, sy_jobs = js1 @ j # js2\<rparr>" and "x \<in> set js1 \<union> set js2" and "job_run x = job_run j"
  shows "cl_attempt (jb_claim x) \<noteq> cl_attempt (jb_claim j)"
proof -
  have core: "db_core d" and "job_core d x" "job_core d j" and tok: "job_token x \<noteq> job_token j"
    using assms(1,2) by (auto simp: core_def) (metis image_eqI)+
  then obtain t t' where "t \<in> set (tasks d)" "t_id t = cl_task_id (jb_claim x)" "t_run_id t = job_run x"
    "t' \<in> set (tasks d)" "t_id t' = cl_task_id (jb_claim j)" "t_run_id t' = job_run j"
    by (auto simp: job_core_def claim_valid_def)
  with task_of_run_unique [OF core] assms(3) have "cl_task_id (jb_claim x) = cl_task_id (jb_claim j)" by metis
  with tok show ?thesis by (simp add: job_token_def)
qed

lemma billing_ask:
  assumes b: "billing \<lparr>sy_db = d, sy_jobs = js1 @ j # js2\<rparr>" and ph: "jb_phase j = Replayed evs"
    and d': "d' = log_call now (job_run j) (length evs) key (cl_attempt (jb_claim j)) w d"
  shows "calls_ok d' \<and> job_calls d' (j\<lparr>jb_phase := Asked evs key\<rparr>) \<and> (\<forall>x \<in> set js1 \<union> set js2. job_calls d' x)"
proof (intro conjI ballI)
  have ok: "calls_ok d" and jc: "\<And>x. x \<in> set js1 \<union> set js2 \<Longrightarrow> job_calls d x" "job_calls d j"
    and core: "core \<lparr>sy_db = d, sy_jobs = js1 @ j # js2\<rparr>" and valid: "claim_valid d (jb_claim j)"
    using b by (auto simp: billing_def core_def job_core_def)
  have ev: "run_events d' r = run_events d r" for r by (simp add: d' log_call_def run_events_update)
  have "(job_run j, length evs, cl_attempt (jb_claim j)) \<notin> call_key ` set (provider_calls d)"
    using jc(2) ph by (auto simp: job_calls_def call_key_def)
  with ok valid show "calls_ok d'"
    by (auto simp: calls_ok_def d' log_call_def call_key_def claim_valid_def)
  show "job_calls d' (j\<lparr>jb_phase := Asked evs key\<rparr>)"
    using jc(2) ph by (auto simp: job_calls_def d' log_call_def)
  fix x assume x: "x \<in> set js1 \<union> set js2"
  with jc(1) [OF x] job_tokens_by_run [OF core x] show "job_calls d' x"
    by (auto simp: job_calls_def d' log_call_def run_events_update)
qed


text \<open>The other steps log no call.\<close>

lemma billing_jobs:
  assumes "billing \<lparr>sy_db = d, sy_jobs = js\<rparr>" and "core \<lparr>sy_db = d', sy_jobs = js'\<rparr>" and "grows d d'"
    and "provider_calls d' = provider_calls d" and "\<And>j. j \<in> set js' \<Longrightarrow> j \<notin> set js \<Longrightarrow> job_calls d' j"
  shows "billing \<lparr>sy_db = d', sy_jobs = js'\<rparr>"
  using assms calls_ok_grows [OF _ assms(3,4)] job_calls_grows [OF _ assms(3,4)]
  by (auto simp: billing_def)

lemma billing_replace:
  assumes "billing \<lparr>sy_db = d, sy_jobs = js1 @ j # js2\<rparr>"
    and "core \<lparr>sy_db = d', sy_jobs = js1 @ j\<lparr>jb_phase := ph\<rparr> # js2\<rparr>" and "grows d d'"
    and "provider_calls d' = provider_calls d"
    and "\<And>i. ask_bound (run_events d (job_run j)) (jb_phase j) i \<Longrightarrow> ask_bound (run_events d' (job_run j)) ph i"
  shows "billing \<lparr>sy_db = d', sy_jobs = js1 @ j\<lparr>jb_phase := ph\<rparr> # js2\<rparr>"
proof (rule billing_jobs [OF assms(1-4)])
  have "job_calls d j" using assms(1) by (simp add: billing_def)
  from job_calls_replace [OF this assms(5,4)]
  show "x \<in> set (js1 @ j\<lparr>jb_phase := ph\<rparr> # js2) \<Longrightarrow> x \<notin> set (js1 @ j # js2) \<Longrightarrow> job_calls d' x" for x
    by auto
qed

lemma billing_remove:
  assumes "billing \<lparr>sy_db = d, sy_jobs = js1 @ j # js2\<rparr>" and "core \<lparr>sy_db = d, sy_jobs = js1 @ js2\<rparr>"
  shows "billing \<lparr>sy_db = d, sy_jobs = js1 @ js2\<rparr>"
  by (rule billing_jobs [OF assms(1,2) grows_refl]) auto

lemma billing_phase:
  assumes "billing \<lparr>sy_db = d, sy_jobs = js1 @ j # js2\<rparr>"
    and "core \<lparr>sy_db = d, sy_jobs = js1 @ j\<lparr>jb_phase := ph\<rparr> # js2\<rparr>"
    and "\<And>i. ask_bound (run_events d (job_run j)) (jb_phase j) i \<Longrightarrow> ask_bound (run_events d (job_run j)) ph i"
  shows "billing \<lparr>sy_db = d, sy_jobs = js1 @ j\<lparr>jb_phase := ph\<rparr> # js2\<rparr>"
  by (rule billing_replace [OF assms(1,2) grows_refl refl assms(3)])

lemma billing_claim:
  assumes b: "billing \<lparr>sy_db = d, sy_jobs = js\<rparr>" and c: "claim_task locked now w l d = (d', Some c)"
    and "core \<lparr>sy_db = d', sy_jobs = js @ [\<lparr>jb_claim = c, jb_spec = sp, jb_phase = Looping\<rparr>]\<rparr>" and "grows d d'"
  shows "billing \<lparr>sy_db = d', sy_jobs = js @ [\<lparr>jb_claim = c, jb_spec = sp, jb_phase = Looping\<rparr>]\<rparr>"
proof (rule billing_jobs [OF b assms(3,4)])
  show same: "provider_calls d' = provider_calls d" by (rule provider_calls_ops(2) [OF c])
  have "pc_attempt k < cl_attempt c" if k: "k \<in> set (provider_calls d)" "pc_run_id k = cl_run_id c" for k
  proof -
    from b k obtain t where "t \<in> set (tasks d)" "t_run_id t = cl_run_id c" "pc_attempt k \<le> t_attempt t"
      by (auto simp: billing_def calls_ok_def)
    with claim_task_fresh [OF c] b show ?thesis by (fastforce simp: billing_def core_def)
  qed
  then show "j \<in> set (js @ [\<lparr>jb_claim = c, jb_spec = sp, jb_phase = Looping\<rparr>]) \<Longrightarrow> j \<notin> set js \<Longrightarrow> job_calls d' j" for j
    by (fastforce simp: job_calls_def same)
qed

lemma billing_step:
  assumes "sys_step cf s s'" and "billing s"
  shows "billing s'"
proof -
  have core: "core s" using assms(2) by (simp add: billing_def)
  note facts = core_step [OF assms(1) core] sys_step_grows(1) [OF assms(1) core]
  from assms(1) core facts assms(2) show ?thesis
  proof (induction rule: sys_step.induct)
    case (replay j d js1 js2)
    then show ?case by (intro billing_replace) (simp_all add: core_read)
  next
    case (ask j evs d key d' now js1 js2)
    from billing_ask [OF ask(10,1,6)] ask(8) show ?case by (auto simp: billing_def)
  next
    case (answer j evs key resp d d' js1 js2 obs)
    from store_response_frame [OF answer(3)] answer show ?case by (intro billing_replace) simp_all
  next
    case (commit j n out now d d' b js1 js2)
    have "n \<le> length (run_events d (job_run j))" using core_job [OF commit(4)] commit(1) by simp
    with commit have "n < length (run_events d' (job_run j))" "provider_calls d' = provider_calls d"
      by (auto simp: core_def dest: commit_step_progress)
    with commit show ?case by (intro billing_replace) auto
  next
    case (commit_final j n out now d d' b js1 js2)
    have "n \<le> length (run_events d (job_run j))" using core_job [OF commit_final(4)] commit_final(1) by simp
    with commit_final have "provider_calls d' = provider_calls d" by (auto simp: core_def dest: commit_step_progress(2))
    with commit_final show ?case by (intro billing_jobs [OF commit_final(7)]) auto
  next
    case (fail_commit j n out now d d' b js1 js2)
    have "n \<le> length (run_events d (job_run j))" using core_job [OF fail_commit(3)] fail_commit(1) by simp
    with fail_commit have "provider_calls d' = provider_calls d" by (auto simp: core_def dest: commit_step_progress(2))
    with fail_commit show ?case by (intro billing_jobs [OF fail_commit(6)]) auto
  next
    case (claim locked now w l d d' c r js)
    show ?case by (rule billing_claim [OF claim(6,1)]) (use claim in simp_all)
  next
    case (submit now rid tid spec budget d d' js)
    show ?case
      by (rule billing_jobs [OF submit(6)]) (use submit provider_calls_ops(1) [OF submit(1)] in simp_all)
  next
    case (beat now l j d d' b js)
    show ?case
      by (rule billing_jobs [OF beat(6)]) (use beat provider_calls_ops(3) [OF beat(1)] in simp_all)
  next
    case (reap locked now d d' n js)
    show ?case
      by (rule billing_jobs [OF reap(5)]) (use reap provider_calls_ops(4) [OF reap(1)] in simp_all)
  next
    case (release j e now backoff d d' b js1 js2)
    then show ?case by (intro billing_jobs [OF release(8)] provider_calls_ops(5) [OF release(4)]) auto
  qed (auto intro: billing_remove billing_phase)
qed

lemma billing_init: "billing init_sys"
  by (simp add: billing_def core_init) (simp add: init_sys_def calls_ok_def empty_db_def)

interpretation billing_inv: kept_invariant init_sys "sys_step cf" billing for cf
  by unfold_locales (rule billing_init, rule billing_step)


lemma group_attempts_distinct:
  assumes "distinct (map call_key cs)"
  shows "distinct (map pc_attempt (sort_key pc_id (filter (\<lambda>c. pc_run_id c = r \<and> pc_step_index c = i) cs)))"
proof -
  let ?g = "filter (\<lambda>c. pc_run_id c = r \<and> pc_step_index c = i) cs"
  have "distinct ?g" using assms by (simp add: distinct_map)
  moreover have "inj_on pc_attempt (set ?g)"
    using assms by (auto simp: distinct_map inj_on_def call_key_def)
  ultimately show ?thesis by (simp add: distinct_map)
qed

lemma no_double_billing_passes:
  assumes "distinct (map call_key (provider_calls d))"
  shows "ir_passed (no_double_billing d run_ids)"
proof -
  have "distinct (map call_key (calls_of d run_ids))"
    using assms by (simp add: calls_of_def distinct_map_filter)
  note distinct_group = group_attempts_distinct [OF this]
  have "distinct attempts" if "(g, attempts) \<in> set (billing_groups d run_ids)" for g attempts
    using that distinct_group by (auto simp: billing_groups_def simp del: set_sort)
  then show ?thesis
    by (auto simp: no_double_billing_def Let_def filter_empty_conv distinct_card)
qed

lemma reachable_calls_distinct: "reachable cf s \<Longrightarrow> distinct (map call_key (provider_calls (sy_db s)))"
  using billing_inv.Inv_reachable [of cf s] unfolding reachable_def by (simp add: billing_def calls_ok_def)

text \<open>
  C7. No double billing: in every reachable state, with or without fencing, no attempt of a run has
  called the provider twice for the same step, and the chaos suite's billing check passes. A step is
  paid again only by a later attempt, after a crash between the call and its cached answer.
\<close>

theorem no_attempt_bills_twice:
  assumes "reachable cf s"
  shows "distinct (map (\<lambda>k. (pc_run_id k, pc_step_index k, pc_attempt k)) (provider_calls (sy_db s)))
    \<and> ir_passed (no_double_billing (sy_db s) run_ids)"
  using reachable_calls_distinct [OF assms] no_double_billing_passes by (simp add: call_key_def [abs_def])

theorem no_attempt_bills_twice_witness:
  "map pc_run_id (provider_calls demo_finished) = [''r''] \<and> ir_passed (no_double_billing demo_finished [''r''])"
  using no_attempt_bills_twice [OF demo_reachable, of "[''r'']"]
  by (simp add: demo_facts) (simp add: demo_finished_def demo_answered_def demo_asked_def log_call_def demo_claimed_def)

end
