(* ===== verification/RunLimits.thy ===== *)
theory RunLimits
  imports Billing
begin

text \<open>
  The run limits of \<open>budget.py\<close> over every reachable state: each agent action in a log was decided
  while the events before it cost less than the run's budget and were fewer than its step limit,
  whichever worker wrote it and however often the run changed hands. From that follow the bound on the
  total spend and on the length of a log.
\<close>

definition acts :: "dict \<Rightarrow> bool" where
  "acts p \<longleftrightarrow> has_key ''action'' p"

text \<open>The limits of a run's row allow another action after \<open>evs\<close>.\<close>

definition row_within :: "run_row \<Rightarrow> event list \<Rightarrow> bool" where
  "row_within x evs \<longleftrightarrow> log_cost evs < r_budget_usd x
     \<and> (\<exists>m. py_int (get_default (r_task_spec x) ''max_steps'' (JInt DEFAULT_MAX_STEPS)) = Inr m
          \<and> int (length evs) < m)"

definition out_limits :: "run_row \<Rightarrow> event list \<Rightarrow> StepOutcome \<Rightarrow> bool" where
  "out_limits x evs out \<longleftrightarrow> (acts (so_payload out) \<longrightarrow> row_within x evs)
     \<and> (is_kind ''agent'' (r_task_spec x) \<longrightarrow> acts (so_payload out) \<or> so_final out \<and> so_cost_usd out = 0)"

definition log_within :: "run_row \<Rightarrow> event list \<Rightarrow> bool" where
  "log_within x evs \<longleftrightarrow> (\<forall>i < length evs. acts (ev_payload (evs ! i)) \<longrightarrow> row_within x (take i evs))
     \<and> (is_kind ''agent'' (r_task_spec x) \<longrightarrow> (\<forall>e \<in> set evs. acts (ev_payload e)
          \<or> meta_final (ev_payload e) \<and> cost_of (ev_payload e) = 0))"

fun phase_limits :: "run_row \<Rightarrow> event list \<Rightarrow> phase \<Rightarrow> bool" where
  "phase_limits x lg (Asked evs key) = (row_within x evs \<and> is_kind ''agent'' (r_task_spec x))"
| "phase_limits x lg (Computed n out) = out_limits x (take n lg) out"
| "phase_limits x lg (Failing n out) = out_limits x (take n lg) out"
| "phase_limits x lg _ = True"

definition run_limits :: "db \<Rightarrow> uuid \<Rightarrow> bool" where
  "run_limits d r \<longleftrightarrow> (run_events d r = [] \<or> (\<exists>x. find_run r d = Some x \<and> log_within x (run_events d r)))"

definition job_limits :: "db \<Rightarrow> job \<Rightarrow> bool" where
  "job_limits d j \<longleftrightarrow> (\<exists>x. find_run (job_run j) d = Some x \<and> jb_spec j = r_task_spec x
     \<and> phase_limits x (run_events d (job_run j)) (jb_phase j))"

definition limits :: "sys \<Rightarrow> bool" where
  "limits s \<longleftrightarrow> core s \<and> spend_ok (sy_db s) \<and> (\<forall>r. run_limits (sy_db s) r)
     \<and> (\<forall>j \<in> set (sy_jobs s). job_limits (sy_db s) j)"

section \<open>Only the spec and the budget matter, and they never change\<close>

definition same_terms :: "run_row \<Rightarrow> run_row \<Rightarrow> bool" where
  "same_terms x x' \<longleftrightarrow> r_task_spec x' = r_task_spec x \<and> r_budget_usd x' = r_budget_usd x"

lemma same_terms_limits:
  assumes "same_terms x x'"
  shows "row_within x' evs = row_within x evs" and "out_limits x' evs out = out_limits x evs out"
    and "log_within x' evs = log_within x evs" and "phase_limits x' lg ph = phase_limits x lg ph"
proof -
  show r: "row_within x' evs = row_within x evs" for evs
    using assms by (simp add: row_within_def same_terms_def)
  show o: "out_limits x' evs out = out_limits x evs out" for evs out
    using assms by (simp add: out_limits_def r same_terms_def)
  show "log_within x' evs = log_within x evs" using assms by (simp add: log_within_def r same_terms_def)
  show "phase_limits x' lg ph = phase_limits x lg ph"
    using assms by (cases ph) (simp_all add: r o same_terms_def)
qed

lemma grows_run: "grows d d' \<Longrightarrow> find_run r d = Some x \<Longrightarrow> \<exists>x'. find_run r d' = Some x' \<and> same_terms x x'"
  unfolding grows_def same_terms_def by blast

lemma run_limits_same:
  "run_limits d r \<Longrightarrow> grows d d' \<Longrightarrow> run_events d' r = run_events d r \<Longrightarrow> run_limits d' r"
  unfolding run_limits_def using grows_run same_terms_limits(3) by metis

lemma phase_limits_append: "phase_ok lg ph \<Longrightarrow> phase_limits x lg ph \<Longrightarrow> phase_limits x (lg @ new) ph"
  by (cases ph) auto

lemma job_limits_grows: "job_limits d j \<Longrightarrow> job_core d j \<Longrightarrow> grows d d' \<Longrightarrow> job_limits d' j"
proof -
  assume j: "job_limits d j" "job_core d j" and g: "grows d d'"
  from j obtain x where x: "find_run (job_run j) d = Some x" "jb_spec j = r_task_spec x"
    "phase_limits x (run_events d (job_run j)) (jb_phase j)"
    by (auto simp: job_limits_def)
  obtain x' where x': "find_run (job_run j) d' = Some x'" "same_terms x x'" using grows_run [OF g x(1)] by blast
  obtain new where "run_events d' (job_run j) = run_events d (job_run j) @ new"
    using g unfolding grows_def by blast
  with phase_limits_append [OF _ x(3)] j(2) have "phase_limits x (run_events d' (job_run j)) (jb_phase j)"
    by (simp add: job_core_def)
  with x x' same_terms_limits(4) [OF x'(2)] show ?thesis by (auto simp: job_limits_def same_terms_def)
qed

section \<open>Commits\<close>

lemma log_within_snoc:
  assumes "log_within x evs" and "out_limits x evs out" and "out_ok out"
  shows "log_within x (evs @ [committed_event c n out m])"
proof -
  have "acts (commit_payload c out) = acts (so_payload out)" by (simp add: acts_def has_key_def)
  with assms show ?thesis
    by (auto simp: log_within_def out_limits_def committed_event_def nth_append out_ok_def less_Suc_eq)
qed

lemma run_limits_commit:
  assumes lim: "\<And>r. run_limits d r" and core: "db_core d" and g: "grows d d'"
    and c: "commit_step env now c n out d = Inr (d', b)" and n: "n \<le> length (run_events d (cl_run_id c))"
    and x: "find_run (cl_run_id c) d = Some x" "out_limits x (take n (run_events d (cl_run_id c))) out"
    and ok: "out_ok out"
  shows "run_limits d' r"
proof (cases "b \<and> r = cl_run_id c")
  case True
  with c have c': "commit_step env now c n out d = Inr (d', True)" by simp
  note w = commit_step_written [OF c' db_core_gapless [OF core]]
  have "contiguous (cl_run_id c) (run_events d (cl_run_id c))" using core by (simp add: db_core_def)
  with w(2) n have len: "n = length (run_events d (cl_run_id c))" by (simp add: contiguous_key_iff)
  have "log_within x (run_events d (cl_run_id c))"
    using lim [of "cl_run_id c"] x(1) by (auto simp: run_limits_def log_within_def)
  with x(2) ok len have "log_within x (run_events d' r)" by (simp add: w(1) True log_within_snoc)
  with grows_run [OF g x(1)] same_terms_limits(3) True show ?thesis by (auto simp: run_limits_def)
next
  case False
  then have "run_events d' r = run_events d r"
    using commit_step_unwritten [OF c] commit_step_written(1) [OF _ db_core_gapless [OF core], of env now c n out d' r] c
    by (cases b) auto
  with lim g show ?thesis by (rule run_limits_same)
qed

section \<open>The limits are checked before every action\<close>

lemma agent_limits_within:
  assumes "agent_limits (jb_spec j) r evs d = Inr None" and "find_run r d = Some x" and "jb_spec j = r_task_spec x"
    and "\<forall>e \<in> set evs. priced (ev_payload e)"
  shows "row_within x evs"
proof -
  from assms(1,2,3) obtain m where
    m: "py_int (get_default (r_task_spec x) ''max_steps'' (JInt DEFAULT_MAX_STEPS)) = Inr m"
      "check_limits evs (r_budget_usd x) m = Inr None"
    by (auto simp: agent_limits_def run_budget_def bind_result_Inr_iff)
  have "spent_from_events evs = Inr (log_cost evs)"
    using assms(4) by (intro spent_from_events_priced) blast
  with check_limits_NoneD [OF m(2)] m(1) show ?thesis by (auto simp: row_within_def)
qed


section \<open>Every step keeps the limits\<close>

lemma limits_jobs:
  assumes "limits \<lparr>sy_db = d, sy_jobs = js\<rparr>" and "core \<lparr>sy_db = d', sy_jobs = js'\<rparr>" and "spend_ok d'" and "grows d d'"
    and "\<And>r. run_limits d' r" and "\<And>j. j \<in> set js' \<Longrightarrow> j \<notin> set js \<Longrightarrow> job_limits d' j"
  shows "limits \<lparr>sy_db = d', sy_jobs = js'\<rparr>"
proof -
  have "job_limits d' j" if "j \<in> set js'" for j
  proof (cases "j \<in> set js")
    case True
    with assms(1) have "job_limits d j" "job_core d j" by (auto simp: limits_def core_def)
    with job_limits_grows assms(4) show ?thesis by blast
  qed (use that assms(6) in blast)
  with assms(2,3,5) show ?thesis by (simp add: limits_def)
qed

lemma limits_quiet:
  assumes "limits \<lparr>sy_db = d, sy_jobs = js\<rparr>" and "core \<lparr>sy_db = d', sy_jobs = js'\<rparr>" and "spend_ok d'" and "grows d d'"
    and "events d' = events d" and "\<And>j. j \<in> set js' \<Longrightarrow> j \<notin> set js \<Longrightarrow> job_limits d' j"
  shows "limits \<lparr>sy_db = d', sy_jobs = js'\<rparr>"
proof (rule limits_jobs [OF assms(1-4) _ assms(6)])
  show "run_limits d' r" for r
  proof (rule run_limits_same [OF _ assms(4) run_events_cong [OF assms(5)]])
    show "run_limits d r" using assms(1) by (simp add: limits_def)
  qed
qed

text \<open>A job that moves on without touching the log.\<close>

lemma limits_phase:
  assumes "limits \<lparr>sy_db = d, sy_jobs = js1 @ j # js2\<rparr>"
    and "core \<lparr>sy_db = d', sy_jobs = js1 @ j\<lparr>jb_phase := ph\<rparr> # js2\<rparr>" and "spend_ok d'" and "grows d d'"
    and "events d' = events d"
    and "\<And>x. find_run (job_run j) d = Some x \<Longrightarrow> jb_spec j = r_task_spec x \<Longrightarrow>
       phase_limits x (run_events d (job_run j)) (jb_phase j) \<Longrightarrow> phase_limits x (run_events d (job_run j)) ph"
  shows "limits \<lparr>sy_db = d', sy_jobs = js1 @ j\<lparr>jb_phase := ph\<rparr> # js2\<rparr>"
proof (rule limits_quiet [OF assms(1-5)])
  have "job_limits d j" using assms(1) by (simp add: limits_def)
  then obtain x where x: "find_run (job_run j) d = Some x" "jb_spec j = r_task_spec x"
    "phase_limits x (run_events d (job_run j)) ph"
    using assms(6) by (auto simp: job_limits_def)
  obtain x' where x': "find_run (job_run j) d' = Some x'" "same_terms x x'"
    using grows_run [OF assms(4) x(1)] by blast
  have "job_limits d' (j\<lparr>jb_phase := ph\<rparr>)"
    using x x' same_terms_limits(4) [OF x'(2)] run_events_cong [OF assms(5)]
    by (auto simp: job_limits_def same_terms_def)
  then show "y \<in> set (js1 @ j\<lparr>jb_phase := ph\<rparr> # js2) \<Longrightarrow> y \<notin> set (js1 @ j # js2) \<Longrightarrow> job_limits d' y" for y
    by auto
qed

lemma limits_remove:
  assumes "limits \<lparr>sy_db = d, sy_jobs = js1 @ j # js2\<rparr>" and "core \<lparr>sy_db = d, sy_jobs = js1 @ js2\<rparr>"
  shows "limits \<lparr>sy_db = d, sy_jobs = js1 @ js2\<rparr>"
  by (rule limits_quiet [OF assms(1,2) _ grows_refl]) (use assms(1) in \<open>auto simp: limits_def\<close>)

lemma limits_committed:
  assumes lim: "limits \<lparr>sy_db = d, sy_jobs = js1 @ j # js2\<rparr>" and ph: "jb_phase j = Computed n out \<or> jb_phase j = Failing n out"
    and c: "commit_step env now (jb_claim j) n out d = Inr (d', b)" and g: "grows d d'"
  shows "run_limits d' r"
proof -
  have core: "core \<lparr>sy_db = d, sy_jobs = js1 @ j # js2\<rparr>" and jl: "job_limits d j"
    using lim by (simp_all add: limits_def)
  from core_job [OF core] ph have "n \<le> length (run_events d (job_run j))" "out_ok out" by auto
  moreover from jl ph obtain x where "find_run (job_run j) d = Some x"
    "out_limits x (take n (run_events d (job_run j))) out"
    by (auto simp: job_limits_def)
  ultimately show ?thesis
    using run_limits_commit [OF _ _ g c] lim by (auto simp: limits_def core_def)
qed

lemma acts_outcomes:
  "\<not> acts (so_payload (toy_next_step tw c i))" "acts (so_payload (agent_outcome resp obs))"
  "\<not> acts (so_payload (failed_outcome exc_str exc_repr c e))" "\<not> acts (so_payload (stop_outcome stop))"
  by (simp_all add: acts_def has_key_def toy_next_step_def agent_outcome_def failed_outcome_def
      stop_outcome_def Let_def)

lemma out_limits_outcomes:
  "is_kind ''toy'' (r_task_spec x) \<Longrightarrow> out_limits x evs (toy_next_step tw c i)"
  "row_within x evs \<Longrightarrow> out_limits x evs (agent_outcome resp obs)"
  "out_limits x evs (failed_outcome exc_str exc_repr c e)" "out_limits x evs (stop_outcome stop)"
proof -
  show "is_kind ''toy'' (r_task_spec x) \<Longrightarrow> out_limits x evs (toy_next_step tw c i)"
    "row_within x evs \<Longrightarrow> out_limits x evs (agent_outcome resp obs)"
    by (simp_all add: out_limits_def acts_outcomes is_kind_def)
  have "so_final (failed_outcome exc_str exc_repr c e)" "so_cost_usd (failed_outcome exc_str exc_repr c e) = 0"
    "so_final (stop_outcome stop)" "so_cost_usd (stop_outcome stop) = 0"
    by (simp_all add: failed_outcome_def stop_outcome_def)
  then show "out_limits x evs (failed_outcome exc_str exc_repr c e)" "out_limits x evs (stop_outcome stop)"
    by (simp_all add: out_limits_def acts_outcomes)
qed

lemma limits_step:
  assumes "sys_step cf s s'" and "limits s"
  shows "limits s'"
proof -
  have core: "core s" and sp: "spend_ok (sy_db s)" using assms(2) by (simp_all add: limits_def)
  note facts = core_step [OF assms(1) core] sys_step_grows(1) [OF assms(1) core]
    spend_inv.Q_step [OF assms(1) refl core sp]
  have pr: "\<forall>e \<in> set evs. priced (ev_payload e)" if "run_events (sy_db s) r = evs @ new" for r evs new
    using sp that by (auto simp: spend_ok_def) (metis Un_iff set_append)
  from assms(1) facts pr assms(2) show ?thesis
  proof (induction rule: sys_step.induct)
    case (submit now rid tid spec budget d d' js)
    have "events d' = events d" using submit(1) by (auto elim!: submit_run_InrE)
    then show ?case by (intro limits_quiet [OF submit(7)]) (use submit in simp_all)
  next
    case (claim locked now w l d d' c r js)
    have "job_limits d' \<lparr>jb_claim = c, jb_spec = r_task_spec r, jb_phase = Looping\<rparr>"
      using claim(2) by (simp add: job_limits_def)
    then show ?case
      by (intro limits_quiet [OF claim(7)] events_queue(1) [OF claim(1)]) (use claim in auto)
  next
    case (beat now l j d d' b js)
    show ?case by (intro limits_quiet [OF beat(7)] events_queue(2) [OF beat(1)]) (use beat in auto)
  next
    case (reap locked now d d' n js)
    show ?case by (intro limits_quiet [OF reap(6)] events_queue(3) [OF reap(1)]) (use reap in auto)
  next
    case (release j e now backoff d d' b js1 js2)
    show ?case by (intro limits_quiet [OF release(9)] events_queue(4) [OF release(4)]) (use release in auto)
  next
    case (toy j evs tw d js1 js2)
    then show ?case by (intro limits_phase) (simp_all add: out_limits_outcomes)
  next
    case (limit j evs d stop js1 js2)
    then show ?case by (intro limits_phase) (simp_all add: out_limits_outcomes)
  next
    case (cached j evs d key resp js1 js2 obs)
    then obtain new where new: "run_events d (job_run j) = evs @ new"
      using core_job [of d js1 j js2] by (auto simp: limits_def)
    with cached agent_limits_within [OF cached(3)] show ?case
      by (intro limits_phase) (auto intro!: out_limits_outcomes(2))
  next
    case (ask j evs d key d' now js1 js2)
    then obtain new where new: "run_events d (job_run j) = evs @ new"
      using core_job [of d js1 j js2] by (auto simp: limits_def)
    with ask agent_limits_within [OF ask(3)] show ?case by (intro limits_phase) auto
  next
    case (answer j evs key resp d d' js1 js2 obs)
    then obtain new where new: "run_events d (job_run j) = evs @ new"
      using core_job [of d js1 j js2] by (auto simp: limits_def)
    with answer store_response_frame [OF answer(3)] show ?case
      by (intro limits_phase) (auto intro!: out_limits_outcomes(2))
  next
    case (commit j n out now d d' b js1 js2)
    obtain x where "find_run (job_run j) d = Some x" "jb_spec j = r_task_spec x"
      using commit(8) by (auto simp: limits_def job_limits_def)
    with grows_run [of d d' "job_run j" x] commit(5) obtain x' where
      "find_run (job_run j) d' = Some x'" "jb_spec j = r_task_spec x'"
      by (auto simp: same_terms_def)
    with commit show ?case
      by (intro limits_jobs [OF commit(8)] limits_committed [OF commit(8) _ commit(2)]) (auto simp: job_limits_def)
  next
    case (commit_final j n out now d d' b js1 js2)
    then show ?case
      by (intro limits_jobs [OF commit_final(8)] limits_committed [OF commit_final(8) _ commit_final(2)]) auto
  next
    case (fail_commit j n out now d d' b js1 js2)
    then show ?case
      by (intro limits_jobs [OF fail_commit(7)] limits_committed [OF fail_commit(7) _ fail_commit(2)]) auto
  next
    case (give_up j e d js1 js2)
    then show ?case by (intro limits_phase) (simp_all add: out_limits_outcomes)
  next
    case (replay j d js1 js2)
    then show ?case by (intro limits_phase) simp_all
  next
    case (error j d js1 js2 e)
    then show ?case by (intro limits_phase) simp_all
  next
    case (commit_error j n out now d e js1 js2)
    then show ?case by (intro limits_phase) simp_all
  qed (auto intro: limits_remove)
qed

lemma limits_init: "limits init_sys"
proof -
  have e: "run_events empty_db r = []" for r by (simp add: run_events_def empty_db_def)
  then have "run_limits empty_db r" for r by (simp add: run_limits_def)
  moreover have "spend_ok empty_db" by (simp add: spend_ok_def e) (simp add: empty_db_def)
  ultimately show ?thesis using core_init by (simp add: limits_def init_sys_def)
qed

interpretation limits_inv: kept_invariant init_sys "sys_step cf" limits for cf
  by unfold_locales (rule limits_init, rule limits_step)


section \<open>Properties\<close>

lemma reachable_log_within:
  assumes "reachable cf s" and "x \<in> set (runs (sy_db s))"
  shows "log_within x (run_events (sy_db s) (r_id x))"
proof -
  have "limits s" using assms(1) unfolding reachable_def by (rule limits_inv.Inv_reachable)
  then have lim: "run_limits (sy_db s) (r_id x)" and "distinct (map r_id (runs (sy_db s)))"
    by (simp_all add: limits_def core_def db_core_def)
  then have "find_run (r_id x) (sy_db s) = Some x"
    unfolding find_run_def using assms(2) by (intro find_key_unique)
  with lim show ?thesis by (auto simp: run_limits_def log_within_def)
qed

lemma log_within_snocD:
  assumes "log_within x (evs @ [e])"
  shows "log_within x evs" and "acts (ev_payload e) \<Longrightarrow> row_within x evs"
    and "is_kind ''agent'' (r_task_spec x) \<Longrightarrow> acts (ev_payload e) \<or> meta_final (ev_payload e) \<and> cost_of (ev_payload e) = 0"
proof -
  have at: "acts (ev_payload ((evs @ [e]) ! i)) \<longrightarrow> row_within x (take i (evs @ [e]))" if "i < Suc (length evs)" for i
    using assms that by (simp add: log_within_def)
  have "acts (ev_payload (evs ! i)) \<longrightarrow> row_within x (take i evs)" if "i < length evs" for i
    using at [of i] that by (simp add: nth_append)
  with assms show "log_within x evs" by (auto simp: log_within_def)
  show "acts (ev_payload e) \<Longrightarrow> row_within x evs" using at [of "length evs"] by simp
  show "is_kind ''agent'' (r_task_spec x) \<Longrightarrow> acts (ev_payload e) \<or> meta_final (ev_payload e) \<and> cost_of (ev_payload e) = 0"
    using assms by (auto simp: log_within_def)
qed

lemma log_cost_bound:
  assumes "is_kind ''agent'' (r_task_spec x)" and "0 < C"
  shows "log_within x evs \<Longrightarrow> (\<forall>e \<in> set evs. cost_of (ev_payload e) \<le> C) \<Longrightarrow> log_cost evs < max 0 (r_budget_usd x) + C"
proof (induction evs rule: rev_induct)
  case (snoc e evs)
  show ?case
  proof (cases "acts (ev_payload e)")
    case True
    then have "log_cost evs < r_budget_usd x" using log_within_snocD(2) [OF snoc.prems(1)] by (simp add: row_within_def)
    moreover have "cost_of (ev_payload e) \<le> C" using snoc.prems(2) by simp
    ultimately have "log_cost evs + cost_of (ev_payload e) < max 0 (r_budget_usd x) + C" by linarith
    then show ?thesis by (simp add: comp_def)
  next
    case False
    with log_within_snocD(3) [OF snoc.prems(1) assms(1)] have "cost_of (ev_payload e) = 0" by simp
    with snoc.IH [OF log_within_snocD(1) [OF snoc.prems(1)]] snoc.prems(2) show ?thesis by simp
  qed
qed (use assms(2) in simp)

lemma log_length_bound:
  assumes agent: "is_kind ''agent'' (r_task_spec x)" and w: "writers_ok evs" and lim: "log_within x evs"
    and m: "py_int (get_default (r_task_spec x) ''max_steps'' (JInt DEFAULT_MAX_STEPS)) = Inr m"
  shows "int (length evs) \<le> max 0 m + 1"
proof (cases "length evs \<le> 1")
  case False
  then obtain ys a b where evs: "evs = ys @ [a, b]"
    by (metis append_assoc append_Cons append_Nil le_Suc_eq length_append_singleton length_0_conv One_nat_def
        rev_exhaust le_0_eq list.size(3))
  have "\<not> meta_final (ev_payload a)" using w by (simp add: writers_ok_def evs butlast_append)
  moreover have "log_within x (ys @ [a])" using log_within_snocD(1) [of x "ys @ [a]" b] lim by (simp add: evs)
  ultimately have "row_within x ys" using log_within_snocD(2,3) agent by blast
  with m show ?thesis by (auto simp: row_within_def evs)
qed simp

text \<open>
  C8. The limits hold across crashes and takeovers: in every reachable state, fenced or not, every
  event of a log that carries an agent action stands at a point where the events before it cost less
  than the run's budget and were fewer than the step limit of its spec.
\<close>

theorem actions_within_limits:
  assumes "reachable cf s" and "x \<in> set (runs (sy_db s))" and "i < length (read_events (sy_db s) (r_id x))"
    and "has_key ''action'' (ev_payload (read_events (sy_db s) (r_id x) ! i))"
  shows "\<exists>spent m. spent_from_events (take i (read_events (sy_db s) (r_id x))) = Inr spent
    \<and> spent < r_budget_usd x
    \<and> py_int (get_default (r_task_spec x) ''max_steps'' (JInt DEFAULT_MAX_STEPS)) = Inr m \<and> int i < m"
proof -
  let ?evs = "run_events (sy_db s) (r_id x)"
  have "row_within x (take i ?evs)"
    using reachable_log_within [OF assms(1,2)] assms(3,4)
    by (simp add: log_within_def acts_def reachable_read [OF assms(1)])
  moreover have "spent_from_events (take i ?evs) = Inr (log_cost (take i ?evs))"
    using spend_inv.Q_reachable [OF assms(1) refl]
    by (intro spent_from_events_priced) (auto simp: spend_ok_def dest: in_set_takeD)
  ultimately show ?thesis
    using assms(3) by (auto simp: row_within_def reachable_read [OF assms(1)])
qed

theorem actions_within_limits_witness:
  "\<exists>spent m. spent_from_events (take 0 [demo_event]) = Inr spent \<and> spent < 1
    \<and> py_int (get_default demo_spec ''max_steps'' (JInt DEFAULT_MAX_STEPS)) = Inr m \<and> int 0 < m"
proof -
  let ?x = "demo_run Succeeded (35 / 100000) (Some 3)"
  have "has_key ''action'' (ev_payload demo_event)"
    by (simp add: has_key_def demo_event_def demo_outcome_def agent_outcome_def Let_def)
  with actions_within_limits [OF demo_reachable, of ?x 0] show ?thesis
    by (simp add: demo_facts del: take_0)
qed

text \<open>The caps of an agent run, for the properties here and in the API.\<close>

lemma agent_caps:
  assumes "reachable cf s" and "x \<in> set (runs (sy_db s))" and "is_kind ''agent'' (r_task_spec x)"
    and "py_int (get_default (r_task_spec x) ''max_steps'' (JInt DEFAULT_MAX_STEPS)) = Inr m"
    and "\<forall>e \<in> set (read_events (sy_db s) (r_id x)). cost_of (ev_payload e) \<le> C" and "0 < C"
  shows "(\<exists>spent. spent_from_events (read_events (sy_db s) (r_id x)) = Inr spent \<and> spent < max 0 (r_budget_usd x) + C)
    \<and> (fencing_enabled (cf_env cf) \<longrightarrow> int (length (read_events (sy_db s) (r_id x))) \<le> max 0 m + 1)"
proof (intro conjI impI)
  let ?evs = "run_events (sy_db s) (r_id x)"
  have lim: "log_within x ?evs" by (rule reachable_log_within [OF assms(1,2)])
  have "spent_from_events ?evs = Inr (log_cost ?evs)"
    using spend_inv.Q_reachable [OF assms(1) refl] by (intro spent_from_events_priced) (auto simp: spend_ok_def)
  with log_cost_bound [OF assms(3,6) lim] assms(5)
  show "\<exists>spent. spent_from_events (read_events (sy_db s) (r_id x)) = Inr spent \<and> spent < max 0 (r_budget_usd x) + C"
    by (simp add: reachable_read [OF assms(1)])
  assume "fencing_enabled (cf_env cf)"
  then have "writers_ok ?evs" using reachable_writers_ok assms(1) by blast
  from log_length_bound [OF assms(3) this lim assms(4)]
  show "int (length (read_events (sy_db s) (r_id x))) \<le> max 0 m + 1" by (simp add: reachable_read [OF assms(1)])
qed

text \<open>
  C9. Hard caps of an agent run: if no event costs more than \<open>C\<close>, the cost of its whole log stays
  below the budget plus \<open>C\<close> (the overshoot is at most the one call in flight when the cap is reached),
  and with fencing on its log never has more than \<open>max_steps + 1\<close> events.
\<close>

theorem agent_run_capped:
  assumes "reachable cf s" and "x \<in> set (runs (sy_db s))" and "is_kind ''agent'' (r_task_spec x)"
    and "py_int (get_default (r_task_spec x) ''max_steps'' (JInt DEFAULT_MAX_STEPS)) = Inr m"
    and "\<forall>e \<in> set (read_events (sy_db s) (r_id x)). cost_of (ev_payload e) \<le> C" and "0 < C"
  shows "(\<exists>spent. spent_from_events (read_events (sy_db s) (r_id x)) = Inr spent \<and> spent < max 0 (r_budget_usd x) + C)
    \<and> (fencing_enabled (cf_env cf) \<longrightarrow> int (length (read_events (sy_db s) (r_id x))) \<le> max 0 m + 1)"
  by (rule agent_caps [OF assms])

theorem agent_run_capped_witness:
  "(\<exists>spent. spent_from_events [demo_event] = Inr spent \<and> spent < 2) \<and> length [demo_event] \<le> 21"
proof -
  let ?x = "demo_run Succeeded (35 / 100000) (Some 3)"
  have c: "cost_of (ev_payload demo_event) \<le> 1"
    by (simp add: demo_event_def cost_of_def demo_outcome_def agent_outcome_def demo_response_def Let_def)
  have k: "is_kind ''agent'' demo_spec" by (simp add: is_kind_def demo_spec_def)
  have m: "py_int (get_default demo_spec ''max_steps'' (JInt DEFAULT_MAX_STEPS)) = Inr 20"
    by (simp add: demo_spec_def get_default_def py_int_def DEFAULT_MAX_STEPS_def)
  from agent_run_capped [OF demo_reachable, of ?x 20 1] c k m demo_facts(1) show ?thesis
    by (simp add: demo_facts)
qed

end
