(* ===== verification/Workspace.thy ===== *)
theory Workspace
  imports Agent
begin

text \<open>
  What the agent's tools can touch and what a takeover rebuilds. The file tools are confined to the
  workspace whatever path the model asks for, and replaying the events of a run's actions gives the
  same files as executing them did, in a fresh directory of a later attempt.
\<close>

section \<open>Directories\<close>

text \<open>The directory and everything above it exists.\<close>

definition rooted :: "path \<Rightarrow> fs \<Rightarrow> bool" where
  "rooted base fs \<longleftrightarrow> (\<forall>q \<in> set (ancestors base). fs q = Some Dir)"

lemma set_ancestors: "set (ancestors p) = {q. \<exists>r. p = q @ r}"
proof -
  have "q \<in> set (ancestors p)" if "p = q @ r" for q r
    using that by (auto simp: ancestors_def image_iff intro: bexI [of _ "length q"])
  moreover have "\<exists>r. p = q @ r" if "q \<in> set (ancestors p)" for q
    using that by (auto simp: ancestors_def) (metis append_take_drop_id)
  ultimately show ?thesis by blast
qed

lemma is_relative_to_iff: "is_relative_to p base \<longleftrightarrow> (\<exists>q. p = base @ q)"
  by (auto simp: is_relative_to_def) (metis append_take_drop_id)

lemma ancestor_cases:
  "q \<in> set (ancestors (base @ p)) \<Longrightarrow> q \<in> set (ancestors base) \<or> (\<exists>p'. q = base @ p' \<and> p' \<in> set (ancestors p))"
  by (auto simp: set_ancestors append_eq_append_conv2)

lemma ancestors_append: "q \<in> set (ancestors base) \<Longrightarrow> q \<in> set (ancestors (base @ p))"
  by (auto simp: set_ancestors)

lemma rooted_self: "rooted base fs \<Longrightarrow> fs base = Some Dir"
  by (auto simp: rooted_def set_ancestors)

text \<open>The parent of a path inside the workspace is inside it or above it.\<close>

lemma butlast_inside: "is_relative_to p base \<Longrightarrow> p \<noteq> base \<Longrightarrow> is_relative_to (butlast p) base"
  by (auto simp: is_relative_to_iff butlast_append)

lemma butlast_ancestor: "butlast p \<in> set (ancestors p)"
  by (cases p rule: rev_cases) (auto simp: set_ancestors)

lemma mkdir_p_makes:
  assumes "mkdir_p p fs = Inr fs'"
  shows "fs' p = Some Dir"
proof -
  have self: "p \<in> set (ancestors p)" by (auto simp: set_ancestors)
  then have "\<not> is_file (fs p)" using assms by (auto simp: mkdir_p_def list_ex_iff split: if_splits)
  then have "fs p = None \<or> fs p = Some Dir" by (cases "fs p") (auto simp: is_file_def split: node.splits)
  with assms self show ?thesis by (auto simp: mkdir_p_def split: if_splits)
qed

lemma mkdir_p_rooted:
  assumes "mkdir_p p fs = Inr fs'" and "rooted base fs"
  shows "rooted base fs'"
  using assms by (auto simp: mkdir_p_def rooted_def split: if_splits)

lemma mkdir_p_outside:
  assumes "mkdir_p p fs = Inr fs'" and "rooted base fs" and "is_relative_to p base \<or> p \<in> set (ancestors base)"
    and "\<not> is_relative_to q base"
  shows "fs' q = fs q"
proof (cases "q \<in> set (ancestors base)")
  case True
  with assms(1,2) show ?thesis by (auto simp: mkdir_p_def rooted_def split: if_splits)
next
  case False
  have "q \<notin> set (ancestors p)"
  proof
    assume q: "q \<in> set (ancestors p)"
    from assms(3) show False
    proof
      assume "is_relative_to p base"
      with q False assms(4) show False by (auto simp: is_relative_to_iff dest: ancestor_cases)
    next
      assume "p \<in> set (ancestors base)"
      with q False show False by (auto simp: set_ancestors)
    qed
  qed
  with assms(1) show ?thesis by (auto simp: mkdir_p_def split: if_splits)
qed

lemma write_text_outside:
  "write_text p s fs = Inr fs' \<Longrightarrow> q \<noteq> p \<Longrightarrow> fs' q = fs q"
  by (auto simp: write_text_def split: if_splits)

section \<open>Confinement\<close>

text \<open>
  The facts about the system calls the tools rely on: resolving keeps a directory that exists (the
  workspace is not behind a link), and the sandbox changes nothing outside the directory it mounts.
\<close>

definition faithful_resolve :: "agent_env \<Rightarrow> path \<Rightarrow> bool" where
  "faithful_resolve ae base \<longleftrightarrow> (\<forall>fs. rooted base fs \<longrightarrow> ae_resolve ae fs base = base)"

definition confined_sandbox :: "agent_env \<Rightarrow> path \<Rightarrow> bool" where
  "confined_sandbox ae base \<longleftrightarrow> (\<forall>cmd fs q. \<not> is_relative_to q base \<longrightarrow> snd (ae_sandbox ae base cmd fs) q = fs q)"

lemma safe_join_inside:
  assumes "safe_join ae base rel fs = Inr target" and "faithful_resolve ae base" and "rooted base fs"
  shows "is_relative_to target base"
  using assms by (auto simp: safe_join_def faithful_resolve_def Let_def split: json.splits if_splits)

lemma parent_near: "is_relative_to p base \<Longrightarrow> is_relative_to (butlast p) base \<or> butlast p \<in> set (ancestors base)"
  using butlast_inside butlast_ancestor by (cases "p = base") auto

lemma write_file_outside:
  assumes "faithful_resolve ae base" and "rooted base fs" and "\<not> is_relative_to q base"
  shows "snd (write_file_tool ae base args fs) q = fs q"
proof (cases "bind_result (subscript args ''path'') (\<lambda>rel. safe_join ae base rel fs)")
  case (Inr target)
  then have inside: "is_relative_to target base"
    using safe_join_inside [OF _ assms(1,2)] by (auto simp: bind_result_Inr_iff)
  show ?thesis
  proof (cases "mkdir_p (butlast target) fs")
    case mk: (Inr fs1)
    have "fs1 q = fs q" using mkdir_p_outside [OF mk assms(2) parent_near [OF inside] assms(3)] .
    moreover have "q \<noteq> target" using inside assms(3) by auto
    ultimately show ?thesis using Inr mk
      by (auto simp: write_file_tool_def write_text_outside split: sum.splits)
  qed (use Inr in \<open>simp add: write_file_tool_def\<close>)
qed (simp add: write_file_tool_def)

text \<open>
  C14. Confinement: whatever action the model asks for, with whatever arguments, executing it changes no
  file or directory outside the workspace, and neither does any step that fails half way.
\<close>

theorem actions_confined:
  assumes "faithful_resolve ae base" and "confined_sandbox ae base" and "rooted base fs"
    and "\<not> is_relative_to q base"
  shows "snd (execute_action ae base action fs) q = fs q"
proof -
  have "snd (run_code_tool ae base args fs) q = fs q" for args
    using assms(2,4)
    by (auto simp: run_code_tool_def confined_sandbox_def split: sum.splits prod.splits) (metis snd_conv)+
  then have "snd (run_tool ae base action fs) q = fs q"
    using write_file_outside [OF assms(1,3,4)] by (simp add: run_tool_def Let_def)
  then show ?thesis by (auto simp: execute_action_def split: sum.splits prod.splits)
qed


definition sample_fs :: fs where
  "sample_fs = [[] \<mapsto> Dir, [''ws''] \<mapsto> Dir, [''etc''] \<mapsto> File ''secret'']"

theorem actions_confined_witness:
  "snd (execute_action plain_env [''ws''] (write_action ''../etc'' ''x'') sample_fs) [''etc''] = Some (File ''secret'')"
proof -
  have "rooted [''ws''] sample_fs" by (simp add: rooted_def ancestors_def sample_fs_def)
  moreover have "faithful_resolve plain_env [''ws'']" "confined_sandbox plain_env [''ws'']"
    by (simp_all add: faithful_resolve_def confined_sandbox_def plain_env_def)
  moreover have "\<not> is_relative_to [''etc''] [''ws'']" by (simp add: is_relative_to_def)
  ultimately show ?thesis
    using actions_confined [of plain_env "[''ws'']" sample_fs "[''etc'']"] by (simp add: sample_fs_def)
qed

section \<open>Executing actions and replaying their events\<close>

text \<open>
  A run's actions executed one after the other by one attempt, with the events the commits write for
  them; an uncaught exception ends the attempt.
\<close>

fun live_actions :: "agent_env \<Rightarrow> path \<Rightarrow> claim \<Rightarrow> nat \<Rightarrow> llm_response list \<Rightarrow> fs \<Rightarrow> event list \<times> fs" where
  "live_actions ae base c n [] fs = ([], fs)"
| "live_actions ae base c n (r # rs) fs =
     (case execute_action ae base (lr_action r) fs of
        (Inl e, fs1) \<Rightarrow> ([], fs1)
      | (Inr obs, fs1) \<Rightarrow>
          (case live_actions ae base c (Suc n) rs fs1 of
             (evs, fs2) \<Rightarrow> (committed_event c n (agent_outcome r obs) (Suc n) # evs, fs2)))"

text \<open>What the replay relies on: no links, code that writes no files, and file contents that are text.\<close>

definition link_free :: "agent_env \<Rightarrow> bool" where
  "link_free ae \<longleftrightarrow> (\<forall>fs p. ae_resolve ae fs p = p)"

definition writes_nothing :: "agent_env \<Rightarrow> bool" where
  "writes_nothing ae \<longleftrightarrow> (\<forall>base cmd fs. snd (ae_sandbox ae base cmd fs) = fs)"

definition text_content :: "dict \<Rightarrow> bool" where
  "text_content action \<longleftrightarrow> (\<forall>args v. map_of action ''args'' = Some (JObj args) \<longrightarrow>
     map_of args ''content'' = Some v \<longrightarrow> (\<exists>s. v = JStr s))"

text \<open>The files under two directories agree; the second has no directory the first lacks.\<close>

definition agree :: "path \<Rightarrow> fs \<Rightarrow> path \<Rightarrow> fs \<Rightarrow> bool" where
  "agree base1 fs1 base2 fs2 \<longleftrightarrow> rooted base1 fs1 \<and> rooted base2 fs2 \<and>
     (\<forall>q. (\<forall>s. fs1 (base1 @ q) = Some (File s) \<longleftrightarrow> fs2 (base2 @ q) = Some (File s))
        \<and> (fs2 (base2 @ q) = Some Dir \<longrightarrow> fs1 (base1 @ q) = Some Dir))"

lemma safe_join_plain:
  assumes "link_free ae"
  shows "safe_join ae base (JStr s) fs =
      (if path_re_match s \<and> ''..'' \<notin> set (path_parts s) then Inr (base @ path_parts s) else Inl (UnsafePathError s))"
    and "\<forall>s. v \<noteq> JStr s \<Longrightarrow> safe_join ae base v fs = Inl (UnsafePathError (ae_repr ae v))"
  using assms by (auto simp: safe_join_def link_free_def Let_def is_relative_to_def split: json.splits)

lemma ancestors_under: "base @ r \<in> set (ancestors (base @ q)) \<longleftrightarrow> r \<in> set (ancestors q)"
  by (auto simp: set_ancestors)

lemma safe_join_plainE:
  assumes "safe_join ae base rel fs = Inr target" and "link_free ae"
  obtains s where "rel = JStr s" "path_re_match s" "''..'' \<notin> set (path_parts s)" "target = base @ path_parts s"
  using assms by (cases "\<exists>s. rel = JStr s") (auto simp: safe_join_plain split: if_splits)

lemma mkdir_p_under:
  assumes "rooted base fs"
  shows "mkdir_p (base @ q) fs = (if list_ex (\<lambda>r. is_file (fs (base @ r))) (ancestors q) then Inl OSError
      else Inr (\<lambda>p. if p \<in> set (ancestors (base @ q)) \<and> fs p = None then Some Dir else fs p))"
proof -
  have "list_ex (\<lambda>p. is_file (fs p)) (ancestors (base @ q)) \<longleftrightarrow> list_ex (\<lambda>r. is_file (fs (base @ r))) (ancestors q)"
  proof
    assume "list_ex (\<lambda>p. is_file (fs p)) (ancestors (base @ q))"
    then obtain p where "p \<in> set (ancestors (base @ q))" "is_file (fs p)" by (auto simp: list_ex_iff)
    with ancestor_cases [of p base q] assms show "list_ex (\<lambda>r. is_file (fs (base @ r))) (ancestors q)"
      by (auto simp: list_ex_iff rooted_def is_file_def)
  next
    assume "list_ex (\<lambda>r. is_file (fs (base @ r))) (ancestors q)"
    then obtain r where "base @ r \<in> set (ancestors (base @ q))" "is_file (fs (base @ r))"
      by (auto simp: list_ex_iff ancestors_under)
    then show "list_ex (\<lambda>p. is_file (fs p)) (ancestors (base @ q))" unfolding list_ex_iff by blast
  qed
  then show ?thesis by (simp add: mkdir_p_def)
qed

lemma agree_mkdir_live:
  assumes "agree base1 fs1 base2 fs2" and "mkdir_p (base1 @ q) fs1 = Inr fs1'"
  shows "agree base1 fs1' base2 fs2"
  using assms mkdir_p_rooted [OF assms(2)]
  by (fastforce simp: agree_def mkdir_p_under split: if_splits)

lemma agree_mkdir:
  assumes "agree base1 fs1 base2 fs2" and "mkdir_p (base1 @ q) fs1 = Inr fs1'"
  shows "\<exists>fs2'. mkdir_p (base2 @ q) fs2 = Inr fs2' \<and> agree base1 fs1' base2 fs2'"
proof -
  have r: "rooted base1 fs1" "rooted base2 fs2" using assms(1) by (simp_all add: agree_def)
  have "is_file (fs1 (base1 @ r)) = is_file (fs2 (base2 @ r))" for r
    using assms(1) by (force simp: agree_def is_file_def split: option.splits node.splits)
  then have ok: "\<not> list_ex (\<lambda>r. is_file (fs2 (base2 @ r))) (ancestors q)"
    using assms(2) by (simp add: mkdir_p_under [OF r(1)] split: if_splits)
  then obtain fs2' where fs2': "mkdir_p (base2 @ q) fs2 = Inr fs2'"
    "fs2' = (\<lambda>p. if p \<in> set (ancestors (base2 @ q)) \<and> fs2 p = None then Some Dir else fs2 p)"
    by (simp add: mkdir_p_under [OF r(2)])
  have fs1': "fs1' = (\<lambda>p. if p \<in> set (ancestors (base1 @ q)) \<and> fs1 p = None then Some Dir else fs1 p)"
    using assms(2) by (auto simp: mkdir_p_under [OF r(1)] split: if_splits)
  have nofile: "fs1 (base1 @ r) \<noteq> Some (File s)" if "r \<in> set (ancestors q)" for r s
    using assms(2) that by (auto simp: mkdir_p_under [OF r(1)] list_ex_iff is_file_def split: if_splits)
  have "(\<forall>s. fs1' (base1 @ r) = Some (File s) \<longleftrightarrow> fs2' (base2 @ r) = Some (File s))
      \<and> (fs2' (base2 @ r) = Some Dir \<longrightarrow> fs1' (base1 @ r) = Some Dir)" for r
  proof (cases "r \<in> set (ancestors q)")
    case True
    then have "fs1' (base1 @ r) = Some Dir"
      using nofile [OF True] by (cases "fs1 (base1 @ r)") (auto simp: fs1' ancestors_under intro: node.exhaust)
    moreover have "\<And>s. fs2 (base2 @ r) \<noteq> Some (File s)" using assms(1) nofile [OF True] by (simp add: agree_def)
    ultimately show ?thesis by (auto simp: fs2'(2) split: if_splits)
  next
    case False
    with assms(1) show ?thesis by (auto simp: fs1' fs2'(2) ancestors_under agree_def)
  qed
  then show ?thesis
    using fs2'(1) mkdir_p_rooted [OF fs2'(1) r(2)] mkdir_p_rooted [OF assms(2) r(1)] by (auto simp: agree_def)
qed

lemma agree_write:
  assumes "agree base1 fs1 base2 fs2" and "write_text (base1 @ q) s fs1 = Inr fs1'" and "q \<noteq> []"
    and "fs2 (base2 @ butlast q) = Some Dir"
  shows "\<exists>fs2'. write_text (base2 @ q) s fs2 = Inr fs2' \<and> agree base1 fs1' base2 fs2'"
proof -
  have fs1': "fs1' = fs1(base1 @ q \<mapsto> File s)" "fs1 (base1 @ q) \<noteq> Some Dir"
    using assms(2) by (auto simp: write_text_def split: if_splits)
  then have "fs2 (base2 @ q) \<noteq> Some Dir" using assms(1) by (auto simp: agree_def)
  then have w: "write_text (base2 @ q) s fs2 = Inr (fs2(base2 @ q \<mapsto> File s))"
    using assms(3,4) by (simp add: write_text_def butlast_append)
  have "base1 @ q \<notin> set (ancestors base1)" "base2 @ q \<notin> set (ancestors base2)"
    using assms(3) by (auto simp: set_ancestors)
  then have "rooted base1 fs1'" "rooted base2 (fs2(base2 @ q \<mapsto> File s))"
    using assms(1) by (auto simp: agree_def rooted_def fs1'(1))
  with assms(1) w show ?thesis by (auto simp: agree_def fs1'(1))
qed


lemma event_fields:
  "get_default (ev_payload (committed_event c n (agent_outcome r obs) m)) ''action'' (JObj []) = JObj (lr_action r)"
  "get_default (ev_payload (committed_event c n (agent_outcome r obs) m)) ''observation'' (JObj []) = JObj obs"
  by (simp_all add: committed_event_def get_default_def agent_outcome_def Let_def)

text \<open>A live write that succeeds is replayed with the same effect.\<close>

lemma write_file_tool_InrE:
  assumes "write_file_tool ae base args fs = (Inr obs, fs')" and "link_free ae"
  obtains d s fs1 v where "args = JObj d" "map_of d ''path'' = Some (JStr s)" "path_re_match s"
    "''..'' \<notin> set (path_parts s)" "mkdir_p (butlast (base @ path_parts s)) fs = Inr fs1"
    "map_of d ''content'' = Some v" "write_text (base @ path_parts s) (py_str ae v) fs1 = Inr fs'"
    "obs = [(''ok'', JBool True)]"
proof -
  from assms(1) obtain target rel fs1 v where t: "subscript args ''path'' = Inr rel" "safe_join ae base rel fs = Inr target"
    "mkdir_p (butlast target) fs = Inr fs1" "subscript args ''content'' = Inr v"
    "write_text target (py_str ae v) fs1 = Inr fs'" "obs = [(''ok'', JBool True)]"
    by (auto simp: write_file_tool_def bind_result_Inr_iff split: sum.splits)
  from t(2) assms(2) obtain s where "rel = JStr s" "path_re_match s" "''..'' \<notin> set (path_parts s)"
    "target = base @ path_parts s"
    by (rule safe_join_plainE)
  with t that show ?thesis by (auto simp: subscript_def dict_item_def split: json.splits option.splits)
qed

lemma replay_write:
  assumes ag: "agree base1 fs1 base2 fs2" and free: "link_free ae" and cont: "text_content (lr_action r)"
    and tool: "map_of (lr_action r) ''tool'' = Some (JStr ''write_file'')"
    and live: "write_file_tool ae base1 (get_default (lr_action r) ''args'' (JObj [])) fs1 = (Inr obs, fs1')"
  shows "\<exists>fs2'. replay_event ae base2 (committed_event c n (agent_outcome r obs) m) fs2 = Inr fs2' \<and> agree base1 fs1' base2 fs2'"
proof -
  from live free obtain d s fsa v where w: "get_default (lr_action r) ''args'' (JObj []) = JObj d"
    "map_of d ''path'' = Some (JStr s)" "path_re_match s" "''..'' \<notin> set (path_parts s)"
    "mkdir_p (butlast (base1 @ path_parts s)) fs1 = Inr fsa" "map_of d ''content'' = Some v"
    "write_text (base1 @ path_parts s) (py_str ae v) fsa = Inr fs1'" "obs = [(''ok'', JBool True)]"
    by (rule write_file_tool_InrE)
  have args: "map_of (lr_action r) ''args'' = Some (JObj d)"
    using w(1,2) by (cases "map_of (lr_action r) ''args''") (auto simp: get_default_def)
  then obtain t where v: "v = JStr t" using cont w(6) by (auto simp: text_content_def)
  have r1: "rooted base1 fs1" using ag by (simp add: agree_def)
  have parts: "path_parts s \<noteq> []"
  proof
    assume "path_parts s = []"
    moreover from this have "fsa base1 = Some Dir"
      using w(5) rooted_self [OF mkdir_p_rooted [OF _ r1]] by blast
    ultimately show False using w(7) by (simp add: write_text_def)
  qed
  then have bl: "butlast (base @ path_parts s) = base @ butlast (path_parts s)" for base by (simp add: butlast_append)
  from agree_mkdir [OF ag w(5) [unfolded bl]] obtain fsb where
    fsb: "mkdir_p (base2 @ butlast (path_parts s)) fs2 = Inr fsb" "agree base1 fsa base2 fsb" by blast
  have "fsb (base2 @ butlast (path_parts s)) = Some Dir" by (rule mkdir_p_makes [OF fsb(1)])
  from agree_write [OF fsb(2) _ parts this] w(7) obtain fs2' where
    "write_text (base2 @ path_parts s) t fsb = Inr fs2'" "agree base1 fs1' base2 fs2'"
    by (auto simp: v py_str_def)
  moreover have "replay_event ae base2 (committed_event c n (agent_outcome r obs) m) fs2
      = write_text (base2 @ path_parts s) t fsb"
    using tool args w(2,3,4,6) free fsb(1)
    by (simp add: replay_event_def event_fields as_dict_def contains_error_def w(8) has_key_def dict_item_def
        subscript_def safe_join_plain(1) bl v)
  ultimately show ?thesis by simp
qed

text \<open>A live write that raised leaves at most empty directories behind.\<close>

lemma failed_write:
  assumes ag: "agree base1 fs1 base2 fs2" and free: "link_free ae"
    and live: "write_file_tool ae base1 args fs1 = (Inl e, fs1')" and caught: "caught e"
  shows "agree base1 fs1' base2 fs2"
proof (cases "bind_result (subscript args ''path'') (\<lambda>rel. safe_join ae base1 rel fs1)")
  case (Inl e')
  with live ag show ?thesis by (simp add: write_file_tool_def)
next
  case (Inr target)
  then obtain p where target: "target = base1 @ p"
    using free by (auto simp: bind_result_Inr_iff elim!: safe_join_plainE)
  show ?thesis
  proof (cases "mkdir_p (butlast target) fs1")
    case (Inl e')
    with Inr live ag show ?thesis by (simp add: write_file_tool_def)
  next
    case mk: (Inr fsa)
    have "fs1' = fsa"
      using live Inr mk by (auto simp: write_file_tool_def split: sum.splits)
    moreover have "agree base1 fsa base2 fs2"
    proof (cases "p = []")
      case False
      with agree_mkdir_live [OF ag] mk target show ?thesis by (simp add: butlast_append)
    next
      case True
      have "rooted base1 fs1" using ag by (simp add: agree_def)
      have "fsa = fs1"
      proof
        fix q
        have "q \<in> set (ancestors (butlast base1)) \<Longrightarrow> q \<in> set (ancestors base1)"
          using butlast_ancestor [of base1] by (auto simp: set_ancestors)
        then show "fsa q = fs1 q"
          using mk True target \<open>rooted base1 fs1\<close> by (auto simp: mkdir_p_def rooted_def split: if_splits)
      qed
      with ag show ?thesis by simp
    qed
    ultimately show ?thesis by simp
  qed
qed


lemma other_tools:
  assumes "writes_nothing ae" and "get_default action ''tool'' JNull \<noteq> JStr ''write_file''"
    and "run_tool ae base action fs = (res, fs')"
  shows "fs' = fs"
proof -
  have "snd (run_code_tool ae base args fs) = fs" for args
    using assms(1) by (auto simp: run_code_tool_def writes_nothing_def split: sum.splits prod.splits) (metis snd_conv)+
  then have "snd (run_tool ae base action fs) = fs" using assms(2) by (simp add: run_tool_def Let_def)
  with assms(3) show ?thesis by simp
qed

lemma replay_action:
  assumes ag: "agree base1 fs1 base2 fs2" and free: "link_free ae" and quiet: "writes_nothing ae"
    and cont: "text_content (lr_action r)" and live: "execute_action ae base1 (lr_action r) fs1 = (Inr obs, fs1')"
  shows "\<exists>fs2'. replay_event ae base2 (committed_event c n (agent_outcome r obs) m) fs2 = Inr fs2' \<and> agree base1 fs1' base2 fs2'"
proof (cases "map_of (lr_action r) ''tool'' = Some (JStr ''write_file'')")
  case True
  then have rt: "run_tool ae base1 (lr_action r) fs1 = write_file_tool ae base1 (get_default (lr_action r) ''args'' (JObj [])) fs1"
    by (simp add: run_tool_def get_default_def Let_def)
  show ?thesis
  proof (cases "run_tool ae base1 (lr_action r) fs1")
    case (Pair res fsx)
    show ?thesis
    proof (cases res)
      case (Inr obs')
      with live Pair have "obs' = obs" "fsx = fs1'" by (simp_all add: execute_action_def)
      with Pair Inr rt replay_write [OF ag free cont True] show ?thesis by simp
    next
      case (Inl e)
      with live Pair have e: "caught e" "obs = [(''error'', JStr (ae_exc_str ae e))]" "fsx = fs1'"
        by (auto simp: execute_action_def split: if_splits)
      have "agree base1 fs1' base2 fs2" using failed_write [OF ag free _ e(1)] Pair Inl rt e(3) by simp
      moreover have "replay_event ae base2 (committed_event c n (agent_outcome r obs) m) fs2 = Inr fs2"
        using True by (simp add: replay_event_def event_fields as_dict_def contains_error_def e(2) has_key_def)
      ultimately show ?thesis by blast
    qed
  qed
next
  case False
  obtain res fsx where run: "run_tool ae base1 (lr_action r) fs1 = (res, fsx)" by force
  with live have "fs1' = fsx" by (cases res) (auto simp: execute_action_def split: if_splits)
  moreover have "get_default (lr_action r) ''tool'' JNull \<noteq> JStr ''write_file''"
    using False by (auto simp: get_default_def split: option.splits)
  ultimately have "fs1' = fs1" using other_tools [OF quiet _ run] by simp
  moreover have "replay_event ae base2 (committed_event c n (agent_outcome r obs) m) fs2 = Inr fs2"
    using False by (simp add: replay_event_def event_fields as_dict_def)
  ultimately show ?thesis using ag by blast
qed

lemma replay_actions:
  assumes "link_free ae" and "writes_nothing ae"
  shows "live_actions ae base1 c n rs fs1 = (evs, fs1') \<Longrightarrow> agree base1 fs1 base2 fs2 \<Longrightarrow>
    (\<forall>r \<in> set rs. text_content (lr_action r)) \<Longrightarrow> length evs = length rs \<Longrightarrow>
    \<exists>fs2'. replay_files ae base2 evs fs2 = (Inr (), fs2') \<and> agree base1 fs1' base2 fs2'"
proof (induction rs arbitrary: n fs1 fs2 evs)
  case (Cons r rs)
  obtain res fsx where ex: "execute_action ae base1 (lr_action r) fs1 = (res, fsx)" by force
  with Cons.prems(1,4) obtain obs where "res = Inr obs" by (cases res) auto
  with ex have ex: "execute_action ae base1 (lr_action r) fs1 = (Inr obs, fsx)" by simp
  obtain evs' where rest: "live_actions ae base1 c (Suc n) rs fsx = (evs', fs1')"
    "evs = committed_event c n (agent_outcome r obs) (Suc n) # evs'"
    using Cons.prems(1) ex by (auto split: prod.splits)
  obtain fs2a where a: "replay_event ae base2 (committed_event c n (agent_outcome r obs) (Suc n)) fs2 = Inr fs2a"
    "agree base1 fsx base2 fs2a"
    using replay_action [OF Cons.prems(2) assms _ ex] Cons.prems(3) by fastforce
  have "length evs' = length rs" "\<forall>r \<in> set rs. text_content (lr_action r)"
    using Cons.prems(3,4) rest(2) by simp_all
  from Cons.IH [OF rest(1) a(2) this(2,1)] a(1) rest(2) show ?case by simp
qed simp

text \<open>A file system in which nothing lies below a path that does not exist.\<close>

definition wf_fs :: "fs \<Rightarrow> bool" where
  "wf_fs fs \<longleftrightarrow> (\<forall>p q. fs p = None \<longrightarrow> fs (p @ q) = None)"

lemma fresh_workspace:
  assumes "wf_fs fs" and "materialize_workspace ae base [] fs = (Inr (), fs')"
  shows "rooted base fs'" and "fs' (base @ q) = (if q = [] then Some Dir else None)"
proof -
  define fs1 where "fs1 = (if fs base \<noteq> None then rmtree base fs else fs)"
  have mk: "mkdir_p base fs1 = Inr fs'"
    using assms(2) by (auto simp: materialize_workspace_def Let_def fs1_def split: sum.splits)
  have none: "fs1 (base @ q) = None" for q
    using assms(1) by (auto simp: fs1_def rmtree_def is_relative_to_def wf_fs_def)
  show "fs' (base @ q) = (if q = [] then Some Dir else None)"
  proof (cases "q = []")
    case True
    with mkdir_p_makes [OF mk] show ?thesis by simp
  next
    case False
    then have "base @ q \<notin> set (ancestors base)" by (auto simp: set_ancestors)
    with mk none [of q] False show ?thesis by (auto simp: mkdir_p_def split: if_splits)
  qed
  have "\<not> is_file (fs1 p)" if "p \<in> set (ancestors base)" for p
    using mk that by (auto simp: mkdir_p_def list_ex_iff split: if_splits)
  moreover have "n = None \<or> n = Some Dir" if "\<not> is_file n" for n
    using that by (cases n) (auto simp: is_file_def split: node.splits)
  ultimately have dir: "fs1 p = None \<or> fs1 p = Some Dir" if "p \<in> set (ancestors base)" for p
    using that by blast
  have "fs' = (\<lambda>q. if q \<in> set (ancestors base) \<and> fs1 q = None then Some Dir else fs1 q)"
    using mk by (auto simp: mkdir_p_def split: if_splits)
  then show "rooted base fs'" unfolding rooted_def using dir by fastforce
qed


definition sample_responses :: "llm_response list" where
  "sample_responses = map (\<lambda>a. \<lparr>lr_action = a, lr_input_tokens = 1, lr_output_tokens = 1, lr_cost_usd = 0\<rparr>)
     [write_action ''pkg/a.py'' ''x'', write_action ''../b'' ''y'', finish_action ''ok'']"


end
