(* ===== verification/Refinement.thy ===== *)
theory Refinement
  imports Safety
begin

text \<open>
  What a client of the platform may assume, as an abstract machine: every run is a status and a log, and
  there are only four steps: a run appears, starts, logs a step, or logs its last step and ends. Leases,
  attempts, workers, crashes, zombies, the cache and the clocks are gone. The theory proves that with
  fencing on the platform of \<open>System\<close> refines this machine under the abstraction \<open>lives\<close>.
\<close>

section \<open>The abstract machine\<close>

record life =
  lf_status :: run_status
  lf_log :: "event list"

text \<open>What an appended event has to look like: the next step of this run, by no older attempt than the last.\<close>

definition next_event :: "uuid \<Rightarrow> event list \<Rightarrow> event \<Rightarrow> bool" where
  "next_event r evs e \<longleftrightarrow> ev_run_id e = r \<and> ev_seq e = Suc (length evs) \<and> ev_idem_key e = step_key r (length evs)
     \<and> (\<forall>x \<in> set evs. meta_attempt (ev_payload x) \<le> meta_attempt (ev_payload e) \<and> \<not> meta_final (ev_payload x))"

inductive life_step :: "(uuid \<Rightarrow> life option) \<Rightarrow> (uuid \<Rightarrow> life option) \<Rightarrow> bool" where
  appear: "A r = None \<Longrightarrow> life_step A (A(r \<mapsto> \<lparr>lf_status = Pending, lf_log = []\<rparr>))"
| start: "A r = Some \<lparr>lf_status = Pending, lf_log = evs\<rparr> \<Longrightarrow>
    life_step A (A(r \<mapsto> \<lparr>lf_status = Running, lf_log = evs\<rparr>))"
| log_step: "A r = Some \<lparr>lf_status = st, lf_log = evs\<rparr> \<Longrightarrow> st \<notin> set TERMINAL \<Longrightarrow> next_event r evs e \<Longrightarrow>
    \<not> meta_final (ev_payload e) \<Longrightarrow> life_step A (A(r \<mapsto> \<lparr>lf_status = st, lf_log = evs @ [e]\<rparr>))"
| finish: "A r = Some \<lparr>lf_status = st, lf_log = evs\<rparr> \<Longrightarrow> st \<notin> set TERMINAL \<Longrightarrow> next_event r evs e \<Longrightarrow>
    meta_final (ev_payload e) \<Longrightarrow> st' \<in> set TERMINAL \<Longrightarrow>
    life_step A (A(r \<mapsto> \<lparr>lf_status = st', lf_log = evs @ [e]\<rparr>))"

definition lives :: "db \<Rightarrow> uuid \<Rightarrow> life option" where
  "lives d r = map_option (\<lambda>x. \<lparr>lf_status = r_status x, lf_log = read_events d r\<rparr>) (find_run r d)"

section \<open>The simulation\<close>

lemma lives_core: "db_core d \<Longrightarrow>
    lives d r = map_option (\<lambda>x. \<lparr>lf_status = r_status x, lf_log = run_events d r\<rparr>) (find_run r d)"
  by (simp add: lives_def read_events_gapless [OF db_core_gapless])

lemma lives_same: "runs d' = runs d \<Longrightarrow> events d' = events d \<Longrightarrow> lives d' = lives d"
  by (simp add: fun_eq_iff lives_def find_run_def read_events_def run_events_def)

lemma lives_submit:
  assumes "db_core d" and "submit_run now rid tid spec budget d = Inr (d', rid')"
  shows "life_step (lives d) (lives d')"
proof -
  from assms(2) obtain b where new: "rid \<notin> r_id ` set (runs d)" "d' = d\<lparr>runs := runs d @ [\<lparr>r_id = rid, r_task_spec = spec,
        r_status = Pending, r_budget_usd = b, r_spent_usd = 0, r_created_at = now, r_finished_at = None\<rparr>],
      tasks := tasks d @ [\<lparr>t_id = tid, t_run_id = rid, t_status = Queued, t_lease_owner = None,
        t_lease_expires_at = None, t_attempt = 0, t_available_at = now\<rparr>]\<rparr>"
    by (rule submit_run_InrE)
  have none: "List.find (\<lambda>x. r_id x = rid) (runs d) = None" using new(1) by (auto simp: find_None_iff)
  have "rid \<notin> t_run_id ` set (tasks d)" using new(1) assms(1) by (auto simp: db_core_def)
  then have empty: "run_events d rid = []" using assms(1) unfolding db_core_def by metis
  have "lives d' = (lives d)(rid \<mapsto> \<lparr>lf_status = Pending, lf_log = []\<rparr>)"
    using none empty
    by (auto simp: fun_eq_iff lives_def find_run_def find_append read_events_def new(2) table_simps split: option.split)
  moreover have "lives d rid = None" using none by (simp add: lives_def find_run_def)
  ultimately show ?thesis by (simp add: life_step.appear)
qed

lemma lives_claim:
  assumes "db_core d" and "claim_task locked now w l d = (d', Some c)"
  shows "life_step\<^sup>=\<^sup>= (lives d) (lives d')"
proof -
  from assms(2) obtain row where row: "row \<in> set (tasks d)" "d' = claimed_db row w (now + l) d" by (rule claim_task_SomeE)
  let ?r = "t_run_id row"
  have ev: "read_events d' r = read_events d r" for r by (simp add: row(2) claimed_db_def read_events_def run_events_def)
  obtain x where x: "find_run ?r d = Some x" "r_id x = ?r" "x \<in> set (runs d)"
  proof -
    have "?r \<in> r_id ` set (runs d)" using assms(1) row(1) by (auto simp: db_core_def)
    then obtain x where "x \<in> set (runs d)" "r_id x = ?r" by auto
    moreover from this have "find_run ?r d = Some x"
      using assms(1) find_key_unique [of r_id "runs d" x] by (simp add: find_run_def db_core_def)
    ultimately show ?thesis using that by blast
  qed
  have run: "find_run r d' = (if r = ?r \<and> r_status x = Pending then Some (x\<lparr>r_status := Running\<rparr>) else find_run r d)" for r
  proof (cases "find_run r d")
    case (Some y)
    then have "r_id y = r" using find_SomeD [OF Some [unfolded find_run_def]] by simp
    with Some x show ?thesis by (auto simp: find_run_def row(2) claimed_db_def find_sql_update)
  next
    case None
    with x show ?thesis by (auto simp: find_run_def row(2) claimed_db_def find_sql_update)
  qed
  show ?thesis
  proof (cases "r_status x = Pending")
    case True
    have "lives d' = (lives d)(?r \<mapsto> \<lparr>lf_status = Running, lf_log = read_events d ?r\<rparr>)"
      using True by (simp add: fun_eq_iff lives_def run ev)
    moreover have "lives d ?r = Some \<lparr>lf_status = Pending, lf_log = read_events d ?r\<rparr>" using x True by (simp add: lives_def)
    ultimately show ?thesis by (simp add: life_step.start)
  next
    case False
    then have "lives d' = lives d" by (simp add: fun_eq_iff lives_def run ev)
    then show ?thesis by simp
  qed
qed

lemma lives_commits:
  assumes core: "db_core d" and c: "commits env d d' now c out" and fence: "fencing_enabled env"
    and "fenced d" and "status_ok d" and core': "db_core d'"
  shows "life_step (lives d) (lives d')"
proof -
  let ?r = "cl_run_id c" and ?evs = "run_events d (cl_run_id c)"
  let ?e = "committed_event c (length ?evs) out (Suc (length ?evs))"
  note w = commits_written [OF c core]
  obtain t where t: "t \<in> set (tasks d)" "t_run_id t = ?r" "t_attempt t = cl_attempt c" "t_status t = Leased"
    using commits_task [OF c core] fence by metis
  have "t_run_id t \<in> r_id ` set (runs d)" using core t(1) by (auto simp: db_core_def)
  then have "?r \<in> r_id ` set (runs d)" by (simp add: t(2))
  then obtain x where x: "x \<in> set (runs d)" "r_id x = ?r" by auto
  have fx: "find_run ?r d = Some x"
    using x core find_key_unique [of r_id "runs d" x] by (simp add: find_run_def db_core_def)
  have open_run: "r_status x \<notin> set TERMINAL"
    using assms(5) t x by (auto simp: status_ok_def status_match_def)
  have log: "fenced_log t ?evs" using assms(4) t(1,2) by (auto simp: fenced_def)
  then have nxt: "next_event ?r ?evs ?e"
    using t(3,4) by (auto simp: next_event_def committed_event_def fenced_log_def)
  have out: "so_final out \<Longrightarrow> so_final_status out \<in> set TERMINAL"
    using c by (auto simp: out_ok_def elim!: commits.cases)
  have now: "lives d ?r = Some \<lparr>lf_status = r_status x, lf_log = ?evs\<rparr>" by (simp add: lives_core [OF core] fx)
  have run: "find_run r d' = map_option (\<lambda>y. if r = ?r then
      (let z = y\<lparr>r_spent_usd := numeric_round 6 (r_spent_usd y + so_cost_usd out)\<rparr> in
       if so_final out then z\<lparr>r_status := so_final_status out, r_finished_at := Some now\<rparr> else z) else y) (find_run r d)" for r
  proof (cases "find_run r d")
    case (Some y)
    then have "r_id y = r" using find_SomeD [OF Some [unfolded find_run_def]] by simp
    with Some [unfolded find_run_def] show ?thesis
      by (cases "so_final out"; cases "r = ?r") (simp_all add: find_run_def w(3) spend_rows_def find_sql_update Let_def)
  next
    case None
    then show ?thesis by (simp add: find_run_def w(3) spend_rows_def find_sql_update)
  qed
  have "lives d' = (lives d)(?r \<mapsto> \<lparr>lf_status = (if so_final out then so_final_status out else r_status x), lf_log = ?evs @ [?e]\<rparr>)"
    by (rule ext) (simp add: lives_core [OF core] lives_core [OF core'] run w(1) fx option.map_comp comp_def Let_def)
  moreover have "meta_final (ev_payload ?e) = so_final out" by (simp add: committed_event_def)
  ultimately show ?thesis
    using life_step.log_step [of "lives d" ?r, OF now open_run nxt] life_step.finish [of "lives d" ?r, OF now open_run nxt] out
    by (cases "so_final out") auto
qed

lemma lives_op:
  assumes "db_op env d d'" and "db_core d" and "fencing_enabled env" and "fenced d" and "status_ok d"
  shows "life_step\<^sup>=\<^sup>= (lives d) (lives d')"
  using assms
proof (induction rule: db_op.induct)
  case (op_submit now rid tid spec budget d d')
  with lives_submit show ?case by blast
next
  case (op_claim locked now w l d d' c)
  with lives_claim show ?case by blast
next
  case (op_heartbeat now l c d d' b)
  then show ?case using lives_same [of d' d] by (auto simp: heartbeat_def)
next
  case (op_reap locked now d d' n)
  then show ?case using lives_same [of d' d] by (auto simp: reap_expired_def Let_def)
next
  case (op_release now backoff c d d' b)
  then show ?case using lives_same [of d' d] by (auto simp: release_task_def)
next
  case (op_log_call d' now rid i k a w d)
  then show ?case using lives_same [of d' d] by simp
next
  case (op_store k resp d d')
  with store_response_frame [OF op_store(1)] lives_same [of d' d] show ?case by simp
next
  case (op_commit now c n out d d' b)
  show ?case
  proof (cases b)
    case True
    with op_commit(1) have "commit_step env now c n out d = Inr (d', True)" by simp
    from commit_commits [OF this op_commit(2-5)] show ?thesis
      using lives_commits op_commit(5-8) db_core_op [OF db_op.op_commit [OF op_commit(1-4)] op_commit(5)] by blast
  next
    case False
    from commit_step_unwritten [OF op_commit(1) False] show ?thesis by simp
  qed
qed

lemma lives_sys_step:
  assumes "reachable cf s" and "fencing_enabled (cf_env cf)" and "sys_step cf s s'"
  shows "life_step\<^sup>=\<^sup>= (lives (sy_db s)) (lives (sy_db s'))"
  using sys_step_op [OF assms(3) reachable_core [OF assms(1)]]
proof
  assume "db_op (cf_env cf) (sy_db s) (sy_db s')"
  from lives_op [OF this reachable_db_core [OF assms(1)] assms(2) reachable_fenced [OF assms(1,2)]
      status_inv.Q_reachable [OF assms(1) refl]]
  show ?thesis .
qed simp

section \<open>Property\<close>

text \<open>
  C1. With fencing on, the platform refines the abstract machine: whatever its workers do, every reachable
  database is, seen as statuses and logs, a state the machine can reach from no runs, and every further
  step of the platform is one step of the machine or invisible.
\<close>

theorem platform_refines_lives:
  assumes "reachable cf s" and "fencing_enabled (cf_env cf)"
  shows "life_step\<^sup>*\<^sup>* (\<lambda>_. None) (lives (sy_db s))
    \<and> (\<forall>s'. sys_step cf s s' \<longrightarrow> lives (sy_db s') = lives (sy_db s) \<or> life_step (lives (sy_db s)) (lives (sy_db s')))"
proof
  show "life_step\<^sup>*\<^sup>* (\<lambda>_. None) (lives (sy_db s))"
    using assms(1) unfolding reachable_def
  proof (induction rule: rtranclp_induct)
    case base
    then show ?case by (simp add: lives_def find_run_def init_sys_def empty_db_def)
  next
    case (step s1 s2)
    from lives_sys_step [OF _ assms(2) step(2)] step(1,3) show ?case by (auto simp: reachable_def)
  qed
  show "\<forall>s'. sys_step cf s s' \<longrightarrow> lives (sy_db s') = lives (sy_db s) \<or> life_step (lives (sy_db s)) (lives (sy_db s'))"
    using lives_sys_step [OF assms] by (metis sup2E)
qed

theorem platform_refines_lives_witness:
  "life_step\<^sup>*\<^sup>* (\<lambda>_. None) (lives demo_finished)
   \<and> lives demo_finished ''r'' = Some \<lparr>lf_status = Succeeded, lf_log = [demo_event]\<rparr>"
proof
  show "life_step\<^sup>*\<^sup>* (\<lambda>_. None) (lives demo_finished)"
    using platform_refines_lives [OF demo_reachable demo_facts(1)] by (simp add: demo_final_def)
  have "read_events demo_finished ''r'' = [demo_event]"
    by (simp add: read_events_def run_events_def demo_finished_def demo_answered_def demo_event_def)
  then show "lives demo_finished ''r'' = Some \<lparr>lf_status = Succeeded, lf_log = [demo_event]\<rparr>"
    by (simp add: lives_def find_run_def demo_finished_def)
qed

end
