(* ===== verification/Worker.thy ===== *)
theory Worker
  imports Agent
begin

text \<open>
  The rest of \<open>src/phoenix/engine.py\<close>: choosing the provider and the workflow of a run
  (\<open>_provider_for\<close>, \<open>workflow_for\<close>), \<open>execute_task\<close>, the heartbeat loop, and one turn of
  \<open>run_worker\<close>. What the real providers' constructor returns is a parameter; so is what other workers
  do to the database between two heartbeats.
\<close>

section \<open>Providers and workflows\<close>

record EngineContext =
  ec_provider :: "provider option"
  ec_workspace_root :: path

datatype workflow = Toy ToyWorkflow | Agent AgentWorkflow

text \<open>
  The inline script of a spec. A script that is no list of dicts fails when it is used; the model lets
  \<open>complete\<close> raise then.
\<close>

definition script_of :: "json \<Rightarrow> dict list result" where
  "script_of v = (case v of JList xs \<Rightarrow> map_result as_dict xs | _ \<Rightarrow> Inl TypeError)"

definition inline_provider :: "json \<Rightarrow> provider" where
  "inline_provider v = \<lparr>pv_name = ''mock'',
     pv_complete = \<lambda>messages. bind_result (script_of v) (\<lambda>script. mock_complete script messages)\<rparr>"

definition provider_for :: "environ \<Rightarrow> provider result \<Rightarrow> dict \<Rightarrow> EngineContext \<Rightarrow> provider result" where
  "provider_for env real_p spec ctx =
     (case ec_provider ctx of
        Some p \<Rightarrow> Inr p
      | None \<Rightarrow>
          if env ''PHOENIX_REAL_LLM'' = Some ''1'' then real_p
          else (case map_of spec ''mock_script'' of
                  Some v \<Rightarrow> Inr (inline_provider v)
                | None \<Rightarrow>
                    (case map_of spec ''mock_scenario'' of
                       Some (JStr name) \<Rightarrow> get_scenario name
                     | Some v \<Rightarrow> (case v of JList _ \<Rightarrow> Inl TypeError | JObj _ \<Rightarrow> Inl TypeError | _ \<Rightarrow> Inl (KeyError ''mock_scenario''))
                     | None \<Rightarrow> Inl (RuntimeError ''no provider''))))"

definition workflow_for :: "environ \<Rightarrow> provider result \<Rightarrow> dict \<Rightarrow> EngineContext \<Rightarrow> workflow result" where
  "workflow_for env real_p spec ctx =
     (if map_of spec ''kind'' = Some (JStr ''toy'') then map_sum id Toy (toy_init spec)
      else if map_of spec ''kind'' = Some (JStr ''agent'') then
        bind_result (provider_for env real_p spec ctx) (\<lambda>p.
          map_sum id Agent (agent_init spec p (ec_workspace_root ctx)))
      else Inl (ValueError ''unknown workflow kind''))"

section \<open>Executing a task\<close>

text \<open>
  \<open>json.loads(None)\<close> of a run that does not exist raises \<open>TypeError\<close>. Each execution builds its own
  workflow, so an agent's workspace is not set up yet when the loop starts.
\<close>

definition execute_task :: "environ \<Rightarrow> (nat \<Rightarrow> time) \<Rightarrow> agent_env \<Rightarrow> provider result \<Rightarrow> EngineContext \<Rightarrow> claim \<Rightarrow>
    agent_state world \<Rightarrow> (unit result \<times> agent_state world) option" where
  "execute_task env clock ae real_p ctx c w =
     (case find_run (cl_run_id c) (w_db w) of
        None \<Rightarrow> Some (Inl TypeError, w)
      | Some r \<Rightarrow>
          (case workflow_for env real_p (r_task_spec r) ctx of
             Inl e \<Rightarrow> Some (Inl e, w)
           | Inr (Toy tw) \<Rightarrow> execute_loop env clock (toy_step tw) c 0 w
           | Inr (Agent aw) \<Rightarrow> execute_loop env clock (agent_step ae aw) c 0
               (w\<lparr>w_state := (w_state w)\<lparr>ag_workspace := None\<rparr>\<rparr>)))"

text \<open>
  The heartbeat loop: each turn sleeps while others change the database, then extends the lease. It
  cancels the task (\<open>True\<close>) when the lease is gone and fencing is on.
\<close>

fun heartbeat_loop :: "environ \<Rightarrow> time \<Rightarrow> claim \<Rightarrow> ((db \<Rightarrow> db) \<times> time) list \<Rightarrow> db \<Rightarrow> db \<times> bool" where
  "heartbeat_loop env lease c [] d = (d, False)"
| "heartbeat_loop env lease c ((others, now) # turns) d =
     (let (d', alive) = heartbeat now lease c (others d) in
      if \<not> alive \<and> fencing_enabled env then (d', True) else heartbeat_loop env lease c turns d')"

section \<open>One turn of a worker\<close>

datatype worker_turn = Idle | Finished claim | Lease_lost claim | Errored claim error

record worker_params =
  wp_worker_id :: string
  wp_lease :: time
  wp_max_attempts :: nat
  wp_backoff :: time

text \<open>
  The body of the loop of \<open>run_worker\<close>, when no heartbeat cancels the task: claim, execute, and on an
  error decide. \<open>t_claim\<close> and \<open>t_error\<close> are the times of the claim and of the error handler's
  transaction.
\<close>

definition run_worker_turn :: "environ \<Rightarrow> worker_params \<Rightarrow> time \<Rightarrow> (nat \<Rightarrow> time) \<Rightarrow> time \<Rightarrow> agent_env \<Rightarrow> provider result \<Rightarrow>
    EngineContext \<Rightarrow> (error \<Rightarrow> string) \<Rightarrow> agent_state world \<Rightarrow> (worker_turn \<times> agent_state world) result option" where
  "run_worker_turn env wp t_claim clock t_error ae real_p ctx exc_repr w =
     (case claim_task [] t_claim (wp_worker_id wp) (wp_lease wp) (w_db w) of
        (d, None) \<Rightarrow> Some (Inr (Idle, w))
      | (d, Some c) \<Rightarrow>
          (case execute_task env clock ae real_p ctx c (w\<lparr>w_db := d\<rparr>) of
             None \<Rightarrow> None
           | Some (Inr _, w') \<Rightarrow> Some (Inr (Finished c, w'))
           | Some (Inl (LeaseLostError t a wk), w') \<Rightarrow> Some (Inr (Lease_lost c, w'))
           | Some (Inl e, w') \<Rightarrow>
               Some (map_sum id (\<lambda>d'. (Errored c e, w'\<lparr>w_db := d'\<rparr>))
                 (handle_error env t_error (ae_exc_str ae) exc_repr c e (wp_max_attempts wp) (wp_backoff wp) (w_db w')))))"

section \<open>A worker process\<close>

text \<open>
  The loop of \<open>run_worker\<close> until \<open>stop\<close> is set (the end of the list): in front of each turn the other
  processes change the database and the files. An exception that escapes (the error handler's
  own transaction failed) ends the worker. The lines are what it logs.
\<close>

record turn_input =
  tu_others :: "agent_state world \<Rightarrow> agent_state world"
  tu_claim :: time
  tu_clock :: "nat \<Rightarrow> time"
  tu_error :: time

fun run_worker :: "environ \<Rightarrow> worker_params \<Rightarrow> agent_env \<Rightarrow> provider result \<Rightarrow> EngineContext \<Rightarrow> (error \<Rightarrow> string) \<Rightarrow>
    turn_input list \<Rightarrow> agent_state world \<Rightarrow> (worker_turn list \<times> agent_state world) result option" where
  "run_worker env wp ae real_p ctx exc_repr [] w = Some (Inr ([], w))"
| "run_worker env wp ae real_p ctx exc_repr (tu # tus) w =
     (case run_worker_turn env wp (tu_claim tu) (tu_clock tu) (tu_error tu) ae real_p ctx exc_repr (tu_others tu w) of
        None \<Rightarrow> None
      | Some (Inl e) \<Rightarrow> Some (Inl e)
      | Some (Inr (turn, w1)) \<Rightarrow>
          map_option (map_sum id (map_prod (Cons turn) id)) (run_worker env wp ae real_p ctx exc_repr tus w1))"

definition log_line :: "string \<Rightarrow> claim \<Rightarrow> string" where
  "log_line word c = word @ '' worker='' @ cl_worker_id c @ '' run='' @ cl_run_id c"

definition turn_lines :: "(error \<Rightarrow> string) \<Rightarrow> worker_turn \<Rightarrow> string list" where
  "turn_lines exc_repr turn =
     (let claimed = (\<lambda>c. log_line ''CLAIMED'' c @ '' attempt='' @ str_nat (cl_attempt c)) in
      case turn of
        Idle \<Rightarrow> []
      | Finished c \<Rightarrow> [claimed c, log_line ''DONE'' c]
      | Lease_lost c \<Rightarrow> [claimed c, log_line ''LEASE_LOST'' c @ '' (commit rejected)'']
      | Errored c e \<Rightarrow> [claimed c, log_line ''ERROR'' c @ '': '' @ exc_repr e])"

text \<open>The reaper's loop: each turn others change the database, then expired leases are given back.\<close>

fun reaper_loop :: "((db \<Rightarrow> db) \<times> uuid list \<times> time) list \<Rightarrow> db \<Rightarrow> db \<times> string list" where
  "reaper_loop [] d = (d, [])"
| "reaper_loop ((others, locked, now) # turns) d =
     (let (d1, n) = reap_expired locked now (others d); (d2, lines) = reaper_loop turns d1 in
      (d2, (if n \<noteq> 0 then [''REAPED '' @ str_nat n @ '' expired lease(s)''] else []) @ lines))"

section \<open>Lemmas\<close>

lemma failed_payload_ok:
  assumes "no_nul (exc_str e)" and "no_nul (exc_repr e)" and "no_nul (cl_worker_id c)"
  shows "jsonb_ok (JObj (commit_payload c (failed_outcome exc_str exc_repr c e)))"
proof -
  have "CHR 0x00 \<notin> set (str_nat n)" for n
    using str_nat_digits [of "CHR 0x00" n] by (auto simp: is_digit_def)
  with assms show ?thesis by (simp add: commit_payload_def failed_outcome_def no_nul_def)
qed

lemma failed_fields [simp]:
  "so_final (failed_outcome exc_str exc_repr c e)" "so_cost_usd (failed_outcome exc_str exc_repr c e) = 0"
  "so_final_status (failed_outcome exc_str exc_repr c e) = Failed"
  by (simp_all add: failed_outcome_def)

lemma gapless_steps_index: "steps_contiguous d r \<Longrightarrow> gapless d r"
  by (simp add: steps_contiguous_def)



end
