(* ===== verification/Execution.thy ===== *)
theory Execution
  imports Worker Trace
begin

text \<open>
  The sequential code of \<open>engine.py\<close> against the transition system of \<open>System\<close>: every execution of
  \<open>execute_task\<close>, and every turn of \<open>run_worker\<close>, is a path of \<open>sys_step\<close> that ends with the same
  database. So what the other theories prove of reachable states holds of what the code leaves behind.
\<close>

section \<open>Positions of a job\<close>

abbreviation at_phase :: "db \<Rightarrow> job list \<Rightarrow> job \<Rightarrow> phase \<Rightarrow> job list \<Rightarrow> sys" where
  "at_phase d js1 j ph js2 \<equiv> \<lparr>sy_db = d, sy_jobs = js1 @ j\<lparr>jb_phase := ph\<rparr> # js2\<rparr>"

text \<open>Where a job stands after \<open>next_step\<close>, and after the whole of \<open>execute_task\<close>.\<close>

definition after_step :: "event list \<Rightarrow> StepOutcome result \<Rightarrow> phase" where
  "after_step evs res = (case res of Inr out \<Rightarrow> Computed (length evs) out | Inl e \<Rightarrow> Raised e)"

definition after_task :: "db \<Rightarrow> job list \<Rightarrow> job \<Rightarrow> job list \<Rightarrow> unit result \<Rightarrow> sys" where
  "after_task d js1 j js2 res = (case res of
       Inr _ \<Rightarrow> \<lparr>sy_db = d, sy_jobs = js1 @ js2\<rparr>
     | Inl (LeaseLostError _ _ _) \<Rightarrow> \<lparr>sy_db = d, sy_jobs = js1 @ js2\<rparr>
     | Inl e \<Rightarrow> at_phase d js1 j (Raised e) js2)"

text \<open>A workflow whose \<open>next_step\<close> is a path of the platform.\<close>

definition simulated :: "config \<Rightarrow> dict \<Rightarrow> 'x workflow_step \<Rightarrow> bool" where
  "simulated cf spec ns \<longleftrightarrow> (\<forall>j evs w res w1 js1 js2. jb_spec j = spec \<longrightarrow>
     ns (jb_claim j) (length evs) evs w = (res, w1) \<longrightarrow>
     (sys_step cf)\<^sup>*\<^sup>* (at_phase (w_db w) js1 j (Replayed evs) js2) (at_phase (w_db w1) js1 j (after_step evs res) js2))"

text \<open>The parameters of a worker agree with those of the platform it is part of.\<close>

definition provider_fits :: "config \<Rightarrow> provider \<Rightarrow> bool" where
  "provider_fits cf p \<longleftrightarrow> pv_name p = cf_provider cf
     \<and> (\<forall>messages resp. pv_complete p messages = Inr resp \<longrightarrow> cf_answer cf resp)"

definition part_of :: "config \<Rightarrow> environ \<Rightarrow> worker_params \<Rightarrow> agent_env \<Rightarrow> provider result \<Rightarrow> EngineContext \<Rightarrow>
    (error \<Rightarrow> string) \<Rightarrow> bool" where
  "part_of cf env wp ae real_p ctx exc_repr \<longleftrightarrow> cf_env cf = env \<and> cf_max_attempts cf = wp_max_attempts wp
     \<and> cf_sha cf = ae_sha ae \<and> cf_exc_str cf = ae_exc_str ae \<and> cf_exc_repr cf = exc_repr
     \<and> (\<forall>spec p. provider_for env real_p spec ctx = Inr p \<longrightarrow> provider_fits cf p)"

section \<open>Single steps between phases\<close>

lemma jb_phase_twice [simp]: "j\<lparr>jb_phase := a\<rparr>\<lparr>jb_phase := b\<rparr> = j\<lparr>jb_phase := b\<rparr>"
  by simp

lemma at_replay: "sys_step cf (at_phase d js1 j Looping js2) (at_phase d js1 j (Replayed (read_events d (job_run j))) js2)"
  using sys_step.replay [of "j\<lparr>jb_phase := Looping\<rparr>"] by simp

lemma at_error:
  "(case ph of Raised _ \<Rightarrow> False | Failing _ _ \<Rightarrow> False | _ \<Rightarrow> True) \<Longrightarrow>
     sys_step cf (at_phase d js1 j ph js2) (at_phase d js1 j (Raised e) js2)"
  using sys_step.error [of "j\<lparr>jb_phase := ph\<rparr>"] by simp

lemma at_crash: "sys_step cf (at_phase d js1 j ph js2) \<lparr>sy_db = d, sy_jobs = js1 @ js2\<rparr>"
  by (rule sys_step.crash)

lemma at_toy:
  "is_kind ''toy'' (jb_spec j) \<Longrightarrow> toy_init (jb_spec j) = Inr tw \<Longrightarrow>
     sys_step cf (at_phase d js1 j (Replayed evs) js2)
       (at_phase d js1 j (Computed (length evs) (toy_next_step tw (jb_claim j) (length evs))) js2)"
  using sys_step.toy [of "j\<lparr>jb_phase := Replayed evs\<rparr>" evs tw] by simp

lemma at_limit:
  "is_kind ''agent'' (jb_spec j) \<Longrightarrow> agent_limits (jb_spec j) (job_run j) evs d = Inr (Some stop) \<Longrightarrow>
     sys_step cf (at_phase d js1 j (Replayed evs) js2) (at_phase d js1 j (Computed (length evs) (stop_outcome stop)) js2)"
  using sys_step.limit [of "j\<lparr>jb_phase := Replayed evs\<rparr>" evs d stop] by simp

lemma ask_key_phase [simp]: "ask_key cf (j\<lparr>jb_phase := ph\<rparr>) evs = ask_key cf j evs"
  by (simp add: ask_key_def)

lemma at_cached:
  "is_kind ''agent'' (jb_spec j) \<Longrightarrow> agent_limits (jb_spec j) (job_run j) evs d = Inr None \<Longrightarrow>
     ask_key cf j evs = Inr key \<Longrightarrow> cache_lookup key d = Some resp \<Longrightarrow>
     sys_step cf (at_phase d js1 j (Replayed evs) js2) (at_phase d js1 j (Computed (length evs) (agent_outcome resp obs)) js2)"
  using sys_step.cached [of "j\<lparr>jb_phase := Replayed evs\<rparr>" evs d cf key resp] by simp

lemma at_ask:
  "is_kind ''agent'' (jb_spec j) \<Longrightarrow> agent_limits (jb_spec j) (job_run j) evs d = Inr None \<Longrightarrow>
     ask_key cf j evs = Inr key \<Longrightarrow> cache_lookup key d = None \<Longrightarrow>
     sys_step cf (at_phase d js1 j (Replayed evs) js2)
       (at_phase (log_call now (job_run j) (length evs) key (cl_attempt (jb_claim j)) (Some (cl_worker_id (jb_claim j))) d)
          js1 j (Asked evs key) js2)"
  using sys_step.ask [of "j\<lparr>jb_phase := Replayed evs\<rparr>" evs d cf key] by simp

lemma at_answer:
  "cf_answer cf resp \<Longrightarrow> store_response key resp d = Inr d' \<Longrightarrow>
     sys_step cf (at_phase d js1 j (Asked evs key) js2) (at_phase d' js1 j (Computed (length evs) (agent_outcome resp obs)) js2)"
  using sys_step.answer [of "j\<lparr>jb_phase := Asked evs key\<rparr>" evs key cf resp d d'] by simp

lemma at_commit:
  "commit_step (cf_env cf) now (jb_claim j) n out d = Inr (d', b) \<Longrightarrow> \<not> so_final out \<Longrightarrow>
     sys_step cf (at_phase d js1 j (Computed n out) js2) (at_phase d' js1 j Looping js2)"
  using sys_step.commit [of "j\<lparr>jb_phase := Computed n out\<rparr>" n out cf now d d' b] by simp

lemma at_commit_final:
  "commit_step (cf_env cf) now (jb_claim j) n out d = Inr (d', b) \<Longrightarrow> so_final out \<Longrightarrow>
     sys_step cf (at_phase d js1 j (Computed n out) js2) \<lparr>sy_db = d', sy_jobs = js1 @ js2\<rparr>"
  using sys_step.commit_final [of "j\<lparr>jb_phase := Computed n out\<rparr>" n out cf now d d' b] by simp

section \<open>The workflows\<close>

lemma toy_simulated:
  assumes "is_kind ''toy'' spec" and "toy_init spec = Inr tw"
  shows "simulated cf spec (toy_step tw)"
  using assms by (auto simp: simulated_def toy_step_def after_step_def intro: r_into_rtranclp at_toy)

lemma complete_cached_simulated:
  assumes fits: "provider_fits cf p" and sha: "cf_sha cf = sha" and kind: "is_kind ''agent'' (jb_spec j)"
    and lim: "agent_limits (jb_spec j) (job_run j) evs d = Inr None" and msgs: "build_messages (jb_spec j) evs = Inr msgs"
    and call: "complete_cached sha p now (job_run j) (length evs) msgs (cl_attempt (jb_claim j))
      (Some (cl_worker_id (jb_claim j))) d = (res, d')"
  shows "(sys_step cf)\<^sup>*\<^sup>* (at_phase d js1 j (Replayed evs) js2)
    (at_phase d' js1 j (after_step evs (map_sum id (\<lambda>resp. agent_outcome resp obs) res)) js2)"
proof -
  let ?k = "cache_key sha (pv_name p) (job_run j) (length evs) msgs"
  have key: "ask_key cf j evs = Inr ?k" using fits sha msgs by (simp add: ask_key_def provider_fits_def)
  show ?thesis
  proof (cases "cache_lookup ?k d")
    case (Some resp)
    with call at_cached [OF kind lim key Some] show ?thesis
      by (auto simp: complete_cached_def after_step_def)
  next
    case None
    let ?d1 = "log_call now (job_run j) (length evs) ?k (cl_attempt (jb_claim j)) (Some (cl_worker_id (jb_claim j))) d"
    have asked: "sys_step cf (at_phase d js1 j (Replayed evs) js2) (at_phase ?d1 js1 j (Asked evs ?k) js2)"
      by (rule at_ask [OF kind lim key None])
    have failed: "sys_step cf (at_phase ?d1 js1 j (Asked evs ?k) js2) (at_phase ?d1 js1 j (Raised e) js2)" for e
      by (rule at_error) simp
    have "sys_step cf (at_phase ?d1 js1 j (Asked evs ?k) js2)
        (at_phase d' js1 j (after_step evs (map_sum id (\<lambda>resp. agent_outcome resp obs) res)) js2)"
    proof (cases "pv_complete p msgs")
      case (Inl e)
      with call None have "res = Inl e \<and> d' = ?d1" by (simp add: complete_cached_def Let_def)
      with failed [of e] show ?thesis by (simp add: after_step_def)
    next
      case (Inr resp)
      then have ok: "cf_answer cf resp" using fits by (simp add: provider_fits_def)
      show ?thesis
      proof (cases "store_response ?k resp ?d1")
        case (Inl e)
        with Inr call None have "res = Inl e \<and> d' = ?d1" by (simp add: complete_cached_def Let_def)
        with failed [of e] show ?thesis by (simp add: after_step_def)
      next
        case (Inr d2)
        with \<open>pv_complete p msgs = Inr resp\<close> call None have "res = Inr resp \<and> d' = d2"
          by (simp add: complete_cached_def Let_def)
        with at_answer [OF ok Inr] show ?thesis by (simp add: after_step_def)
      qed
    qed
    then have "(sys_step cf)\<^sup>*\<^sup>* (at_phase ?d1 js1 j (Asked evs ?k) js2)
        (at_phase d' js1 j (after_step evs (map_sum id (\<lambda>resp. agent_outcome resp obs) res)) js2)" by (rule r_into_rtranclp)
    with asked show ?thesis by (rule converse_rtranclp_into_rtranclp)
  qed
qed

lemma agent_limits_init:
  "agent_init spec p root_dir = Inr aw \<Longrightarrow> agent_limits spec r evs d =
     bind_result (run_budget r d) (\<lambda>budget. check_limits evs budget (aw_max_steps aw))"
  by (auto simp: agent_init_def agent_limits_def bind_result_Inr_iff split: sum.splits)

lemma agent_init_fields:
  "agent_init spec p root_dir = Inr aw \<Longrightarrow> aw_spec aw = spec \<and> aw_provider aw = p \<and> aw_workspace_root aw = root_dir"
  by (auto simp: agent_init_def bind_result_Inr_iff)

text \<open>The ways out of one step of the agent, by what they do to the database.\<close>

lemma agent_step_ways:
  assumes "agent_step ae aw c (length evs) evs w = (res, w1)"
    and "lim_of = bind_result (run_budget (cl_run_id c) (w_db w)) (\<lambda>budget. check_limits evs budget (aw_max_steps aw))"
  obtains (early) e where "res = Inl e" "w_db w1 = w_db w"
  | (stop) stop where "lim_of = Inr (Some stop)" "res = Inr (stop_outcome stop)" "w_db w1 = w_db w"
  | (refused) msgs e where "lim_of = Inr None" "build_messages (aw_spec aw) evs = Inr msgs"
      "complete_cached (ae_sha ae) (aw_provider aw) (ae_now ae) (cl_run_id c) (length evs) msgs (cl_attempt c)
         (Some (cl_worker_id c)) (w_db w) = (Inl e, w_db w1)" "res = Inl e"
  | (asked) msgs resp where "lim_of = Inr None" "build_messages (aw_spec aw) evs = Inr msgs"
      "complete_cached (ae_sha ae) (aw_provider aw) (ae_now ae) (cl_run_id c) (length evs) msgs (cl_attempt c)
         (Some (cl_worker_id c)) (w_db w) = (Inr resp, w_db w1)"
      "(\<exists>e. res = Inl e) \<or> (\<exists>obs. res = Inr (agent_outcome resp obs))"
  using assms
  by (simp add: agent_step_def Let_def split: prod.splits sum.splits option.splits) fastforce+

lemma agent_simulated:
  assumes kind: "is_kind ''agent'' spec" and init: "agent_init spec p root_dir = Inr aw" and fits: "provider_fits cf p"
    and sha: "cf_sha cf = ae_sha ae"
  shows "simulated cf spec (agent_step ae aw)"
  unfolding simulated_def
proof (intro allI impI)
  fix j :: job and evs and w w1 :: "agent_state world" and res and js1 js2
  assume spec: "jb_spec j = spec" and step: "agent_step ae aw (jb_claim j) (length evs) evs w = (res, w1)"
  let ?at = "\<lambda>d ph. at_phase d js1 j ph js2"
  note aw = agent_init_fields [OF init] and kindj = kind [folded spec]
  note called = complete_cached_simulated [OF fits sha kindj]
  have failed: "sys_step cf (?at d (Replayed evs)) (?at d (Raised e))"
    "sys_step cf (?at d (Computed n out)) (?at d (Raised e))" for d e n out by (simp_all add: at_error)
  from step agent_limits_init [OF init]
  show "(sys_step cf)\<^sup>*\<^sup>* (?at (w_db w) (Replayed evs)) (?at (w_db w1) (after_step evs res))"
  proof (cases rule: agent_step_ways)
    case (early e)
    with failed(1) show ?thesis by (auto simp: after_step_def)
  next
    case (stop t)
    with at_limit [OF kindj] spec show ?thesis by (auto simp: after_step_def)
  next
    case (refused msgs e)
    with called [of evs "w_db w" msgs "ae_now ae" "Inl e" "w_db w1"] aw spec show ?thesis by (simp add: after_step_def)
  next
    case (asked msgs resp)
    have path: "(sys_step cf)\<^sup>*\<^sup>* (?at (w_db w) (Replayed evs)) (?at (w_db w1) (Computed (length evs) (agent_outcome resp obs)))" for obs
      using called [of evs "w_db w" msgs "ae_now ae" "Inr resp" "w_db w1"] asked(1-3) aw spec by (simp add: after_step_def)
    have "(sys_step cf)\<^sup>*\<^sup>* (?at (w_db w) (Replayed evs)) (?at (w_db w1) (Raised e))" for e
      by (rule rtranclp.rtrancl_into_rtrancl [OF path failed(2)])
    with asked(4) path show ?thesis by (auto simp: after_step_def)
  qed
qed

section \<open>Whole executions\<close>

lemma after_task_raised:
  "(sys_step cf)\<^sup>*\<^sup>* (at_phase d js1 j (Raised e) js2) (after_task d js1 j js2 (Inl e))"
  using at_crash [where ph = "Raised e"] by (cases e) (auto simp: after_task_def)

lemma commit_simulated:
  assumes "commit_step (cf_env cf) now (jb_claim j) n out d = Inl e"
  shows "(sys_step cf)\<^sup>*\<^sup>* (at_phase d js1 j (Computed n out) js2) (after_task d js1 j js2 (Inl e))"
proof -
  have "sys_step cf (at_phase d js1 j (Computed n out) js2) (at_phase d js1 j (Raised e) js2)"
    by (rule at_error) simp
  with after_task_raised show ?thesis by (meson converse_rtranclp_into_rtranclp)
qed

lemma loop_start:
  assumes "simulated cf (jb_spec j) ns" and "evs = read_events (w_db w) (job_run j)"
    and "ns (jb_claim j) (length evs) evs w = (res, w1)"
  shows "(sys_step cf)\<^sup>*\<^sup>* (at_phase (w_db w) js1 j Looping js2) (at_phase (w_db w1) js1 j (after_step evs res) js2)"
  using assms at_replay [of cf "w_db w" js1 j js2]
  by (auto simp: simulated_def intro: converse_rtranclp_into_rtranclp)

lemma loop_simulated:
  assumes "execute_loop env clock ns c k w = Some y" and "cf_env cf = env" and "simulated cf (jb_spec j) ns"
    and "jb_claim j = c"
  shows "(sys_step cf)\<^sup>*\<^sup>* (at_phase (w_db w) js1 j Looping js2) (after_task (w_db (snd y)) js1 j js2 (fst y))"
proof -
  let ?at = "\<lambda>d ph. at_phase d js1 j ph js2" and ?goal = "\<lambda>y. after_task (w_db (snd y)) js1 j js2 (fst y)"
  let ?P = "\<lambda>env clock ns c k w y. cf_env cf = env \<and> simulated cf (jb_spec j) ns \<and> jb_claim j = c \<longrightarrow>
    (sys_step cf)\<^sup>*\<^sup>* (?at (w_db w) Looping) (?goal y)"
  have "?P env clock ns c k w y"
  proof (rule execute_loop.raw_induct [where P = ?P, OF _ assms(1)], intro impI)
    fix loop :: "environ \<Rightarrow> (nat \<Rightarrow> time) \<Rightarrow> 'a workflow_step \<Rightarrow> claim \<Rightarrow> nat \<Rightarrow> 'a world \<Rightarrow> (unit result \<times> 'a world) option"
      and env and clock :: "nat \<Rightarrow> time" and ns c k w y
    assume IH: "\<And>env clock ns c k w y. loop env clock ns c k w = Some y \<Longrightarrow> ?P env clock ns c k w y"
      and body0: "(let evs = read_events (w_db w) (cl_run_id c) in case ns c (length evs) evs w of
          (Inl e, w1) \<Rightarrow> Some (Inl e, w1)
        | (Inr out, w1) \<Rightarrow> (case commit_step env (clock k) c (length evs) out (w_db w1) of
             Inl e \<Rightarrow> Some (Inl e, w1)
           | Inr (d, _) \<Rightarrow> if so_final out then Some (Inr (), w1\<lparr>w_db := d\<rparr>)
               else loop env clock ns c (Suc k) (w1\<lparr>w_db := d\<rparr>))) = Some y"
      and "cf_env cf = env \<and> simulated cf (jb_spec j) ns \<and> jb_claim j = c"
    then have a: "cf_env cf = env" "simulated cf (jb_spec j) ns" "jb_claim j = c" by simp_all
    define evs where "evs = read_events (w_db w) (cl_run_id c)"
    obtain res w1 where ns: "ns c (length evs) evs w = (res, w1)" by fastforce
    note body = body0 [folded evs_def, unfolded Let_def ns prod.case]
    have "(sys_step cf)\<^sup>*\<^sup>* (?at (w_db w1) (after_step evs res)) (?goal y)"
    proof (cases res)
      case (Inl e)
      with body after_task_raised show ?thesis by (auto simp: after_step_def)
    next
      case (Inr out)
      note body = body [unfolded Inr sum.case]
      show ?thesis
      proof (cases "commit_step env (clock k) c (length evs) out (w_db w1)")
        case (Inl e)
        with body \<open>res = Inr out\<close> a commit_simulated [of cf "clock k" j] show ?thesis by (auto simp: after_step_def)
      next
        case (Inr db)
        obtain d b where db: "commit_step (cf_env cf) (clock k) (jb_claim j) (length evs) out (w_db w1) = Inr (d, b)"
          using Inr a by (cases db) simp
        show ?thesis
        proof (cases "so_final out")
          case True
          with body \<open>res = Inr out\<close> a db at_commit_final [OF db True] show ?thesis
            by (auto simp: after_step_def after_task_def)
        next
          case False
          with body a db have "loop env clock ns c (Suc k) (w1\<lparr>w_db := d\<rparr>) = Some y" by simp
          from IH [OF this] a have "(sys_step cf)\<^sup>*\<^sup>* (?at d Looping) (?goal y)" by simp
          with at_commit [OF db False] \<open>res = Inr out\<close> show ?thesis
            by (auto simp: after_step_def intro: converse_rtranclp_into_rtranclp)
        qed
      qed
    qed
    with loop_start [OF a(2) _ ns [folded a(3)]] a(3) show "(sys_step cf)\<^sup>*\<^sup>* (?at (w_db w) Looping) (?goal y)"
      unfolding evs_def by (blast intro: rtranclp_trans)
  qed
  with assms(2-4) show ?thesis by simp
qed

lemma map_sum_InrD: "map_sum id f x = Inr y \<Longrightarrow> \<exists>z. x = Inr z \<and> y = f z"
  by (cases x) auto

lemma task_simulated:
  assumes part: "part_of cf env wp ae real_p ctx exc_repr" and run: "find_run (cl_run_id c) (w_db w) = Some r"
    and "jb_spec j = r_task_spec r" and "jb_claim j = c"
    and task: "execute_task env clock ae real_p ctx c w = Some (res, w')"
  shows "(sys_step cf)\<^sup>*\<^sup>* (at_phase (w_db w) js1 j Looping js2) (after_task (w_db w') js1 j js2 res)"
proof (cases "workflow_for env real_p (r_task_spec r) ctx")
  case (Inl e)
  have "sys_step cf (at_phase (w_db w) js1 j Looping js2) (at_phase (w_db w) js1 j (Raised e) js2)"
    by (rule at_error) simp
  with Inl task run after_task_raised show ?thesis
    by (auto simp: execute_task_def intro: converse_rtranclp_into_rtranclp)
next
  case (Inr wf)
  have env: "cf_env cf = env" and sha: "cf_sha cf = ae_sha ae" using part by (simp_all add: part_of_def)
  show ?thesis
  proof (cases wf)
    case (Toy tw)
    with Inr have "is_kind ''toy'' (jb_spec j)" "toy_init (jb_spec j) = Inr tw"
      using assms(3) by (auto simp: workflow_for_def is_kind_def bind_result_Inr_iff split: if_splits dest!: map_sum_InrD)
    note sim = toy_simulated [OF this, of cf]
    have "execute_loop env clock (toy_step tw) c 0 w = Some (res, w')"
      using task run Inr Toy by (simp add: execute_task_def)
    from loop_simulated [OF this env sim assms(4)] show ?thesis by simp
  next
    case (Agent aw)
    with Inr obtain p where p: "provider_for env real_p (jb_spec j) ctx = Inr p"
      "agent_init (jb_spec j) p (ec_workspace_root ctx) = Inr aw" "is_kind ''agent'' (jb_spec j)"
      using assms(3) by (auto simp: workflow_for_def is_kind_def bind_result_Inr_iff split: if_splits dest!: map_sum_InrD)
    have "provider_fits cf p" using part p(1) by (auto simp: part_of_def)
    note sim = agent_simulated [OF p(3,2) this sha]
    have "execute_loop env clock (agent_step ae aw) c 0 (w\<lparr>w_state := (w_state w)\<lparr>ag_workspace := None\<rparr>\<rparr>) = Some (res, w')"
      using task run Inr Agent by (simp add: execute_task_def)
    from loop_simulated [OF this env sim assms(4)] show ?thesis by simp
  qed
qed

lemma error_simulated:
  assumes part: "part_of cf env wp ae real_p ctx exc_repr" and "jb_claim j = c"
    and ok: "handle_error env now (ae_exc_str ae) exc_repr c e (wp_max_attempts wp) backoff d = Inr d'"
  shows "(sys_step cf)\<^sup>*\<^sup>* (at_phase d js1 j (Raised e) js2) \<lparr>sy_db = d', sy_jobs = js1 @ js2\<rparr>"
proof (cases "cl_attempt c < wp_max_attempts wp \<and> \<not> fatal e")
  case True
  with ok have "release_task now backoff c d = (d', snd (release_task now backoff c d))"
    by (auto simp: handle_error_def prod_eq_iff)
  with True part assms(2) have "sys_step cf (at_phase d js1 j (Raised e) js2) \<lparr>sy_db = d', sy_jobs = js1 @ js2\<rparr>"
    by (intro sys_step.release [where e = e and now = now and backoff = backoff]) (auto simp: part_of_def)
  then show ?thesis by (rule r_into_rtranclp)
next
  case False
  let ?n = "length (run_events d (cl_run_id c))" and ?out = "failed_outcome (ae_exc_str ae) exc_repr c e"
  have up: "sys_step cf (at_phase d js1 j (Raised e) js2) (at_phase d js1 j (Failing ?n ?out) js2)"
    using sys_step.give_up [of "j\<lparr>jb_phase := Raised e\<rparr>" e cf d js1 js2] False part assms(2)
    by (simp add: part_of_def)
  have env: "cf_env cf = env" using part by (simp add: part_of_def)
  have "sys_step cf (at_phase d js1 j (Failing ?n ?out) js2) \<lparr>sy_db = d', sy_jobs = js1 @ js2\<rparr>"
  proof (cases "commit_step env now c ?n ?out d")
    case (Inl x)
    with ok False have "d' = d" by (auto simp: handle_error_def split: error.splits)
    with Inl env assms(2) show ?thesis
      by (auto intro: sys_step.fail_error [where n = ?n and out = ?out and now = now and e = x])
  next
    case (Inr y)
    with ok False obtain b where "y = (d', b)" by (cases y) (auto simp: handle_error_def)
    with Inr env assms(2) show ?thesis
      by (auto intro: sys_step.fail_commit [where n = ?n and out = ?out and now = now and b = b])
  qed
  with up show ?thesis by (auto intro: converse_rtranclp_into_rtranclp)
qed

section \<open>A worker process\<close>

lemma after_task_error:
  "\<nexists>t a wk. e = LeaseLostError t a wk \<Longrightarrow> after_task d js1 j js2 (Inl e) = at_phase d js1 j (Raised e) js2"
  by (cases e) (simp_all add: after_task_def)

lemma worker_turn_error:
  "claim_task [] t_claim (wp_worker_id wp) (wp_lease wp) (w_db w) = (d, Some c) \<Longrightarrow>
   execute_task env clock ae real_p ctx c (w\<lparr>w_db := d\<rparr>) = Some (Inl e, w') \<Longrightarrow>
   \<nexists>t a wk. e = LeaseLostError t a wk \<Longrightarrow>
   run_worker_turn env wp t_claim clock t_error ae real_p ctx exc_repr w =
     Some (map_sum id (\<lambda>d'. (Errored c e, w'\<lparr>w_db := d'\<rparr>))
       (handle_error env t_error (ae_exc_str ae) exc_repr c e (wp_max_attempts wp) (wp_backoff wp) (w_db w')))"
  by (cases e) (simp_all add: run_worker_turn_def)

lemma turn_simulated:
  assumes part: "part_of cf env wp ae real_p ctx exc_repr" and core: "core \<lparr>sy_db = w_db w, sy_jobs = js\<rparr>"
    and turn: "run_worker_turn env wp t_claim clock t_error ae real_p ctx exc_repr w = Some (Inr (turn, w'))"
  shows "(sys_step cf)\<^sup>*\<^sup>* \<lparr>sy_db = w_db w, sy_jobs = js\<rparr> \<lparr>sy_db = w_db w', sy_jobs = js\<rparr>"
proof (cases "claim_task [] t_claim (wp_worker_id wp) (wp_lease wp) (w_db w)")
  case (Pair d c0)
  note claimed = Pair
  show ?thesis
  proof (cases c0)
    case None
    with turn claimed show ?thesis by (auto simp: run_worker_turn_def)
  next
    case (Some c)
    note claimed = claimed [unfolded Some]
    have "db_core (w_db w)" using core by (simp add: core_def)
    then have "db_core d" using db_core_op [OF op_claim [OF claimed]] by blast
    moreover have "claim_valid d c" by (rule claim_task_valid(1) [OF claimed]) fact
    ultimately have "cl_run_id c \<in> r_id ` set (runs d)"
      unfolding db_core_def claim_valid_def by (metis image_eqI subsetD)
    then obtain r where run: "find_run (cl_run_id c) d = Some r"
      by (cases "find_run (cl_run_id c) d") (auto simp: find_run_def find_None_iff)
    let ?j = "\<lparr>jb_claim = c, jb_spec = r_task_spec r, jb_phase = Looping\<rparr>"
    have start: "sys_step cf \<lparr>sy_db = w_db w, sy_jobs = js\<rparr> (at_phase d js ?j Looping [])"
      using sys_step.claim [OF claimed run] by simp
    obtain res w1 where task: "execute_task env clock ae real_p ctx c (w\<lparr>w_db := d\<rparr>) = Some (res, w1)"
      using turn claimed by (auto simp: run_worker_turn_def split: option.splits)
    have body: "(sys_step cf)\<^sup>*\<^sup>* (at_phase d js ?j Looping []) (after_task (w_db w1) js ?j [] res)"
      using task_simulated [OF part _ _ _ task, of r ?j js "[]"] run by simp
    have "(sys_step cf)\<^sup>*\<^sup>* (after_task (w_db w1) js ?j [] res) \<lparr>sy_db = w_db w', sy_jobs = js\<rparr>"
    proof (cases res)
      case (Inr u)
      with turn claimed task show ?thesis by (auto simp: run_worker_turn_def after_task_def)
    next
      case (Inl e)
      show ?thesis
      proof (cases "\<exists>t a wk. e = LeaseLostError t a wk")
        case True
        with Inl turn claimed task show ?thesis by (auto simp: run_worker_turn_def after_task_def)
      next
        case False
        then have "after_task (w_db w1) js ?j [] res = at_phase (w_db w1) js ?j (Raised e) []"
          using Inl by (simp add: after_task_error)
        moreover obtain d' where "handle_error env t_error (ae_exc_str ae) exc_repr c e (wp_max_attempts wp)
            (wp_backoff wp) (w_db w1) = Inr d'" "w' = w1\<lparr>w_db := d'\<rparr>"
          using turn worker_turn_error [OF claimed task [unfolded Inl] False, of t_error exc_repr]
          by (auto dest!: map_sum_InrD)
        ultimately show ?thesis using error_simulated [OF part, of ?j c t_error e "wp_backoff wp" "w_db w1" d' js "[]"] by simp
      qed
    qed
    with start body show ?thesis by (meson converse_rtranclp_into_rtranclp rtranclp_trans)
  qed
qed

text \<open>What other processes may do between two turns: any steps of the platform.\<close>

definition steps_of_others :: "config \<Rightarrow> ('x world \<Rightarrow> 'x world) \<Rightarrow> bool" where
  "steps_of_others cf f \<longleftrightarrow> (\<forall>s w. reachable cf s \<longrightarrow> sy_db s = w_db w \<longrightarrow>
     (\<exists>s'. (sys_step cf)\<^sup>*\<^sup>* s s' \<and> sy_db s' = w_db (f w)))"


definition demo_worker_env :: agent_env where
  "demo_worker_env = plain_env\<lparr>ae_now := 1, ae_exc_str := \<lambda>_. ''error''\<rparr>"

definition demo_worker_ctx :: EngineContext where
  "demo_worker_ctx = \<lparr>ec_provider = Some (MockProvider [finish_action ''ok'']), ec_workspace_root = [''ws'']\<rparr>"

definition demo_turn_world :: "db \<Rightarrow> agent_state world" where
  "demo_turn_world d = \<lparr>w_db = d, w_state = \<lparr>ag_workspace = None, ag_fs = \<lambda>_. None\<rparr>\<rparr>"

abbreviation demo_worker :: worker_params where
  "demo_worker \<equiv> \<lparr>wp_worker_id = ''W'', wp_lease = 30, wp_max_attempts = 3, wp_backoff = 1\<rparr>"

lemma demo_part_of: "part_of demo_config (\<lambda>_. None) demo_worker demo_worker_env (Inl OSError) demo_worker_ctx (\<lambda>_. ''error'')"
  by (simp add: part_of_def demo_config_def demo_worker_env_def plain_env_def demo_worker_ctx_def provider_for_def
      provider_fits_def MockProvider_def)

lemma demo_mock_answer: "mock_complete [finish_action ''ok''] messages = Inr demo_response"
  by (simp add: mock_complete_def demo_response_def MOCK_COST_eq MOCK_IN_TOKENS_def MOCK_OUT_TOKENS_def)

definition demo_workflow :: AgentWorkflow where
  "demo_workflow = \<lparr>aw_spec = demo_spec, aw_provider = MockProvider [finish_action ''ok''],
     aw_workspace_root = [''ws''], aw_max_steps = DEFAULT_MAX_STEPS\<rparr>"

lemma demo_workflow_init:
  "workflow_for (\<lambda>_. None) (Inl OSError) demo_spec demo_worker_ctx = Inr (Agent demo_workflow)"
  by (simp add: workflow_for_def demo_spec_def provider_for_def demo_worker_ctx_def agent_init_def demo_workflow_def
      get_default_def py_int_def)

lemma demo_complete:
  "complete_cached (\<lambda>_. ''k'') (MockProvider [finish_action ''ok'']) 1 ''r'' 0 messages 1 (Some ''W'') demo_claimed
     = (Inr demo_response, demo_answered)"
  using demo_storing
  by (simp add: complete_cached_def cache_key_def cache_lookup_def demo_asked_def MockProvider_def demo_mock_answer
      demo_claimed_def)

lemma demo_step:
  "\<exists>st. agent_step demo_worker_env demo_workflow demo_claim 0 [] (demo_turn_world demo_claimed)
     = (Inr demo_outcome, \<lparr>w_db = demo_answered, w_state = st\<rparr>)"
proof -
  have init: "agent_init demo_spec (MockProvider [finish_action ''ok'']) [''ws''] = Inr demo_workflow"
    by (simp add: agent_init_def demo_workflow_def demo_spec_def get_default_def py_int_def)
  have lim: "bind_result (run_budget ''r'' demo_claimed) (\<lambda>b. check_limits [] b (aw_max_steps demo_workflow)) = Inr None"
    using demo_no_limit by (simp add: agent_limits_init [OF init])
  have ws: "\<exists>fs. materialize_workspace demo_worker_env p [] (\<lambda>_. None) = (Inr (), fs)" for p
    by (simp add: materialize_workspace_def mkdir_p_def is_file_def list_ex_iff)
  have msgs: "\<exists>m. build_messages demo_spec [] = Inr m"
    by (simp add: build_messages_def dict_item_def demo_spec_def)
  have tool: "execute_action demo_worker_env p (finish_action ''ok'') fs = (Inr [(''summary'', JStr ''ok'')], fs)" for p fs
    by (simp add: execute_action_def run_tool_def finish_action_def finish_tool_def as_dict_def get_default_def py_str_def)
  obtain fs m where got: "materialize_workspace demo_worker_env (workspace demo_workflow demo_claim) [] (\<lambda>_. None) = (Inr (), fs)"
    "build_messages demo_spec [] = Inr m" using ws msgs by blast
  have enter: "enter_workspace demo_worker_env demo_workflow demo_claim [] (w_state (demo_turn_world demo_claimed))
      = (Inr (), \<lparr>ag_workspace = Some (workspace demo_workflow demo_claim), ag_fs = fs\<rparr>)"
    by (simp add: enter_workspace_def demo_turn_world_def got)
  have params: "aw_spec demo_workflow = demo_spec" "aw_provider demo_workflow = MockProvider [finish_action ''ok'']"
    "ae_sha demo_worker_env = (\<lambda>_. ''k'')" "ae_now demo_worker_env = 1" "cl_run_id demo_claim = ''r''"
    "cl_attempt demo_claim = 1" "cl_worker_id demo_claim = ''W''" "w_db (demo_turn_world demo_claimed) = demo_claimed"
    "lr_action demo_response = finish_action ''ok''"
    by (simp_all add: demo_workflow_def demo_worker_env_def plain_env_def demo_claim_def demo_turn_world_def demo_response_def)
  show ?thesis by (simp add: agent_step_def enter params lim got(2) demo_complete tool demo_outcome_def Let_def del: One_nat_def)
    (simp add: demo_turn_world_def)
qed

lemma demo_turn:
  "\<exists>st. run_worker_turn (\<lambda>_. None) demo_worker 0 (\<lambda>_. 3) 9 demo_worker_env (Inl OSError) demo_worker_ctx (\<lambda>_. ''error'')
     (demo_turn_world demo_submitted) = Some (Inr (Finished demo_claim, \<lparr>w_db = demo_finished, w_state = st\<rparr>))"
proof -
  obtain st where step: "agent_step demo_worker_env demo_workflow demo_claim 0 [] (demo_turn_world demo_claimed)
      = (Inr demo_outcome, \<lparr>w_db = demo_answered, w_state = st\<rparr>)" using demo_step by blast
  have ev: "read_events (w_db (demo_turn_world demo_claimed)) (cl_run_id demo_claim) = []"
    by (simp add: demo_turn_world_def read_events_def run_events_def demo_claimed_def)
  have "execute_loop (\<lambda>_. None) (\<lambda>_. 3) (agent_step demo_worker_env demo_workflow) demo_claim 0 (demo_turn_world demo_claimed)
      = Some (Inr (), \<lparr>w_db = demo_finished, w_state = st\<rparr>)"
    by (subst execute_loop.simps) (simp add: ev step demo_commit demo_outcome_fields)
  moreover have "find_run (cl_run_id demo_claim) demo_claimed = Some (demo_run Running 0 None)"
    by (simp add: find_run_def demo_claimed_def demo_claim_def)
  ultimately have "execute_task (\<lambda>_. None) (\<lambda>_. 3) demo_worker_env (Inl OSError) demo_worker_ctx demo_claim (demo_turn_world demo_claimed)
      = Some (Inr (), \<lparr>w_db = demo_finished, w_state = st\<rparr>)"
    by (simp add: execute_task_def demo_workflow_init demo_turn_world_def)
  then show ?thesis by (auto simp: run_worker_turn_def demo_turn_world_def demo_claiming)
qed


end
