(* ===== verification/Text.thy ===== *)
theory Text
  imports Values
begin

text \<open>
  The string methods of Python the components share: whitespace, \<open>strip\<close>, \<open>splitlines\<close>, prefixes,
  padding in format strings, and \<open>str\<close> of a JSON value. Text is Latin-1, the characters of HOL.
\<close>

section \<open>Whitespace and lines\<close>

text \<open>\<open>str.isspace\<close> of one character, which is also what \<open>\\s\<close> matches.\<close>

definition is_space :: "char \<Rightarrow> bool" where
  "is_space c \<longleftrightarrow> c \<in> {CHR '' '', CHR 0x09, CHR 0x0A, CHR 0x0B, CHR 0x0C, CHR 0x0D,
     CHR 0x1C, CHR 0x1D, CHR 0x1E, CHR 0x1F, CHR 0x85, CHR 0xA0}"

definition py_strip :: "string \<Rightarrow> string" where
  "py_strip s = rev (dropWhile is_space (rev (dropWhile is_space s)))"

definition is_line_break :: "char \<Rightarrow> bool" where
  "is_line_break c \<longleftrightarrow> c \<in> {CHR 0x0A, CHR 0x0B, CHR 0x0C, CHR 0x0D, CHR 0x1C, CHR 0x1D, CHR 0x1E, CHR 0x85}"

text \<open>\<open>str.splitlines\<close>: a carriage return and the line feed after it are one break.\<close>

fun splitlines :: "string \<Rightarrow> string list" where
  "splitlines [] = []"
| "splitlines (c # s) =
     (if c = CHR 0x0D \<and> take 1 s = [CHR 0x0A] then [] # splitlines (drop 1 s)
      else if is_line_break c then [] # splitlines s
      else (case splitlines s of [] \<Rightarrow> [[c]] | l # ls \<Rightarrow> (c # l) # ls))"

section \<open>Kinds of characters\<close>

text \<open>
  \<open>str.lower\<close> and \<open>str.isalnum\<close> of one character: digits, letters, and the Latin-1 characters that
  are numeric (superscripts and fractions).
\<close>

definition lower_char :: "char \<Rightarrow> char" where
  "lower_char c = (let k = of_char c :: nat in
     if (65 \<le> k \<and> k \<le> 90) \<or> (192 \<le> k \<and> k \<le> 222 \<and> k \<noteq> 215) then char_of (k + 32) else c)"

definition is_letter :: "char \<Rightarrow> bool" where
  "is_letter c \<longleftrightarrow> (let k = of_char c :: nat in (65 \<le> k \<and> k \<le> 90) \<or> (97 \<le> k \<and> k \<le> 122)
     \<or> k \<in> {170, 181, 186} \<or> (192 \<le> k \<and> k \<noteq> 215 \<and> k \<noteq> 247))"

definition is_alnum :: "char \<Rightarrow> bool" where
  "is_alnum c \<longleftrightarrow> is_letter c \<or> is_digit c \<or> (of_char c :: nat) \<in> {178, 179, 185, 188, 189, 190}"

text \<open>
  The maximal runs of characters with a property: \<open>s.split()\<close> is the runs without whitespace, and
  \<open>re.findall(r"[a-z]+", s)\<close> the runs of such letters.
\<close>

fun runs_of :: "(char \<Rightarrow> bool) \<Rightarrow> string \<Rightarrow> string list" where
  "runs_of p [] = []"
| "runs_of p (c # s) =
     (if \<not> p c then runs_of p s
      else if s = [] \<or> \<not> p (hd s) then [c] # runs_of p s
      else (case runs_of p s of w # ws \<Rightarrow> (c # w) # ws | [] \<Rightarrow> [[c]]))"

definition split_words :: "string \<Rightarrow> string list" where
  "split_words s = runs_of (\<lambda>c. \<not> is_space c) s"

section \<open>Prefixes and padding\<close>

definition starts_with :: "string \<Rightarrow> string \<Rightarrow> bool" where
  "starts_with p s \<longleftrightarrow> take (length p) s = p"

definition removeprefix :: "string \<Rightarrow> string \<Rightarrow> string" where
  "removeprefix p s = (if starts_with p s then drop (length p) s else s)"

text \<open>\<open>s.partition(c)\<close> for a one-character separator, without the separator.\<close>

definition partition_at :: "char \<Rightarrow> string \<Rightarrow> string \<times> string" where
  "partition_at c s = (takeWhile (\<lambda>x. x \<noteq> c) s, drop 1 (dropWhile (\<lambda>x. x \<noteq> c) s))"

text \<open>The format \<open>{x:<n}\<close> on text.\<close>

definition ljust :: "nat \<Rightarrow> string \<Rightarrow> string" where
  "ljust n s = s @ replicate (n - length s) (CHR '' '')"

text \<open>The format \<open>{x:>n}\<close>, the test \<open>p in s\<close> on texts, and the format \<open>.kf\<close> of a float.\<close>

definition rjust :: "nat \<Rightarrow> string \<Rightarrow> string" where
  "rjust n s = replicate (n - length s) (CHR '' '') @ s"

fun contains :: "string \<Rightarrow> string \<Rightarrow> bool" where
  "contains p [] = (p = [])"
| "contains p (c # s) = (starts_with p (c # s) \<or> contains p s)"

definition round_half_even :: "money \<Rightarrow> int" where
  "round_half_even q = (let k = \<lfloor>q\<rfloor>; r = q - of_int k in
     if r < 1 / 2 then k else if 1 / 2 < r then k + 1 else if even k then k else k + 1)"

definition fixed_text :: "nat \<Rightarrow> money \<Rightarrow> string" where
  "fixed_text k q = (let n = nat (round_half_even (\<bar>q\<bar> * 10 ^ k));
       digits = str_nat (n mod 10 ^ k)
     in (if q < 0 then ''-'' else '''') @ str_nat (n div 10 ^ k)
        @ (if k = 0 then '''' else ''.'' @ replicate (k - length digits) (CHR ''0'') @ digits))"

section \<open>Text of a value\<close>

text \<open>
  \<open>str(x)\<close> of a JSON value; \<open>repr_of\<close> stands for Python's text of floats, lists and dicts, and for the
  digits of a \<open>Decimal\<close>.
\<close>

definition value_text :: "(json \<Rightarrow> string) \<Rightarrow> json \<Rightarrow> string" where
  "value_text repr_of v = (case v of
       JNull \<Rightarrow> ''None''
     | JBool b \<Rightarrow> if b then ''True'' else ''False''
     | JInt i \<Rightarrow> str_int i
     | JStr s \<Rightarrow> s
     | _ \<Rightarrow> repr_of v)"

section \<open>Lemmas\<close>

lemma splitlines_eq_Nil [simp]: "splitlines s = [] \<longleftrightarrow> s = []"
  by (cases s) (auto split: list.splits)

text \<open>No line contains a line break.\<close>

lemma splitlines_no_break: "l \<in> set (splitlines s) \<Longrightarrow> c \<in> set l \<Longrightarrow> \<not> is_line_break c"
proof (induction s arbitrary: l rule: splitlines.induct)
  case (2 d s)
  show ?case
  proof (cases "is_line_break d")
    case True
    with 2 show ?thesis by (auto split: if_splits)
  next
    case False
    then have d: "\<not> (d = CHR 0x0D \<and> take 1 s = [CHR 0x0A])" by (auto simp: is_line_break_def)
    with False 2(4) have "l = [d] \<or> l \<in> set (splitlines s) \<or> (\<exists>l' \<in> set (splitlines s). l = d # l')"
      by (auto split: list.splits)
    with False 2(3) [OF d False] 2(5) show ?thesis by auto
  qed
qed simp

lemma set_py_strip: "set (py_strip s) \<subseteq> set s"
  unfolding py_strip_def by (metis (no_types) dual_order.trans set_dropWhileD set_rev subsetI)

lemma starts_with_append [simp]: "starts_with p (p @ s)"
  by (simp add: starts_with_def)

lemma length_ljust: "length (ljust n s) = max n (length s)"
  by (simp add: ljust_def)

lemma partition_at_join: "c \<in> set s \<Longrightarrow> fst (partition_at c s) @ c # snd (partition_at c s) = s"
  unfolding partition_at_def by (induction s) auto

lemma partition_at_fst: "c \<notin> set (fst (partition_at c s))"
  unfolding partition_at_def using set_takeWhileD by fastforce

lemma contains_subset: "contains p s \<Longrightarrow> set p \<subseteq> set s"
proof (induction s)
  case (Cons c s)
  have "set p \<subseteq> set (c # s)" if "starts_with p (c # s)"
    using that set_take_subset [of "length p" "c # s"] by (simp add: starts_with_def)
  with Cons show ?case by auto
qed simp

lemma contains_prefix: "contains p (p @ s)"
  by (metis append_is_Nil_conv contains.simps neq_Nil_conv starts_with_append)

lemma contains_skip: "contains p s \<Longrightarrow> contains p (t @ s)"
  by (induction t) auto

lemma set_fixed_text: "set (fixed_text k q) \<subseteq> {c. is_digit c} \<union> set ''-.''"
  using str_nat_digits by (auto simp: fixed_text_def Let_def is_digit_def split: if_splits)

lemma round_half_even_mono:
  assumes "x \<le> y"
  shows "round_half_even x \<le> round_half_even y"
proof -
  have "\<lfloor>x\<rfloor> \<le> \<lfloor>y\<rfloor>" using assms by (rule floor_mono)
  with assms show ?thesis
    by (cases "\<lfloor>x\<rfloor> = \<lfloor>y\<rfloor>") (auto simp: round_half_even_def Let_def)
qed

lemma round_half_even_error: "\<bar>of_int (round_half_even q) - q\<bar> \<le> 1 / 2"
proof -
  have "0 \<le> q - of_int \<lfloor>q\<rfloor>" "q - of_int \<lfloor>q\<rfloor> < 1" by linarith+
  then show ?thesis unfolding round_half_even_def Let_def by (auto simp: abs_le_iff)
qed

lemma runs_of_ok: "w \<in> set (runs_of p s) \<Longrightarrow> w \<noteq> [] \<and> (\<forall>c \<in> set w. p c)"
proof (induction s arbitrary: w)
  case (Cons c s)
  then show ?case by (cases "runs_of p s") (fastforce split: if_splits)+
qed simp

lemma runs_of_nonempty: "s \<noteq> [] \<Longrightarrow> p (hd s) \<Longrightarrow> runs_of p s \<noteq> []"
  by (cases s) (auto split: list.splits)

lemma concat_runs_of: "concat (runs_of p s) = filter p s"
proof (induction s)
  case (Cons c s)
  then show ?case using runs_of_nonempty [of s p] by (auto split: list.splits)
qed simp

lemma runs_of_append:
  "(\<forall>c \<in> set w. p c) \<Longrightarrow> w \<noteq> [] \<Longrightarrow> s = [] \<or> \<not> p (hd s) \<Longrightarrow> runs_of p (w @ s) = w # runs_of p s"
proof (induction w)
  case (Cons c w)
  then show ?case by (cases w) auto
qed simp

lemmas split_words_ok = runs_of_ok [of _ "\<lambda>c. \<not> is_space c", folded split_words_def]

lemma split_join_words:
  "(\<And>w. w \<in> set ws \<Longrightarrow> w \<noteq> [] \<and> (\<forall>c \<in> set w. \<not> is_space c)) \<Longrightarrow> split_words (join_str '' '' ws) = ws"
proof (induction ws)
  case (Cons w ws)
  have sp: "is_space (CHR '' '')" by (simp add: is_space_def)
  have w: "w \<noteq> []" "\<forall>c \<in> set w. \<not> is_space c" using Cons.prems by auto
  note app = runs_of_append [of w "\<lambda>c. \<not> is_space c", OF w(2,1)]
  have IH: "split_words (join_str '' '' ws) = ws" by (rule Cons.IH) (use Cons.prems in auto)
  show ?case
  proof (cases ws)
    case Nil
    with app [of "[]"] show ?thesis by (simp add: split_words_def)
  next
    case (Cons v vs)
    with sp IH app [of "CHR '' '' # join_str '' '' ws"] show ?thesis by (simp add: split_words_def)
  qed
qed (simp add: split_words_def)

end
