(* ===== verification/Envfile.thy ===== *)
theory Envfile
  imports Text
begin

text \<open>
  \<open>src/phoenix/envfile.py\<close>: the \<open>.env\<close> loader of the command line. The environment is a map; the text
  of the file is a parameter, \<open>None\<close> when there is no such file. \<open>os.environ[key] = value\<close> raises
  \<open>ValueError\<close> on a NUL character and keeps what was set before.
\<close>

section \<open>One line\<close>

definition unquote :: "string \<Rightarrow> string" where
  "unquote value =
     (if 2 \<le> length value \<and> hd value = last value \<and> hd value \<in> {CHR 0x22, CHR 0x27}
      then drop 1 (take (length value - 1) value) else value)"

definition parse_line :: "string \<Rightarrow> (string \<times> string) option" where
  "parse_line raw =
     (let line = py_strip raw in
      if line = [] \<or> starts_with ''#'' line \<or> CHR ''='' \<notin> set line then None
      else (let (key, value) = partition_at (CHR ''='') line in
            Some (py_strip (removeprefix ''export '' (py_strip key)), unquote (py_strip value))))"

section \<open>The loop\<close>

fun load_lines :: "environ \<Rightarrow> string list \<Rightarrow> string list \<Rightarrow> environ \<times> string list result" where
  "load_lines env loaded [] = (env, Inr loaded)"
| "load_lines env loaded (raw # lines) =
     (case parse_line raw of
        None \<Rightarrow> load_lines env loaded lines
      | Some (key, value) \<Rightarrow>
          if key \<noteq> [] \<and> value \<noteq> [] \<and> env key = None then
            (if CHR 0x00 \<in> set key \<or> CHR 0x00 \<in> set value then (env, Inl (ValueError ''embedded null byte''))
             else load_lines (env(key \<mapsto> value)) (loaded @ [key]) lines)
          else load_lines env loaded lines)"

definition load_dotenv :: "string option \<Rightarrow> environ \<Rightarrow> environ \<times> string list result" where
  "load_dotenv contents env = (case contents of None \<Rightarrow> (env, Inr []) | Some text \<Rightarrow> load_lines env [] (splitlines text))"

section \<open>Lemmas\<close>

lemma load_lines_Cons:
  obtains (skip) "load_lines env loaded (raw # lines) = load_lines env loaded lines"
  | (fill) k v where "k \<noteq> []" "v \<noteq> []" "env k = None"
      "load_lines env loaded (raw # lines) = load_lines (env(k \<mapsto> v)) (loaded @ [k]) lines"
  | (nul) e where "load_lines env loaded (raw # lines) = (env, Inl e)"
proof (cases "parse_line raw")
  case (Some kv)
  obtain k v where "kv = (k, v)" by (cases kv)
  with Some skip fill [of k v] nul show ?thesis
    by (cases "k \<noteq> [] \<and> v \<noteq> [] \<and> env k = None"; cases "CHR 0x00 \<in> set k \<or> CHR 0x00 \<in> set v") auto
qed (simp add: skip)

lemma load_lines_keeps: "load_lines env loaded lines = (env', r) \<Longrightarrow> env key = Some val \<Longrightarrow> env' key = Some val"
proof (induction lines arbitrary: env loaded)
  case (Cons raw lines)
  show ?case
  proof (cases rule: load_lines_Cons [of env loaded raw lines])
    case skip
    with Cons show ?thesis by simp
  next
    case (fill k v)
    have "(env(k \<mapsto> v)) key = Some val" using fill(3) Cons.prems(2) by auto
    with Cons.IH Cons.prems(1) show ?thesis unfolding fill(4) by blast
  next
    case nul
    with Cons.prems show ?thesis by simp
  qed
qed simp

lemma load_lines_loaded:
  "load_lines env loaded lines = (env', Inr names) \<Longrightarrow>
     \<exists>new. names = loaded @ new \<and> distinct new \<and> (\<forall>k \<in> set new. env k = None \<and> env' k \<noteq> None \<and> env' k \<noteq> Some [])
       \<and> dom env' = dom env \<union> set new"
proof (induction lines arbitrary: env loaded)
  case (Cons raw lines)
  show ?case
  proof (cases rule: load_lines_Cons [of env loaded raw lines])
    case skip
    with Cons show ?thesis by simp
  next
    case (fill k v)
    with Cons.prems have rest: "load_lines (env(k \<mapsto> v)) (loaded @ [k]) lines = (env', Inr names)" by simp
    from Cons.IH [OF this] obtain new where new: "names = (loaded @ [k]) @ new" "distinct new"
      "\<forall>l \<in> set new. (env(k \<mapsto> v)) l = None \<and> env' l \<noteq> None \<and> env' l \<noteq> Some []"
      "dom env' = dom (env(k \<mapsto> v)) \<union> set new"
      by blast
    have "env' k = Some v" using load_lines_keeps [OF rest, of k v] by simp
    with new fill show ?thesis by (intro exI [of _ "k # new"]) (auto split: if_splits)
  next
    case nul
    with Cons.prems show ?thesis by simp
  qed
qed simp

lemma load_dotenv_keeps: "load_dotenv contents env = (env', r) \<Longrightarrow> env key = Some val \<Longrightarrow> env' key = Some val"
  using load_lines_keeps by (auto simp: load_dotenv_def split: option.splits)

section \<open>Property\<close>

text \<open>
  Real environment variables always win: loading a file, even one that makes the loader fail half
  way, changes no variable that was set. When it returns, the names it reports are distinct, were
  unset, are now set to a non-empty value, and nothing else was set.
\<close>

theorem load_dotenv_only_fills:
  assumes "load_dotenv contents env = (env', r)"
  shows "(\<forall>key value. env key = Some value \<longrightarrow> env' key = Some value)
    \<and> (\<forall>names. r = Inr names \<longrightarrow> distinct names \<and> (\<forall>k \<in> set names. env k = None \<and> env' k \<noteq> None \<and> env' k \<noteq> Some [])
         \<and> dom env' = dom env \<union> set names)"
proof (cases contents)
  case None
  with assms show ?thesis by (auto simp: load_dotenv_def)
next
  case (Some s)
  with assms have l: "load_lines env [] (splitlines s) = (env', r)" by (simp add: load_dotenv_def)
  moreover have "distinct names \<and> (\<forall>k \<in> set names. env k = None \<and> env' k \<noteq> None \<and> env' k \<noteq> Some [])
      \<and> dom env' = dom env \<union> set names" if "r = Inr names" for names
    using load_lines_loaded [of env "[]" "splitlines s" env' names] l that by simp
  ultimately show ?thesis using load_lines_keeps by blast
qed

theorem load_dotenv_only_fills_witness:
  "let (env', r) = load_dotenv (Some (''A=1'' @ CHR 0x0A # ''export B='' @ CHR 0x22 # ''x y'' @ [CHR 0x22, CHR 0x0A] @ ''C='' ))
         (Map.empty(''A'' \<mapsto> ''real''))
   in r = Inr [''B''] \<and> env' ''A'' = Some ''real'' \<and> env' ''B'' = Some ''x y'' \<and> env' ''C'' = None"
proof -
  let ?env = "Map.empty(''A'' \<mapsto> ''real'')"
  have l: "load_dotenv (Some (''A=1'' @ CHR 0x0A # ''export B='' @ CHR 0x22 # ''x y'' @ [CHR 0x22, CHR 0x0A] @ ''C='')) ?env =
      (?env(''B'' \<mapsto> ''x y''), Inr [''B''])"
    by (simp add: load_dotenv_def parse_line_def is_line_break_def py_strip_def is_space_def starts_with_def
        removeprefix_def partition_at_def unquote_def)
  from load_dotenv_only_fills [OF l] l show ?thesis by simp
qed

end
