(* ===== verification/Timeline.thy ===== *)
theory Timeline
  imports Trace Text
begin

text \<open>
  \<open>src/phoenix/timeline.py\<close>: the event log of a run as text, with takeovers and repeated provider
  calls called out. Python's text of floats and of NUMERIC columns is a parameter. The function reads
  one database state (the code issues its four queries one after the other).
\<close>

section \<open>One event\<close>

text \<open>
  \<open>fm_repr\<close>: \<open>str\<close> of a float, a list, a dict or a decimal; \<open>fm_secs\<close> and \<open>fm_secs6\<close>: the formats
  \<open>.2f\<close> and \<open>6.2f\<close> of a time difference in seconds; \<open>fm_numeric s\<close>: a NUMERIC column with scale \<open>s\<close>.
\<close>

record formats =
  fm_repr :: "json \<Rightarrow> string"
  fm_secs :: "int \<Rightarrow> string"
  fm_secs6 :: "int \<Rightarrow> string"
  fm_numeric :: "nat \<Rightarrow> money \<Rightarrow> string"

definition write_summary :: "formats \<Rightarrow> dict \<Rightarrow> json \<Rightarrow> string result" where
  "write_summary fm args obs =
     (let head = ''write_file '' @ value_text (fm_repr fm) (get_default args ''path'' JNull) in
      bind_result (contains_error obs) (\<lambda>failed.
        if \<not> failed then Inr head
        else bind_result (subscript obs ''error'') (\<lambda>e. Inr (head @ '' ERROR '' @ value_text (fm_repr fm) e))))"

definition stderr_tail :: "dict \<Rightarrow> string result" where
  "stderr_tail obs =
     (if \<not> truthy (get_default obs ''exit_code'' JNull) then Inr ''''
      else (let err = get_default obs ''stderr'' JNull in
            case (if truthy err then err else JStr '''') of
              JStr s \<Rightarrow> (let lines = splitlines (py_strip s) in
                        Inr (if lines = [] then '''' else '' | '' @ take 50 (last lines)))
            | _ \<Rightarrow> Inl AttributeError))"

definition run_summary :: "formats \<Rightarrow> dict \<Rightarrow> json \<Rightarrow> string result" where
  "run_summary fm args obs =
     bind_result (as_dict obs) (\<lambda>obs.
     bind_result (stderr_tail obs) (\<lambda>tail.
       Inr (''run_code '' @ value_text (fm_repr fm) (get_default args ''path'' JNull) @ '' -> exit ''
            @ value_text (fm_repr fm) (get_default obs ''exit_code'' JNull) @ tail)))"

definition action_summary :: "formats \<Rightarrow> dict \<Rightarrow> json \<Rightarrow> string result" where
  "action_summary fm p action =
     bind_result (as_dict action) (\<lambda>action.
       let tool = get_default action ''tool'' JNull; obs = get_default p ''observation'' (JObj []) in
       bind_result (as_dict (get_default action ''args'' (JObj []))) (\<lambda>args.
         if tool = JStr ''write_file'' then write_summary fm args obs
         else if tool = JStr ''run_code'' then run_summary fm args obs
         else Inr (py_strip (value_text (fm_repr fm) tool @ '' '' @ value_text (fm_repr fm) (get_default args ''summary'' (JStr ''''))))))"

definition summary :: "formats \<Rightarrow> event \<Rightarrow> string result" where
  "summary fm e =
     (let p = ev_payload e in
      case get_default p ''action'' JNull of
        JNull \<Rightarrow>
          (case map_of p ''reason'' of
             Some v \<Rightarrow> Inr (value_text (fm_repr fm) v)
           | None \<Rightarrow> (case map_of p ''i'' of Some v \<Rightarrow> Inr (''i='' @ value_text (fm_repr fm) v) | None \<Rightarrow> Inr ''''))
      | action \<Rightarrow> action_summary fm p action)"

section \<open>One line\<close>

definition who_of :: "event \<Rightarrow> (json \<times> json) result" where
  "who_of e = bind_result (as_dict (get_default (ev_payload e) ''meta'' (JObj []))) (\<lambda>meta.
     Inr (get_default meta ''worker'' (JStr ''?''), get_default meta ''attempt'' (JInt 0)))"

text \<open>The format \<open>{x:<2}\<close>, which \<open>None\<close>, lists and dicts do not support.\<close>

definition left2 :: "formats \<Rightarrow> json \<Rightarrow> string result" where
  "left2 fm v = (case v of
       JNull \<Rightarrow> Inl TypeError
     | JList _ \<Rightarrow> Inl TypeError
     | JObj _ \<Rightarrow> Inl TypeError
     | JBool b \<Rightarrow> Inr (ljust 2 (str_int (if b then 1 else 0)))
     | _ \<Rightarrow> Inr (ljust 2 (value_text (fm_repr fm) v)))"

definition step_of :: "event \<Rightarrow> int result" where
  "step_of e =
     (let key = ev_idem_key e; digits = rev (takeWhile (\<lambda>c. c \<noteq> CHR '':'') (rev key)) in
      if CHR '':'' \<notin> set key then Inl IndexError else py_int (JStr digits))"

definition cost_text :: "formats \<Rightarrow> event \<Rightarrow> string result" where
  "cost_text fm e =
     (let cost = get_default (ev_payload e) ''cost_usd'' JNull in
      if \<not> truthy cost then Inr ''''
      else (case cost of
              JStr s \<Rightarrow> Inr (CHR 0x24 # s)
            | JDec q \<Rightarrow> Inr (CHR 0x24 # fm_repr fm cost)
            | _ \<Rightarrow> Inl TypeError))"

definition takeover_line :: "formats \<Rightarrow> json \<times> json \<Rightarrow> json \<times> json \<Rightarrow> int \<Rightarrow> string" where
  "takeover_line fm prev who gap =
     ''  -- takeover: '' @ value_text (fm_repr fm) (fst prev) @ ''#'' @ value_text (fm_repr fm) (snd prev) @ '' -> ''
     @ value_text (fm_repr fm) (fst who) @ ''#'' @ value_text (fm_repr fm) (snd who)
     @ '' ('' @ fm_secs fm gap @ ''s since the last committed step) --''"

definition entry_line :: "formats \<Rightarrow> time \<Rightarrow> (int \<Rightarrow> nat) \<Rightarrow> json \<times> json \<Rightarrow> time \<Rightarrow> event \<Rightarrow> string result" where
  "entry_line fm t0 calls who tm e =
     bind_result (step_of e) (\<lambda>step.
     bind_result (left2 fm (snd who)) (\<lambda>attempt.
     bind_result (cost_text fm e) (\<lambda>cost.
     bind_result (summary fm e) (\<lambda>s.
       Inr (''  +'' @ fm_secs6 fm (tm - t0) @ ''s  seq='' @ ljust 3 (str_nat (ev_seq e)) @ '' '' @ ljust 16 (ev_type e)
            @ '' '' @ value_text (fm_repr fm) (fst who) @ ''#'' @ attempt @ '' '' @ ljust 10 cost @ '' '' @ s
            @ (if calls step > 1 then ''  [LLM asked '' @ str_nat (calls step) @ ''x]'' else ''''))))))"

section \<open>The timeline\<close>

fun timeline_loop :: "formats \<Rightarrow> time \<Rightarrow> (int \<Rightarrow> nat) \<Rightarrow> (nat \<Rightarrow> time option) \<Rightarrow> ((json \<times> json) \<times> time) option \<Rightarrow>
    event list \<Rightarrow> string list result" where
  "timeline_loop fm t0 calls seen prev [] = Inr []"
| "timeline_loop fm t0 calls seen prev (e # es) =
     bind_result (who_of e) (\<lambda>who.
       case seen (ev_seq e) of
         None \<Rightarrow> Inl (KeyError (str_nat (ev_seq e)))
       | Some tm \<Rightarrow>
           bind_result (entry_line fm t0 calls who tm e) (\<lambda>line.
           bind_result (timeline_loop fm t0 calls seen (Some (who, tm)) es) (\<lambda>rest.
             Inr ((case prev of
                     Some (prev_who, prev_time) \<Rightarrow>
                       if who \<noteq> prev_who then [takeover_line fm prev_who who (tm - prev_time)] else []
                   | None \<Rightarrow> []) @ line # rest))))"

fun task_status_text :: "task_status \<Rightarrow> string" where
  "task_status_text Queued = ''queued''"
| "task_status_text Leased = ''leased''"
| "task_status_text Done = ''done''"

definition event_times :: "db \<Rightarrow> uuid \<Rightarrow> nat \<Rightarrow> time option" where
  "event_times d rid seq = map_option er_created_at
     (List.find (\<lambda>r. ev_run_id (er_event r) = rid \<and> ev_seq (er_event r) = seq) (rev (events d)))"

definition step_calls :: "db \<Rightarrow> uuid \<Rightarrow> int \<Rightarrow> nat" where
  "step_calls d rid step =
     length (filter (\<lambda>c. pc_run_id c = rid \<and> int (pc_step_index c) = step) (provider_calls d))"

definition header_lines :: "formats \<Rightarrow> run_row \<Rightarrow> task_row option \<Rightarrow> string list" where
  "header_lines fm r task =
     [''run '' @ r_id r @ ''  status='' @ status_text (r_status r) @ ''  spent=$'' @ fm_numeric fm 6 (r_spent_usd r)
        @ '' of $'' @ fm_numeric fm 4 (r_budget_usd r),
      ''task: status='' @ (case task of Some t \<Rightarrow> task_status_text (t_status t) | None \<Rightarrow> ''-'') @ '' attempts=''
        @ str_nat (case task of Some t \<Rightarrow> t_attempt t | None \<Rightarrow> 0),
      '''']"

definition build_timeline :: "formats \<Rightarrow> uuid \<Rightarrow> db \<Rightarrow> string result" where
  "build_timeline fm rid d =
     (case find_run rid d of
        None \<Rightarrow> Inr (''run '' @ rid @ '' not found'')
      | Some r \<Rightarrow>
          bind_result (timeline_loop fm (r_created_at r) (step_calls d rid) (event_times d rid) None (read_events d rid)) (\<lambda>body.
            Inr (join_str [CHR 0x0A] (header_lines fm r (List.find (\<lambda>t. t_run_id t = rid) (tasks d)) @ body
              @ (case r_finished_at r of
                   Some f \<Rightarrow> [CHR 0x0A # ''finished after '' @ fm_secs fm (f - r_created_at r) @ ''s'']
                 | None \<Rightarrow> [])))))"

section \<open>Lemmas\<close>

text \<open>What the worker commits: a worker name and an attempt, a decimal cost, an action of the providers.\<close>

definition readable :: "event \<Rightarrow> bool" where
  "readable e \<longleftrightarrow> (\<exists>rest worker attempt. map_of (ev_payload e) ''meta'' = Some (JObj rest)
       \<and> map_of rest ''worker'' = Some (JStr worker) \<and> map_of rest ''attempt'' = Some (JInt attempt))
     \<and> (\<exists>r i. ev_idem_key e = step_key r i)
     \<and> (case map_of (ev_payload e) ''cost_usd'' of None \<Rightarrow> True | Some (JDec _) \<Rightarrow> True | _ \<Rightarrow> False)
     \<and> valid_event e
     \<and> (\<exists>obs. get_default (ev_payload e) ''observation'' (JObj []) = JObj obs
          \<and> (case map_of obs ''stderr'' of None \<Rightarrow> True | Some (JStr _) \<Rightarrow> True | _ \<Rightarrow> False))"

definition is_takeover :: "string \<Rightarrow> bool" where
  "is_takeover line \<longleftrightarrow> starts_with ''  --'' line"

text \<open>The number of events written by another worker or attempt than the event before.\<close>

fun writer_changes :: "event list \<Rightarrow> nat" where
  "writer_changes (e # e' # es) = (if who_of e = who_of e' then 0 else 1) + writer_changes (e' # es)"
| "writer_changes es = 0"

lemma step_of_key: "ev_idem_key e = step_key r i \<Longrightarrow> step_of e = Inr (int i)"
proof -
  assume k: "ev_idem_key e = step_key r i"
  have "parse_int (str_nat i) = Some (int i)"
  proof -
    have d: "list_all is_digit (str_nat i)" by (simp add: list_all_iff str_nat_digits)
    then have "split_sign (str_nat i) = (False, str_nat i)"
      by (cases "str_nat i") (auto simp: split_sign_def is_digit_def)
    with d show ?thesis by (simp add: parse_int_def all_digits_def)
  qed
  moreover have "CHR '':'' \<in> set (step_key r i)" by (simp add: step_key_def)
  ultimately show ?thesis using k by (simp add: step_of_def step_key_decode py_int_def)
qed

lemma stderr_tail_ok:
  assumes "case map_of obs ''stderr'' of None \<Rightarrow> True | Some (JStr _) \<Rightarrow> True | _ \<Rightarrow> False"
  shows "\<exists>s. stderr_tail obs = Inr s"
  using assms by (auto simp: stderr_tail_def get_default_def Let_def split: option.splits json.splits)

lemma summary_ok:
  assumes "readable e"
  shows "\<exists>s. summary fm e = Inr s"
proof (cases "map_of (ev_payload e) ''action''")
  case None
  then show ?thesis by (simp add: summary_def get_default_def Let_def split: option.split)
next
  case (Some v)
  with assms obtain a where a: "v = JObj a" "valid_action a" by (auto simp: readable_def valid_event_def)
  then obtain name args where na: "map_of a ''tool'' = Some name" "map_of a ''args'' = Some (JObj args)"
    by (auto simp: valid_action_def)
  from assms obtain obs where obs: "get_default (ev_payload e) ''observation'' (JObj []) = JObj obs"
    "case map_of obs ''stderr'' of None \<Rightarrow> True | Some (JStr _) \<Rightarrow> True | _ \<Rightarrow> False"
    by (auto simp: readable_def)
  obtain tail where t: "stderr_tail obs = Inr tail" using stderr_tail_ok [OF obs(2)] by blast
  have "get_default (ev_payload e) ''action'' JNull = JObj a" using Some a(1) by (simp add: get_default_def)
  moreover have "get_default a ''tool'' JNull = name" "get_default a ''args'' (JObj []) = JObj args"
    using na by (simp_all add: get_default_def)
  ultimately show ?thesis
    using t by (simp add: summary_def action_summary_def as_dict_def obs(1) write_summary_def run_summary_def
        contains_error_def subscript_def dict_item_def has_key_def Let_def split: option.split)
qed

lemma entry_line_ok:
  assumes "readable e"
  shows "\<exists>who line. who_of e = Inr who \<and> entry_line fm t0 calls who tm e = Inr line \<and> \<not> is_takeover line"
proof -
  from assms obtain rest worker attempt where m: "map_of (ev_payload e) ''meta'' = Some (JObj rest)"
    "map_of rest ''worker'' = Some (JStr worker)" "map_of rest ''attempt'' = Some (JInt attempt)"
    by (auto simp: readable_def)
  then have who: "who_of e = Inr (JStr worker, JInt attempt)" by (simp add: who_of_def as_dict_def get_default_def)
  obtain c where c: "cost_text fm e = Inr c"
    using assms by (auto simp: readable_def cost_text_def get_default_def Let_def split: option.splits json.splits)
  obtain s where s: "summary fm e = Inr s" using summary_ok [OF assms] by blast
  obtain i where i: "step_of e = Inr (int i)" using assms step_of_key by (auto simp: readable_def)
  show ?thesis
    by (rule exI [of _ "(JStr worker, JInt attempt)"])
       (simp add: who c s i entry_line_def left2_def is_takeover_def starts_with_def)
qed

lemma timeline_loop_ok:
  assumes "\<And>e. e \<in> set es \<Longrightarrow> readable e" and "\<And>e. e \<in> set es \<Longrightarrow> seen (ev_seq e) \<noteq> None"
  shows "\<exists>body. timeline_loop fm t0 calls seen prev es = Inr body
    \<and> length (filter (\<lambda>l. \<not> is_takeover l) body) = length es
    \<and> length (filter is_takeover body) = writer_changes es
        + (case (prev, es) of (Some (w, _), e # _) \<Rightarrow> if who_of e = Inr w then 0 else 1 | _ \<Rightarrow> 0)"
  using assms
proof (induction es arbitrary: prev)
  case (Cons e es)
  obtain tm where tm: "seen (ev_seq e) = Some tm" using Cons.prems(2) by fastforce
  obtain who line where l: "who_of e = Inr who" "entry_line fm t0 calls who tm e = Inr line" "\<not> is_takeover line"
    using entry_line_ok [OF Cons.prems(1)] by (metis list.set_intros(1))
  obtain body where b: "timeline_loop fm t0 calls seen (Some (who, tm)) es = Inr body"
    "length (filter (\<lambda>l. \<not> is_takeover l) body) = length es"
    "length (filter is_takeover body) = writer_changes es
        + (case es of e' # _ \<Rightarrow> if who_of e' = Inr who then 0 else 1 | _ \<Rightarrow> 0)"
    using Cons.IH [of "Some (who, tm)"] Cons.prems by auto
  have t: "is_takeover (takeover_line fm p w g)" for p w g
    by (simp add: is_takeover_def takeover_line_def starts_with_def)
  have w: "writer_changes (e # es) = writer_changes es + (case es of e' # _ \<Rightarrow> if who_of e' = Inr who then 0 else 1 | _ \<Rightarrow> 0)"
    using l(1) by (cases es) auto
  show ?case
    using b l tm t w by (cases prev) (auto split: prod.splits)
qed (simp split: option.splits)

lemma event_times_defined: "e \<in> set (read_events d r) \<Longrightarrow> event_times d r (ev_seq e) \<noteq> None"
  by (auto simp: event_times_def read_events_def run_events_def find_None_iff)

section \<open>Property\<close>

text \<open>
  C28. The timeline of a run whose events are what a worker commits never raises: its text is the header,
  one line per event, and one takeover line exactly where an event was written by another worker or
  attempt than the event before it.
\<close>

theorem timeline_complete:
  assumes "find_run rid d = Some r" and "\<And>e. e \<in> set (read_events d rid) \<Longrightarrow> readable e"
  shows "\<exists>body. build_timeline fm rid d =
      Inr (join_str [CHR 0x0A] (header_lines fm r (List.find (\<lambda>t. t_run_id t = rid) (tasks d)) @ body
        @ (case r_finished_at r of
             Some f \<Rightarrow> [CHR 0x0A # ''finished after '' @ fm_secs fm (f - r_created_at r) @ ''s''] | None \<Rightarrow> [])))
    \<and> length (filter (\<lambda>l. \<not> is_takeover l) body) = length (read_events d rid)
    \<and> length (filter is_takeover body) = writer_changes (read_events d rid)"
proof -
  obtain body where "timeline_loop fm (r_created_at r) (step_calls d rid) (event_times d rid) None (read_events d rid) = Inr body"
    "length (filter (\<lambda>l. \<not> is_takeover l) body) = length (read_events d rid)"
    "length (filter is_takeover body) = writer_changes (read_events d rid)"
    using timeline_loop_ok [of "read_events d rid" "event_times d rid" fm "r_created_at r" "step_calls d rid" None]
      assms(2) event_times_defined by fastforce
  then show ?thesis using assms(1) by (auto simp: build_timeline_def)
qed

definition demo_formats :: formats where
  "demo_formats = \<lparr>fm_repr = \<lambda>_. ''x'', fm_secs = \<lambda>_. ''0.00'', fm_secs6 = \<lambda>_. ''  0.00'', fm_numeric = \<lambda>_ _. ''0''\<rparr>"

theorem timeline_complete_witness:
  "\<exists>body. build_timeline demo_formats ''r'' demo_finished = Inr (join_str [CHR 0x0A] (header_lines demo_formats
      (demo_run Succeeded (35 / 100000) (Some 3)) (Some (demo_task Done (Some ''W'') (Some 30) 1)) @ body
        @ [CHR 0x0A # ''finished after 0.00s'']))
    \<and> length (filter (\<lambda>l. \<not> is_takeover l) body) = 1 \<and> length (filter is_takeover body) = 0"
proof -
  have e: "read_events demo_finished ''r'' = [demo_event]"
    by (simp add: read_events_def run_events_def demo_finished_def demo_answered_def demo_event_def)
  have r: "find_run ''r'' demo_finished = Some (demo_run Succeeded (35 / 100000) (Some 3))"
    by (simp add: find_run_def demo_finished_def)
  have "readable demo_event"
    by (simp add: readable_def demo_event_def demo_claim_def commit_payload_def demo_outcome_def agent_outcome_def
        demo_response_def finish_action_def valid_event_def valid_action_def get_default_def)
  then have "\<And>e. e \<in> set (read_events demo_finished ''r'') \<Longrightarrow> readable e" by (simp add: e)
  from timeline_complete [OF r this, of demo_formats] obtain body where
    "build_timeline demo_formats ''r'' demo_finished = Inr (join_str [CHR 0x0A] (header_lines demo_formats
      (demo_run Succeeded (35 / 100000) (Some 3)) (List.find (\<lambda>t. t_run_id t = ''r'') (tasks demo_finished)) @ body
        @ [CHR 0x0A # ''finished after '' @ fm_secs demo_formats (3 - 0) @ ''s'']))"
    "length (filter (\<lambda>l. \<not> is_takeover l) body) = length [demo_event]"
    "length (filter is_takeover body) = writer_changes [demo_event]"
    unfolding e by (auto simp: demo_run_def)
  moreover have "List.find (\<lambda>t. t_run_id t = ''r'') (tasks demo_finished) = Some (demo_task Done (Some ''W'') (Some 30) 1)"
    by (simp add: demo_finished_def demo_task_def)
  moreover have "fm_secs demo_formats (3 - 0) = ''0.00''" by (simp add: demo_formats_def)
  ultimately show ?thesis by (intro exI [of _ body]) simp
qed

end
