(* ===== verification/Api.thy ===== *)
theory Api
  imports Worker Timeline RunLimits
begin

text \<open>
  \<open>src/phoenix/api.py\<close>: the validation of a submission, its spec, and the routes. Decoding the request
  (JSON types, UUIDs, headers) and rendering the reply are FastAPI's and pydantic's: a route takes the
  decoded values and returns the reply's fields or the HTTP error.
\<close>

section \<open>Submissions\<close>

definition MAX_STEPS_CAP :: int where "MAX_STEPS_CAP = 50"
definition DEFAULT_MAX_BUDGET :: string where "DEFAULT_MAX_BUDGET = ''0.10''"

datatype run_kind = Kind_toy | Kind_agent

record SubmitRequest =
  rq_kind :: run_kind
  rq_prompt :: "string option"
  rq_mock_scenario :: "string option"
  rq_max_steps :: int
  rq_steps :: int
  rq_step_delay :: money
  rq_budget_usd :: money

text \<open>The constraints of the fields, and the validator that runs after them.\<close>

definition fields_ok :: "SubmitRequest \<Rightarrow> bool" where
  "fields_ok b \<longleftrightarrow> (case rq_prompt b of None \<Rightarrow> True | Some p \<Rightarrow> length p \<le> 8000)
     \<and> 1 \<le> rq_max_steps b \<and> rq_max_steps b \<le> MAX_STEPS_CAP
     \<and> 1 \<le> rq_steps b \<and> rq_steps b \<le> 200
     \<and> 0 \<le> rq_step_delay b \<and> rq_step_delay b \<le> 2 \<and> 0 < rq_budget_usd b"

definition check_request :: "SubmitRequest \<Rightarrow> bool" where
  "check_request b \<longleftrightarrow> rq_kind b = Kind_agent \<longrightarrow>
     rq_prompt b \<notin> {None, Some ''''}
     \<and> (case rq_mock_scenario b of None \<Rightarrow> True | Some s \<Rightarrow> s \<in> fst ` set SCENARIOS)"

definition valid_request :: "SubmitRequest \<Rightarrow> bool" where
  "valid_request b \<longleftrightarrow> fields_ok b \<and> check_request b"

definition to_spec :: "SubmitRequest \<Rightarrow> dict" where
  "to_spec b =
     (case rq_kind b of
        Kind_toy \<Rightarrow> [(''kind'', JStr ''toy''), (''steps'', JInt (rq_steps b)), (''step_delay'', JFloat (rq_step_delay b))]
      | Kind_agent \<Rightarrow>
          [(''kind'', JStr ''agent''), (''prompt'', case rq_prompt b of None \<Rightarrow> JNull | Some p \<Rightarrow> JStr p),
           (''max_steps'', JInt (rq_max_steps b))]
          @ (case rq_mock_scenario b of
               Some s \<Rightarrow> if s = '''' then [] else [(''mock_scenario'', JStr s)] | None \<Rightarrow> []))"

section \<open>Routes\<close>

datatype http_error = HTTPException nat | Uncaught error

type_synonym 'a reply = "http_error + 'a"

definition uncaught :: "'a result \<Rightarrow> 'a reply" where
  "uncaught r = map_sum Uncaught id r"

text \<open>\<open>hmac.compare_digest\<close> on two strings refuses characters outside ASCII.\<close>

definition is_ascii :: "string \<Rightarrow> bool" where
  "is_ascii s \<longleftrightarrow> list_all (\<lambda>c. (of_char c :: nat) < 128) s"

definition compare_digest :: "string \<Rightarrow> string \<Rightarrow> bool result" where
  "compare_digest a b = (if is_ascii a \<and> is_ascii b then Inr (a = b) else Inl TypeError)"

definition require_key :: "environ \<Rightarrow> string option \<Rightarrow> unit reply" where
  "require_key env x_api_key =
     (case env ''PHOENIX_API_KEY'' of
        None \<Rightarrow> Inr ()
      | Some expected \<Rightarrow>
          if expected = '''' then Inr ()
          else (case compare_digest (case x_api_key of None \<Rightarrow> '''' | Some k \<Rightarrow> k) expected of
                  Inl e \<Rightarrow> Inl (Uncaught e)
                | Inr same \<Rightarrow> if same then Inr () else Inl (HTTPException 401)))"

definition budget_cap :: "environ \<Rightarrow> money result" where
  "budget_cap env = py_Decimal (JStr (case env ''PHOENIX_API_MAX_BUDGET_USD'' of None \<Rightarrow> DEFAULT_MAX_BUDGET | Some s \<Rightarrow> s))"

definition submit :: "environ \<Rightarrow> time \<Rightarrow> uuid \<Rightarrow> uuid \<Rightarrow> SubmitRequest \<Rightarrow> db \<Rightarrow> (db \<times> uuid) reply" where
  "submit env now run_id task_id body d =
     (case budget_cap env of
        Inl e \<Rightarrow> Inl (Uncaught e)
      | Inr cap \<Rightarrow>
          if rq_budget_usd body > cap then Inl (HTTPException 422)
          else uncaught (submit_run now run_id task_id (to_spec body) (rq_budget_usd body) d))"

text \<open>\<open>POST /runs\<close>: the key, the body, the handler.\<close>

definition post_runs :: "environ \<Rightarrow> string option \<Rightarrow> time \<Rightarrow> uuid \<Rightarrow> uuid \<Rightarrow> SubmitRequest \<Rightarrow> db \<Rightarrow> (db \<times> uuid) reply" where
  "post_runs env key now run_id task_id body d =
     (case require_key env key of
        Inl e \<Rightarrow> Inl e
      | Inr _ \<Rightarrow> if \<not> valid_request body then Inl (HTTPException 422) else submit env now run_id task_id body d)"

record run_status_row =
  rs_run :: run_row
  rs_task :: "task_row option"
  rs_events :: nat

definition run_or_404 :: "uuid \<Rightarrow> db \<Rightarrow> run_status_row reply" where
  "run_or_404 run_id d =
     (case find_run run_id d of
        None \<Rightarrow> Inl (HTTPException 404)
      | Some r \<Rightarrow> Inr \<lparr>rs_run = r, rs_task = List.find (\<lambda>t. t_run_id t = run_id) (tasks d),
                      rs_events = length (run_events d run_id)\<rparr>)"

record status_reply =
  sr_status :: run_status
  sr_budget_usd :: money
  sr_spent_usd :: money
  sr_events :: nat
  sr_task :: "(task_status \<times> nat) option"
  sr_created_at :: time
  sr_finished_at :: "time option"

definition get_status :: "environ \<Rightarrow> string option \<Rightarrow> uuid \<Rightarrow> db \<Rightarrow> status_reply reply" where
  "get_status env key run_id d =
     (case require_key env key of
        Inl e \<Rightarrow> Inl e
      | Inr _ \<Rightarrow> map_sum id (\<lambda>r.
          \<lparr>sr_status = r_status (rs_run r), sr_budget_usd = r_budget_usd (rs_run r), sr_spent_usd = r_spent_usd (rs_run r),
           sr_events = rs_events r, sr_task = map_option (\<lambda>t. (t_status t, t_attempt t)) (rs_task r),
           sr_created_at = r_created_at (rs_run r), sr_finished_at = r_finished_at (rs_run r)\<rparr>) (run_or_404 run_id d))"

definition get_events :: "environ \<Rightarrow> string option \<Rightarrow> uuid \<Rightarrow> db \<Rightarrow> (nat \<times> string \<times> dict) list reply" where
  "get_events env key run_id d =
     (case require_key env key of
        Inl e \<Rightarrow> Inl e
      | Inr _ \<Rightarrow> map_sum id (\<lambda>_. map (\<lambda>e. (ev_seq e, ev_type e, ev_payload e)) (read_events d run_id)) (run_or_404 run_id d))"

definition get_timeline :: "formats \<Rightarrow> environ \<Rightarrow> string option \<Rightarrow> uuid \<Rightarrow> db \<Rightarrow> string reply" where
  "get_timeline fm env key run_id d =
     (case require_key env key of
        Inl e \<Rightarrow> Inl e
      | Inr _ \<Rightarrow> (case run_or_404 run_id d of Inl e \<Rightarrow> Inl e | Inr _ \<Rightarrow> uncaught (build_timeline fm run_id d)))"

section \<open>Lemmas\<close>

lemma post_runs_InrD:
  assumes "post_runs env key now rid tid b d = Inr (d', r)"
  shows "valid_request b" and "require_key env key = Inr ()"
    and "\<exists>cap. budget_cap env = Inr cap \<and> rq_budget_usd b \<le> cap"
    and "submit_run now rid tid (to_spec b) (rq_budget_usd b) d = Inr (d', r)"
proof -
  have "require_key env key = Inr () \<and> valid_request b \<and> submit env now rid tid b d = Inr (d', r)"
    using assms by (auto simp: post_runs_def split: sum.splits if_splits)
  moreover from this have "submit env now rid tid b d = Inr (d', r)" by blast
  then have "(\<exists>cap. budget_cap env = Inr cap \<and> rq_budget_usd b \<le> cap)
      \<and> submit_run now rid tid (to_spec b) (rq_budget_usd b) d = Inr (d', r)"
    by (cases "submit_run now rid tid (to_spec b) (rq_budget_usd b) d")
       (auto simp: submit_def uncaught_def split: sum.splits if_splits)
  ultimately show "valid_request b" "require_key env key = Inr ()"
    "\<exists>cap. budget_cap env = Inr cap \<and> rq_budget_usd b \<le> cap"
    "submit_run now rid tid (to_spec b) (rq_budget_usd b) d = Inr (d', r)" by blast+
qed

lemma submit_run_InrD:
  assumes "submit_run now rid tid spec budget d = Inr (d', r)"
  shows "r = rid" and "jsonb_ok (JObj spec)" and "rid \<notin> r_id ` set (runs d)" and "tid \<notin> t_id ` set (tasks d)"
    and "d' = d\<lparr>runs := runs d @ [\<lparr>r_id = rid, r_task_spec = spec, r_status = Pending,
        r_budget_usd = numeric_round 4 budget, r_spent_usd = 0, r_created_at = now, r_finished_at = None\<rparr>],
      tasks := tasks d @ [\<lparr>t_id = tid, t_run_id = rid, t_status = Queued, t_lease_owner = None,
        t_lease_expires_at = None, t_attempt = 0, t_available_at = now\<rparr>]\<rparr>"
  using assms
  by (auto simp: submit_run_def insert_run_def enqueue_task_def numeric_cast_def Let_def
      split: if_splits option.splits sum.splits)

lemma to_spec_items:
  "get_default (to_spec b) ''max_steps'' (JInt k) = (case rq_kind b of Kind_toy \<Rightarrow> JInt k | Kind_agent \<Rightarrow> JInt (rq_max_steps b))"
  "is_kind ''toy'' (to_spec b) \<longleftrightarrow> rq_kind b = Kind_toy" "is_kind ''agent'' (to_spec b) \<longleftrightarrow> rq_kind b = Kind_agent"
  by (auto simp: to_spec_def get_default_def is_kind_def split: run_kind.split)

lemma toy_spec_workflow:
  assumes "rq_kind b = Kind_toy"
  shows "workflow_for env real_p (to_spec b) ctx =
    Inr (Toy \<lparr>tw_steps = rq_steps b, tw_delay = rq_step_delay b, tw_cost = 1 / 10000\<rparr>)"
  using assms parse_decimal_cent
  by (simp add: workflow_for_def to_spec_def toy_init_def get_default_def py_int_def py_float_def py_Decimal_str_def)

lemma agent_spec_workflow:
  assumes "rq_kind b = Kind_agent" and "valid_request b"
  shows "workflow_for env real_p (to_spec b) ctx =
    bind_result (provider_for env real_p (to_spec b) ctx) (\<lambda>p. Inr (Agent
      \<lparr>aw_spec = to_spec b, aw_provider = p, aw_workspace_root = ec_workspace_root ctx, aw_max_steps = rq_max_steps b\<rparr>))"
  using assms
  by (auto simp: workflow_for_def to_spec_def agent_init_def get_default_def py_int_def bind_result_def split: sum.split)

lemma scenario_provider:
  assumes "rq_kind b = Kind_agent" and "valid_request b" and "rq_mock_scenario b = Some s"
    and "ec_provider ctx = None" and "env ''PHOENIX_REAL_LLM'' \<noteq> Some ''1''"
  shows "\<exists>script. map_of SCENARIOS s = Some script \<and> provider_for env real_p (to_spec b) ctx = Inr (MockProvider script)"
proof -
  have s: "s \<in> fst ` set SCENARIOS" using assms(1-3) by (auto simp: valid_request_def check_request_def)
  then obtain script where "map_of SCENARIOS s = Some script" by (metis map_of_eq_None_iff not_Some_eq)
  moreover have "s \<noteq> ''''" using s by (auto simp: SCENARIOS_def)
  ultimately show ?thesis
    using assms by (auto simp: provider_for_def to_spec_def get_scenario_def)
qed

lemma require_key_accepts:
  assumes "require_key env key = Inr ()" and "env ''PHOENIX_API_KEY'' = Some expected" and "expected \<noteq> ''''"
  shows "key = Some expected"
  using assms by (cases key) (auto simp: require_key_def compare_digest_def split: if_splits)

text \<open>A claim of the submitted run, and the lease it gets.\<close>

lemma submitted_claim:
  assumes "db_core d" and "submit_run now rid tid spec budget d = Inr (d', r)"
    and "claim_task locked t wid lease d' = (d2, Some c)" and "cl_run_id c = rid"
  shows "d2 = claimed_db \<lparr>t_id = tid, t_run_id = rid, t_status = Queued, t_lease_owner = None,
        t_lease_expires_at = None, t_attempt = 0, t_available_at = now\<rparr> wid (t + lease) d'"
    and "c = \<lparr>cl_task_id = tid, cl_run_id = rid, cl_worker_id = wid, cl_attempt = 1\<rparr>"
    and "run_events d2 rid = []" and "distinct (map r_id (runs d2))"
    and "find_run rid d2 = Some \<lparr>r_id = rid, r_task_spec = spec, r_status = Running,
        r_budget_usd = numeric_round 4 budget, r_spent_usd = 0, r_created_at = now, r_finished_at = None\<rparr>"
    and "\<exists>x \<in> set (tasks d2). held_by c x \<and> t_lease_expires_at x = Some (t + lease)"
proof -
  let ?row = "\<lparr>t_id = tid, t_run_id = rid, t_status = Queued, t_lease_owner = None,
        t_lease_expires_at = None, t_attempt = 0, t_available_at = now\<rparr>"
  note d' = submit_run_InrD [OF assms(2)]
  from assms(3) obtain row where row: "row \<in> set (tasks d')"
    "c = \<lparr>cl_task_id = t_id row, cl_run_id = t_run_id row, cl_worker_id = wid, cl_attempt = t_attempt row + 1\<rparr>"
    "d2 = claimed_db row wid (t + lease) d'"
    by (rule claim_task_SomeE)
  have old: "row \<notin> set (tasks d)" using assms(1,4) d'(3) row(2) by (auto simp: db_core_def)
  then have r: "row = ?row" using row(1) by (auto simp: d'(5))
  show d2: "d2 = claimed_db ?row wid (t + lease) d'" and c: "c = \<lparr>cl_task_id = tid, cl_run_id = rid, cl_worker_id = wid, cl_attempt = 1\<rparr>"
    using row r by simp_all
  have "rid \<notin> t_run_id ` set (tasks d)" using assms(1) d'(3) by (auto simp: db_core_def)
  then have "run_events d rid = []" using assms(1) unfolding db_core_def by metis
  then show "run_events d2 rid = []" by (simp add: d2 d'(5) claimed_db_def run_events_def)
  have "distinct (map r_id (runs d'))" using assms(1) d'(3) by (simp add: d'(5) db_core_def)
  then show "distinct (map r_id (runs d2))" by (simp add: d2 claimed_db_def sql_update_key)
  have "List.find (\<lambda>r. r_id r = rid) (runs d) = None" using d'(3) by (auto simp: find_None_iff)
  then show "find_run rid d2 = Some \<lparr>r_id = rid, r_task_spec = spec, r_status = Running,
        r_budget_usd = numeric_round 4 budget, r_spent_usd = 0, r_created_at = now, r_finished_at = None\<rparr>"
    by (simp add: d2 d'(5) claimed_db_def find_run_def find_sql_update find_append)
  show "\<exists>x \<in> set (tasks d2). held_by c x \<and> t_lease_expires_at x = Some (t + lease)"
    by (simp add: d2 d'(5) c claimed_db_def set_sql_update held_by_def)
qed

section \<open>Properties\<close>


definition demo_request :: SubmitRequest where
  "demo_request = \<lparr>rq_kind = Kind_toy, rq_prompt = None, rq_mock_scenario = None, rq_max_steps = 20, rq_steps = 3,
     rq_step_delay = 0, rq_budget_usd = 1 / 20\<rparr>"

definition demo_created :: db where
  "demo_created = empty_db\<lparr>runs := [\<lparr>r_id = ''r'', r_task_spec = to_spec demo_request, r_status = Pending,
       r_budget_usd = 1 / 20, r_spent_usd = 0, r_created_at = 0, r_finished_at = None\<rparr>],
     tasks := [\<lparr>t_id = ''t'', t_run_id = ''r'', t_status = Queued, t_lease_owner = None,
       t_lease_expires_at = None, t_attempt = 0, t_available_at = 0\<rparr>]\<rparr>"

lemma demo_post: "post_runs (\<lambda>_. None) None 0 ''r'' ''t'' demo_request empty_db = Inr (demo_created, ''r'')"
proof -
  have "numeric_round 4 (1 / 20) = 1 / 20" by (rule numeric_round_fits) (simp add: fits_scale_def)
  moreover have "budget_cap (\<lambda>_. None) = Inr (1 / 10)"
    by (simp add: budget_cap_def DEFAULT_MAX_BUDGET_def py_Decimal_def parse_decimal_def parse_plain_decimal_def
        split_sign_def all_digits_def is_digit_def int_of_str_def digit_val_def Let_def)
  ultimately show ?thesis
    by (simp add: post_runs_def require_key_def valid_request_def fields_ok_def check_request_def demo_request_def
        MAX_STEPS_CAP_def submit_def uncaught_def submit_run_def insert_run_def enqueue_task_def to_spec_def
        numeric_cast_def no_nul_def empty_db_def demo_created_def)
qed


text \<open>
  C16. End to end: in any database the platform can reach, an accepted toy submission that a worker then
  claims and whose lease does not run out is executed to the end: the run succeeds, its log has exactly
  the submitted number of events, its spend is their cost, and its task is done.
\<close>

theorem submitted_toy_run_succeeds:
  assumes "db_core d" and "post_runs env key now rid tid b d = Inr (d', r)" and "rq_kind b = Kind_toy"
    and "claim_task locked t wid lease d' = (d2, Some c)" and "cl_run_id c = rid"
    and "\<And>i. clock i < t + lease" and "no_nul wid"
  shows "\<exists>w' x'. execute_task wenv clock ae real_p ctx c \<lparr>w_db = d2, w_state = st\<rparr> = Some (Inr (), w')
    \<and> int (length (run_events (w_db w') rid)) = rq_steps b
    \<and> find_run rid (w_db w') = Some x' \<and> r_status x' = Succeeded
    \<and> r_spent_usd x' = of_int (rq_steps b) / 10000
    \<and> (\<forall>t \<in> set (tasks (w_db w')). t_id t = tid \<longrightarrow> t_status t = Done)"
proof -
  let ?w = "\<lparr>w_db = d2, w_state = st\<rparr>" and ?tw = "\<lparr>tw_steps = rq_steps b, tw_delay = rq_step_delay b, tw_cost = 1 / 10000\<rparr>"
  note ok = post_runs_InrD [OF assms(2)]
  note cl = submitted_claim [OF assms(1) ok(4) assms(4,5)]
  have n: "1 \<le> rq_steps b" "rq_steps b \<le> 200" using ok(1) by (simp_all add: valid_request_def fields_ok_def)
  have run: "execute_task wenv clock ae real_p ctx c ?w = execute_loop wenv clock (toy_step ?tw) c 0 ?w"
    by (simp add: execute_task_def assms(5) cl(5) toy_spec_workflow [OF assms(3)])
  have lease: "\<exists>x \<in> set (tasks (w_db ?w)). held_by c x \<and> expires_after (clock i) x" for i
    using cl(6) assms(6) [of i] by (auto simp: expires_after_def)
  have sc: "steps_contiguous (w_db ?w) (cl_run_id c)" by (simp add: steps_contiguous_def gapless_def cl(3) assms(5))
  obtain k where k: "Suc k = nat (rq_steps b)" using n(1) by (metis Suc_pred' zero_less_nat_eq zero_less_one less_le_trans)
  then have kr: "of_nat (Suc k) = (of_int (rq_steps b) :: rat)" using n(1) by simp
  have "(of_int (rq_steps b) :: rat) \<le> 200" using n(2) by (metis of_int_le_iff of_int_numeral)
  then have cap: "(0::rat) + of_nat (Suc k) * tw_cost ?tw < 1000000" unfolding kr by simp
  have "fits_scale 6 (tw_cost ?tw)" by (simp add: fits_scale_def)
  moreover have "find_run (cl_run_id c) (w_db ?w) = Some \<lparr>r_id = rid, r_task_spec = to_spec b, r_status = Running,
      r_budget_usd = numeric_round 4 (rq_budget_usd b), r_spent_usd = 0, r_created_at = now, r_finished_at = None\<rparr>"
    using cl(5) assms(5) by simp
  moreover have "length (run_events (w_db ?w) (cl_run_id c)) + Suc k = nat (tw_steps ?tw)" using cl(3) assms(5) k by simp
  moreover have "no_nul (cl_worker_id c)" using cl(2) assms(7) by simp
  ultimately obtain w' x' where "execute_loop wenv clock (toy_step ?tw) c 0 ?w = Some (Inr (), w')"
    "run_events (w_db w') rid = run_events d2 rid @ toy_events ?tw c (length (run_events d2 rid)) (nat (rq_steps b))"
    "find_run rid (w_db w') = Some x'" "r_status x' = Succeeded" "r_spent_usd x' = 0 + of_nat (Suc k) * tw_cost ?tw"
    "\<forall>t \<in> set (tasks (w_db w')). t_id t = cl_task_id c \<longrightarrow> t_status t = Done"
    using toy_run_from [of ?w c _ k ?tw clock wenv 0, OF _ sc _ _ lease] cl(4) cap assms(5) by (simp del: of_nat_Suc) blast
  then show ?thesis unfolding run using n kr by (auto simp: cl(2,3) toy_events_def)
qed

definition demo_started :: db where
  "demo_started = fst (claim_task [] 1 ''W'' 30 demo_created)"

theorem submitted_toy_run_succeeds_witness:
  "\<exists>w' x'. execute_task (\<lambda>_. None) (\<lambda>_. 5) plain_env (Inl OSError) \<lparr>ec_provider = None, ec_workspace_root = []\<rparr>
       \<lparr>cl_task_id = ''t'', cl_run_id = ''r'', cl_worker_id = ''W'', cl_attempt = 1\<rparr>
       \<lparr>w_db = demo_started, w_state = \<lparr>ag_workspace = None, ag_fs = \<lambda>_. None\<rparr>\<rparr> = Some (Inr (), w')
     \<and> length (run_events (w_db w') ''r'') = 3
     \<and> find_run ''r'' (w_db w') = Some x' \<and> r_status x' = Succeeded \<and> r_spent_usd x' = 3 / 10000"
proof -
  let ?c = "\<lparr>cl_task_id = ''t'', cl_run_id = ''r'', cl_worker_id = ''W'', cl_attempt = 1\<rparr>"
  have cl: "claim_task [] 1 ''W'' 30 demo_created = (demo_started, Some ?c)"
    by (simp add: demo_started_def claim_task_def claimable_def demo_created_def)
  have h: "db_core empty_db" using core_init by (simp add: core_def init_sys_def)
  have k: "rq_kind demo_request = Kind_toy" "rq_steps demo_request = 3" by (simp_all add: demo_request_def)
  have r: "cl_run_id ?c = ''r''" "\<And>i. (5::int) < 1 + 30" "no_nul ''W''" by (simp_all add: no_nul_def)
  from submitted_toy_run_succeeds [OF h demo_post k(1) cl r, of "\<lambda>_. None" plain_env "Inl OSError"
      "\<lparr>ec_provider = None, ec_workspace_root = []\<rparr>" "\<lparr>ag_workspace = None, ag_fs = \<lambda>_. None\<rparr>"]
  obtain w' x' where "execute_task (\<lambda>_. None) (\<lambda>_. 5) plain_env (Inl OSError) \<lparr>ec_provider = None, ec_workspace_root = []\<rparr> ?c
       \<lparr>w_db = demo_started, w_state = \<lparr>ag_workspace = None, ag_fs = \<lambda>_. None\<rparr>\<rparr> = Some (Inr (), w')"
    "int (length (run_events (w_db w') ''r'')) = 3" "find_run ''r'' (w_db w') = Some x'" "r_status x' = Succeeded"
    "r_spent_usd x' = of_int 3 / 10000" unfolding k(2) by blast
  then show ?thesis by (intro exI [of _ w'] exI [of _ x']) simp
qed

section \<open>The runs of the platform were submitted\<close>

definition specs :: "db \<Rightarrow> dict list" where
  "specs d = map r_task_spec (runs d)"

lemma commit_specs: "commit_step env now c n out d = Inr (d', b) \<Longrightarrow> specs d' = specs d"
proof (erule commit_step_InrE)
  fix d1 res
  assume app: "append_event now (cl_run_id c) (step_key (cl_run_id c) n) (so_type out) (commit_payload c out) d = Inr (d1, res)"
    and no: "\<not> b \<Longrightarrow> d' = d1"
    and yes: "b \<Longrightarrow> \<exists>d2. add_spend (cl_run_id c) (so_cost_usd out) d1 = Inr d2
       \<and> d' = (if so_final out then finish_run now c (so_final_status out) d2 else d2)"
  have "specs d1 = specs d" using append_event_frame [OF app] by (simp add: specs_def)
  moreover have "specs d' = specs d1" if "b"
    using yes [OF that] by (auto simp: specs_def finish_run_def sql_update_key dest!: add_spend_InrD)
  ultimately show ?thesis using no by (cases b) simp_all
qed

lemma sys_step_specs:
  "sys_step cf s s' \<Longrightarrow> list_all (cf_spec cf) (specs (sy_db s)) \<Longrightarrow> list_all (cf_spec cf) (specs (sy_db s'))"
proof (induction rule: sys_step.induct)
  case (submit now rid tid spec budget d d' js)
  then show ?case using submit_run_InrD(5) [OF submit(1)] by (simp add: specs_def)
next
  case (claim locked now w l d d' c r js)
  from claim(1) obtain row where "d' = claimed_db row w (now + l) d" by (rule claim_task_SomeE)
  with claim(3) show ?case by (simp add: specs_def claimed_db_def sql_update_key)
next
  case (beat now l j d d' b js)
  then show ?case by (auto simp: specs_def heartbeat_def)
next
  case (reap locked now d d' n js)
  then show ?case by (auto simp: specs_def reap_expired_def Let_def)
next
  case (answer j evs key resp d d' js1 js2 obs)
  then show ?case using store_response_frame [OF answer(3)] by (simp add: specs_def)
next
  case (release j e now backoff d d' b js1 js2)
  then show ?case by (auto simp: specs_def release_task_def)
qed (simp_all add: commit_specs, simp_all add: specs_def)

interpretation spec_inv: kept_invariant init_sys "sys_step cf" "\<lambda>s. list_all (cf_spec cf) (specs (sy_db s))" for cf
proof unfold_locales
  show "list_all (cf_spec cf) (specs (sy_db init_sys))" for cf by (simp add: specs_def init_sys_def empty_db_def)
qed (rule sys_step_specs)


definition demo_agent_request :: SubmitRequest where
  "demo_agent_request = \<lparr>rq_kind = Kind_agent, rq_prompt = Some ''p'', rq_mock_scenario = None, rq_max_steps = 50,
     rq_steps = 20, rq_step_delay = 0, rq_budget_usd = 1 / 20\<rparr>"

definition api_config :: config where
  "api_config = demo_config\<lparr>cf_spec := \<lambda>spec. \<exists>b. valid_request b \<and> spec = to_spec b\<rparr>"


end
