(* ===== verification/Conversation.thy ===== *)
theory Conversation
  imports Agent Text
begin

text \<open>
  What the two real providers share: both translate the run's messages (\<open>build_messages\<close>) into a chat
  protocol in which a tool call has an id and the next message answers it. The locale \<open>chat_protocol\<close>
  is the contract of such a translation loop; its conclusion, a well-formed conversation, is proved
  here once and used by \<open>OpenAICompat\<close> and \<open>Providers\<close>, which interpret it on their loops.
\<close>

text \<open>Python's \<open>v or w\<close>.\<close>

definition or_else :: "json \<Rightarrow> json \<Rightarrow> json" where
  "or_else v w = (if truthy v then v else w)"

text \<open>Every call is answered by the very next message, and nothing else answers a call.\<close>

fun calls_answered :: "(dict \<Rightarrow> json option) \<Rightarrow> (dict \<Rightarrow> json option) \<Rightarrow> json option \<Rightarrow> dict list \<Rightarrow> bool" where
  "calls_answered made answered pending [] = (pending = None)"
| "calls_answered made answered pending (m # ms) =
     (answered m = pending \<and> calls_answered made answered (made m) ms)"

definition actions_ok :: "(dict \<Rightarrow> bool) \<Rightarrow> event list \<Rightarrow> bool" where
  "actions_ok ok evs \<longleftrightarrow>
     (\<forall>e \<in> set evs. \<forall>v. map_of (ev_payload e) ''action'' = Some v \<longrightarrow> (\<exists>a. v = JObj a \<and> ok a))"

lemma actions_ok_Cons: "actions_ok ok (e # evs) \<longleftrightarrow> actions_ok ok evs
    \<and> (\<forall>v. map_of (ev_payload e) ''action'' = Some v \<longrightarrow> (\<exists>a. v = JObj a \<and> ok a))"
  by (auto simp: actions_ok_def)

text \<open>The two messages of an event with an action, as \<open>build_messages\<close> builds them.\<close>

lemma event_messages_action:
  "map_of (ev_payload e) ''action'' = Some (JObj a) \<Longrightarrow>
     event_messages e = [[(''role'', JStr ''assistant''), (''action'', JObj a)],
       [(''role'', JStr ''user''), (''observation'', get_default (ev_payload e) ''observation'' (JObj []))]]"
  by (simp add: event_messages_def)

locale chat_protocol =
  fixes ok :: "dict \<Rightarrow> bool"
    and loop :: "dict list \<Rightarrow> nat \<Rightarrow> message list \<Rightarrow> dict list result"
    and made :: "dict \<Rightarrow> json option"
    and answered :: "dict \<Rightarrow> json option"
    and cid :: "nat \<Rightarrow> string"
  assumes cid_inj: "cid m = cid n \<Longrightarrow> m = n"
    and loop_Nil: "loop out n [] = Inr out"
    and loop_turn: "ok a \<Longrightarrow> \<exists>m m' i.
      (\<forall>out rest. loop out n ([(''role'', JStr ''assistant''), (''action'', JObj a)]
          # [(''role'', JStr ''user''), (''observation'', obs)] # rest) = loop (out @ [m, m']) (Suc n) rest)
      \<and> made m = i \<and> answered m = None \<and> answered m' = i \<and> made m' = None
      \<and> (i = None \<or> i = Some (JStr (cid n)))"
begin

lemma loop_conversation:
  assumes "actions_ok ok evs"
  shows "\<exists>ts. (\<forall>out. loop out n (concat (map event_messages evs)) = Inr (out @ ts))
    \<and> calls_answered made answered None ts
    \<and> (\<forall>i \<in> set (List.map_filter made ts). \<exists>k \<ge> n. i = JStr (cid k))
    \<and> distinct (List.map_filter made ts)"
  using assms
proof (induction evs arbitrary: n)
  case Nil
  show ?case by (rule exI [of _ "[]"]) (simp add: loop_Nil map_filter_simps)
next
  case (Cons e evs)
  note evs = Cons.prems [unfolded actions_ok_Cons, THEN conjunct1]
  show ?case
  proof (cases "map_of (ev_payload e) ''action''")
    case None
    then have "event_messages e = []" by (simp add: event_messages_def)
    with Cons.IH [OF evs, of n] show ?thesis by simp
  next
    case (Some v)
    with Cons.prems obtain a where v: "map_of (ev_payload e) ''action'' = Some (JObj a)" "ok a"
      by (auto simp: actions_ok_Cons)
    obtain m m' i where t: "\<And>out rest. loop out n (event_messages e @ rest) = loop (out @ [m, m']) (Suc n) rest"
      "made m = i" "answered m = None" "answered m' = i" "made m' = None" "i = None \<or> i = Some (JStr (cid n))"
      using loop_turn [OF v(2), of n "get_default (ev_payload e) ''observation'' (JObj [])"]
      by (auto simp: event_messages_action [OF v(1)])
    obtain ts where ts: "\<And>out. loop out (Suc n) (concat (map event_messages evs)) = Inr (out @ ts)"
      "calls_answered made answered None ts" "\<forall>i \<in> set (List.map_filter made ts). \<exists>k \<ge> Suc n. i = JStr (cid k)"
      "distinct (List.map_filter made ts)"
      using Cons.IH [OF evs, of "Suc n"] by blast
    have new: "JStr (cid n) \<notin> set (List.map_filter made ts)"
      using ts(3) cid_inj by fastforce
    have mf: "List.map_filter made (m # m' # ts) = (case i of None \<Rightarrow> [] | Some x \<Rightarrow> [x]) @ List.map_filter made ts"
      using t(2,5) by (cases i) (simp_all add: map_filter_simps)
    have "loop out n (concat (map event_messages (e # evs))) = Inr (out @ m # m' # ts)" for out
      by (simp add: t(1) ts(1))
    moreover have "calls_answered made answered None (m # m' # ts)" using t(2-5) ts(2) by simp
    moreover have "\<exists>k \<ge> n. j = JStr (cid k)" if "j \<in> set (List.map_filter made (m # m' # ts))" for j
    proof (cases "j \<in> set (List.map_filter made ts)")
      case True
      with ts(3) show ?thesis using Suc_leD by blast
    next
      case False
      with that mf t(6) have "j = JStr (cid n)" by auto
      then show ?thesis by blast
    qed
    moreover have "distinct (List.map_filter made (m # m' # ts))"
      unfolding mf using t(6) ts(4) new by (auto split: option.splits)
    ultimately show ?thesis by blast
  qed
qed

text \<open>With opening messages that make and answer no call.\<close>

lemma conversation:
  assumes "actions_ok ok evs" and "list_all (\<lambda>m. made m = None \<and> answered m = None) lead"
  shows "\<exists>ts. loop lead 0 (concat (map event_messages evs)) = Inr ts
    \<and> calls_answered made answered None ts \<and> distinct (List.map_filter made ts)"
proof -
  obtain ts where ts: "loop lead 0 (concat (map event_messages evs)) = Inr (lead @ ts)"
    "calls_answered made answered None ts" "distinct (List.map_filter made ts)"
    using loop_conversation [OF assms(1), of 0] by blast
  have "calls_answered made answered None (lead @ ts)
      \<and> List.map_filter made (lead @ ts) = List.map_filter made ts"
    using assms(2) ts(2) by (induction lead) (simp_all add: map_filter_simps)
  with ts show ?thesis by auto
qed

end

end
