(* ===== verification/OpenAICompat.thy ===== *)
theory OpenAICompat
  imports Conversation
begin

text \<open>
  \<open>src/phoenix/llm/openai_compat.py\<close>: the wait before a retry, the translation of the run's messages
  into the chat-completions protocol, the parsing of a reply into an action, the retry loop, and the
  accounting of tokens. The HTTP transport is a parameter (the \<open>k\<close>-th response), as are \<open>json.dumps\<close>
  and \<open>json.loads\<close> and the system prompt of \<open>anthropic.py\<close>.
\<close>

definition MAX_ATTEMPTS :: nat where "MAX_ATTEMPTS = 6"
definition MAX_BACKOFF_S :: money where "MAX_BACKOFF_S = 60"
definition RETRY_STATUS :: "nat list" where "RETRY_STATUS = [429, 500, 502, 503, 504]"

record response =
  rp_status :: nat
  rp_retry_after :: string
  rp_text :: string
  rp_json :: "dict result"

section \<open>The wait before a retry\<close>

fun remove_first :: "char \<Rightarrow> string \<Rightarrow> string" where
  "remove_first c [] = []"
| "remove_first c (x # xs) = (if x = c then xs else x # remove_first c xs)"

text \<open>\<open>str.isdigit\<close> also accepts the superscripts of Latin-1, which \<open>float\<close> then refuses.\<close>

definition str_isdigit :: "string \<Rightarrow> bool" where
  "str_isdigit s \<longleftrightarrow> s \<noteq> [] \<and> list_all (\<lambda>c. is_digit c \<or> c \<in> {CHR 0xB2, CHR 0xB3, CHR 0xB9}) s"

text \<open>\<open>re.match(r'"retryDelay":\s*"([0-9.]+)s"', s)\<close> at the start of \<open>s\<close>, and \<open>re.search\<close>.\<close>

definition quoted_key :: string where
  "quoted_key = CHR 0x22 # ''retryDelay'' @ [CHR 0x22, CHR '':'']"

definition match_delay :: "string \<Rightarrow> string option" where
  "match_delay s =
     (if take (length quoted_key) s \<noteq> quoted_key then None
      else (case dropWhile is_space (drop (length quoted_key) s) of
              [] \<Rightarrow> None
            | c # rest \<Rightarrow>
                (let num = takeWhile (\<lambda>x. is_digit x \<or> x = CHR ''.'') rest in
                 if c = CHR 0x22 \<and> num \<noteq> [] \<and> take 2 (drop (length num) rest) = [CHR ''s'', CHR 0x22]
                 then Some num else None)))"

fun search_delay :: "string \<Rightarrow> string option" where
  "search_delay [] = match_delay []"
| "search_delay (c # s) = (case match_delay (c # s) of Some num \<Rightarrow> Some num | None \<Rightarrow> search_delay s)"

definition retry_delay :: "response \<Rightarrow> nat \<Rightarrow> money result" where
  "retry_delay resp attempt =
     (if str_isdigit (remove_first (CHR ''.'') (rp_retry_after resp)) then py_float (JStr (rp_retry_after resp))
      else (case search_delay (rp_text resp) of
              Some num \<Rightarrow> bind_result (py_float (JStr num)) (\<lambda>x. Inr (x + 1))
            | None \<Rightarrow> Inr (2 ^ attempt)))"

section \<open>Messages\<close>

definition call_id :: "nat \<Rightarrow> string" where "call_id n = ''call_'' @ str_nat n"

definition text_message :: "string \<Rightarrow> json \<Rightarrow> dict" where
  "text_message role content = [(''role'', JStr role), (''content'', content)]"

definition tool_call_message :: "(json \<Rightarrow> string) \<Rightarrow> nat \<Rightarrow> dict \<Rightarrow> dict result" where
  "tool_call_message dumps n action =
     bind_result (dict_item action ''tool'') (\<lambda>name.
     bind_result (dict_item action ''args'') (\<lambda>args.
       Inr [(''role'', JStr ''assistant''), (''content'', JNull),
            (''tool_calls'', JList [JObj
               ([(''id'', JStr (call_id n)), (''type'', JStr ''function''),
                 (''function'', JObj [(''name'', name), (''arguments'', JStr (dumps args))])]
                @ (if truthy (get_default action ''_ext'' JNull)
                   then [(''extra_content'', get_default action ''_ext'' JNull)] else []))])]))"

definition assistant_message :: "(json \<Rightarrow> string) \<Rightarrow> nat \<Rightarrow> dict \<Rightarrow> dict result" where
  "assistant_message dumps n action =
     bind_result (dict_item action ''tool'') (\<lambda>tool.
       if tool = JStr ''invalid'' then
         bind_result (dict_item action ''args'') (\<lambda>args.
         bind_result (as_dict args) (\<lambda>args.
           let content = get_default args ''text'' (JStr '''') in
           Inr (text_message ''assistant'' (if truthy content then content else JStr ''-''))))
       else tool_call_message dumps n action)"

definition observation_message :: "(json \<Rightarrow> string) \<Rightarrow> nat \<Rightarrow> dict \<Rightarrow> json \<Rightarrow> dict" where
  "observation_message dumps n prev obs =
     (if map_of prev ''role'' = Some (JStr ''assistant'') \<and> has_key ''tool_calls'' prev
      then [(''role'', JStr ''tool''), (''tool_call_id'', JStr (call_id n)), (''content'', JStr (dumps obs))]
      else text_message ''user'' (JStr (dumps obs)))"

text \<open>The loop: \<open>out\<close> is never empty, its last message is \<open>out[-1]\<close>.\<close>

fun openai_loop :: "(json \<Rightarrow> string) \<Rightarrow> dict list \<Rightarrow> nat \<Rightarrow> message list \<Rightarrow> dict list result" where
  "openai_loop dumps out n [] = Inr out"
| "openai_loop dumps out n (m # ms) =
     bind_result (dict_item m ''role'') (\<lambda>role.
       if role = JStr ''assistant'' then
         bind_result (dict_item m ''action'') (\<lambda>action.
         bind_result (as_dict action) (\<lambda>action.
         bind_result (assistant_message dumps n action) (\<lambda>msg. openai_loop dumps (out @ [msg]) n ms)))
       else (case map_of m ''observation'' of
               Some obs \<Rightarrow> openai_loop dumps (out @ [observation_message dumps n (last out) obs]) (n + 1) ms
             | None \<Rightarrow> bind_result (dict_item m ''content'') (\<lambda>content.
                 openai_loop dumps (out @ [text_message ''user'' content]) n ms)))"

definition to_openai_messages :: "(json \<Rightarrow> string) \<Rightarrow> string \<Rightarrow> message list \<Rightarrow> dict list result" where
  "to_openai_messages dumps system messages =
     openai_loop dumps [text_message ''system'' (JStr system)] 0 messages"

section \<open>Parsing a reply\<close>

definition call_args :: "(string \<Rightarrow> json option) \<Rightarrow> dict \<Rightarrow> json" where
  "call_args loads fn =
     (let args = get_default fn ''arguments'' (JObj []);
          args' = (case args of
                     JStr s \<Rightarrow> (case loads (if s = '''' then ''{}'' else s) of Some v \<Rightarrow> v | None \<Rightarrow> JObj [])
                   | _ \<Rightarrow> args)
      in (case args' of JObj d \<Rightarrow> JObj d | _ \<Rightarrow> JObj []))"

definition parse_call :: "(string \<Rightarrow> json option) \<Rightarrow> json \<Rightarrow> dict result" where
  "parse_call loads call =
     bind_result (as_dict call) (\<lambda>call.
     bind_result (as_dict (get_default call ''function'' (JObj []))) (\<lambda>fn.
       Inr ([(''tool'', get_default fn ''name'' (JStr ''invalid'')), (''args'', call_args loads fn)]
            @ (if truthy (get_default call ''extra_content'' JNull)
               then [(''_ext'', get_default call ''extra_content'' JNull)] else []))))"

definition parse_action :: "(string \<Rightarrow> json option) \<Rightarrow> dict \<Rightarrow> dict result" where
  "parse_action loads message =
     (case or_else (get_default message ''tool_calls'' JNull) (JList []) of
        JList (call # _) \<Rightarrow> parse_call loads call
      | JList [] \<Rightarrow>
          (case or_else (get_default message ''content'' JNull) (JStr '''') of
             JStr s \<Rightarrow> Inr [(''tool'', JStr ''invalid''), (''args'', JObj [(''text'', JStr (take 500 s))])]
           | JList xs \<Rightarrow> Inr [(''tool'', JStr ''invalid''), (''args'', JObj [(''text'', JList (take 500 xs))])]
           | JObj _ \<Rightarrow> Inl (KeyError ''slice(None, 500, None)'')
           | _ \<Rightarrow> Inl TypeError)
      | JObj _ \<Rightarrow> Inl AttributeError
      | JStr _ \<Rightarrow> Inl AttributeError
      | _ \<Rightarrow> Inl TypeError)"

section \<open>The retry loop\<close>

definition daily_quota :: "response \<Rightarrow> bool" where
  "daily_quota resp \<longleftrightarrow> rp_status resp = 429 \<and> sublist ''PerDay'' (rp_text resp)"

definition is_error_status :: "nat \<Rightarrow> bool" where
  "is_error_status s \<longleftrightarrow> 400 \<le> s \<and> s \<le> 599"

text \<open>
  \<open>_post\<close> from the \<open>attempt\<close>-th request on; \<open>resps k\<close> is the answer to the \<open>k\<close>-th request. The second
  component lists the waits in seconds.
\<close>

function post_from :: "string \<Rightarrow> (nat \<Rightarrow> response) \<Rightarrow> nat \<Rightarrow> dict result \<times> money list" where
  "post_from model resps attempt =
     (if attempt \<ge> MAX_ATTEMPTS then (Inl (RuntimeError ''unreachable''), [])
      else (let resp = resps attempt in
        if daily_quota resp then (Inl (QuotaExhaustedError (''daily quota exhausted for '' @ model)), [])
        else if rp_status resp \<notin> set RETRY_STATUS \<or> attempt = MAX_ATTEMPTS - 1 then
          (if is_error_status (rp_status resp) then (Inl (RuntimeError ''HTTPStatusError''), []) else (rp_json resp, []))
        else (case retry_delay resp attempt of
                Inl e \<Rightarrow> (Inl e, [])
              | Inr delay \<Rightarrow>
                  (case post_from model resps (attempt + 1) of
                     (r, waits) \<Rightarrow> (r, min delay MAX_BACKOFF_S # waits)))))"
  by pat_completeness auto
termination by (relation "measure (\<lambda>(_, _, attempt). MAX_ATTEMPTS - attempt)") auto

declare post_from.simps [simp del]

section \<open>Tokens\<close>

definition token_counts :: "dict \<Rightarrow> (int \<times> int) result" where
  "token_counts usage =
     bind_result (py_int (get_default usage ''prompt_tokens'' (JInt 0))) (\<lambda>tin.
     bind_result (py_int (or_else (get_default usage ''total_tokens'' JNull) (JInt 0))) (\<lambda>tot.
       let tout = tot - tin in
       if tout \<le> 0 then bind_result (py_int (get_default usage ''completion_tokens'' (JInt 0))) (\<lambda>t. Inr (tin, t))
       else Inr (tin, tout)))"

definition reply_message :: "dict \<Rightarrow> dict result" where
  "reply_message data =
     bind_result (dict_item data ''choices'') (\<lambda>choices.
       case choices of
         JList (JObj c # _) \<Rightarrow> bind_result (dict_item c ''message'') as_dict
       | JList [] \<Rightarrow> Inl IndexError
       | JObj _ \<Rightarrow> Inl (KeyError ''0'')
       | _ \<Rightarrow> Inl TypeError)"

definition openai_complete :: "(json \<Rightarrow> string) \<Rightarrow> (string \<Rightarrow> json option) \<Rightarrow> string \<Rightarrow> string \<Rightarrow> string \<Rightarrow> string \<Rightarrow>
    (dict list \<Rightarrow> nat \<Rightarrow> response) \<Rightarrow> message list \<Rightarrow> llm_response result" where
  "openai_complete dumps loads system model usd_in usd_out server messages =
     bind_result (to_openai_messages dumps system messages) (\<lambda>body.
     bind_result (fst (post_from model (server body) 0)) (\<lambda>data.
     bind_result (reply_message data) (\<lambda>msg.
     bind_result (parse_action loads msg) (\<lambda>action.
     bind_result (as_dict (or_else (get_default data ''usage'' JNull) (JObj []))) (\<lambda>usage.
     bind_result (token_counts usage) (\<lambda>(tin, tout).
     bind_result (token_cost tin tout usd_in usd_out) (\<lambda>cost.
       Inr \<lparr>lr_action = action, lr_input_tokens = tin, lr_output_tokens = tout, lr_cost_usd = cost\<rparr>)))))))"


section \<open>Lemmas: the conversation\<close>

lemma assistant_message_ok:
  assumes "valid_action a"
  shows "\<exists>msg. assistant_message dumps n a = Inr msg \<and> map_of msg ''role'' = Some (JStr ''assistant'')
    \<and> \<not> has_key ''tool_call_id'' msg
    \<and> (map_of msg ''tool_calls'' = None
        \<or> (\<exists>c. map_of msg ''tool_calls'' = Some (JList [JObj c]) \<and> map_of c ''id'' = Some (JStr (call_id n))))"
  using assms
  by (auto simp: valid_action_def assistant_message_def tool_call_message_def dict_item_def as_dict_def
      text_message_def has_key_def Let_def)

text \<open>The id of the tool call a message makes, and the id a tool message answers.\<close>

definition made_call :: "dict \<Rightarrow> json option" where
  "made_call m = (case map_of m ''tool_calls'' of Some (JList [JObj c]) \<Rightarrow> map_of c ''id'' | _ \<Rightarrow> None)"

definition answered_call :: "dict \<Rightarrow> json option" where
  "answered_call m = map_of m ''tool_call_id''"

interpretation openai_chat: chat_protocol valid_action "openai_loop dumps" made_call answered_call call_id for dumps
proof unfold_locales
  show "call_id m = call_id n \<Longrightarrow> m = n" for m n by (simp add: call_id_def)
  show "openai_loop dumps out n [] = Inr out" for out n by simp
next
  fix a n obs
  assume "valid_action a"
  then obtain msg where msg: "assistant_message dumps n a = Inr msg" "map_of msg ''role'' = Some (JStr ''assistant'')"
    "\<not> has_key ''tool_call_id'' msg" "map_of msg ''tool_calls'' = None
      \<or> (\<exists>c. map_of msg ''tool_calls'' = Some (JList [JObj c]) \<and> map_of c ''id'' = Some (JStr (call_id n)))"
    using assistant_message_ok by blast
  let ?m' = "observation_message dumps n msg obs"
  have "openai_loop dumps out n ([(''role'', JStr ''assistant''), (''action'', JObj a)]
      # [(''role'', JStr ''user''), (''observation'', obs)] # rest) = openai_loop dumps (out @ [msg, ?m']) (Suc n) rest" for out rest
    using msg(1) by (simp add: dict_item_def as_dict_def)
  moreover have "answered_call ?m' = made_call msg \<and> made_call ?m' = None \<and> answered_call msg = None
      \<and> (made_call msg = None \<or> made_call msg = Some (JStr (call_id n)))"
    using msg(2-4)
    by (auto simp: made_call_def answered_call_def observation_message_def text_message_def has_key_def)
  ultimately show "\<exists>m m' i. (\<forall>out rest. openai_loop dumps out n ([(''role'', JStr ''assistant''), (''action'', JObj a)]
          # [(''role'', JStr ''user''), (''observation'', obs)] # rest) = openai_loop dumps (out @ [m, m']) (Suc n) rest)
      \<and> made_call m = i \<and> answered_call m = None \<and> answered_call m' = i \<and> made_call m' = None
      \<and> (i = None \<or> i = Some (JStr (call_id n)))"
    by blast
qed

section \<open>Properties\<close>

text \<open>
  C30. The conversation sent to the model is well formed: for a run whose recorded actions are what
  \<open>parse_action\<close> returns, the translation of its messages succeeds, every tool call is answered by the
  very next message under the same id, no message answers anything else, and no id is used twice.
\<close>

theorem openai_conversation_wellformed:
  assumes "actions_ok valid_action evs" and "build_messages spec evs = Inr msgs"
  shows "\<exists>out. to_openai_messages dumps system msgs = Inr out \<and> calls_answered made_call answered_call None out
    \<and> distinct (List.map_filter made_call out)"
proof -
  from assms(2) obtain prompt where
    "msgs = [(''role'', JStr ''user''), (''content'', prompt)] # concat (map event_messages evs)"
    by (auto simp: build_messages_def bind_result_Inr_iff)
  then have "to_openai_messages dumps system msgs = openai_loop dumps
      [text_message ''system'' (JStr system), text_message ''user'' prompt] 0 (concat (map event_messages evs))"
    by (simp add: to_openai_messages_def dict_item_def)
  moreover have "made_call (text_message role v) = None \<and> answered_call (text_message role v) = None" for role v
    by (simp add: made_call_def answered_call_def text_message_def)
  ultimately show ?thesis using openai_chat.conversation [OF assms(1),
      of "[text_message ''system'' (JStr system), text_message ''user'' prompt]" dumps] by simp
qed

theorem openai_conversation_wellformed_witness:
  "\<exists>out. to_openai_messages (\<lambda>_. ''json'') ''sys'' [[(''role'', JStr ''user''), (''content'', JStr ''p'')],
       [(''role'', JStr ''assistant''), (''action'', JObj (run_action ''main.py''))],
       [(''role'', JStr ''user''), (''observation'', JObj [])]] = Inr out \<and> calls_answered made_call answered_call None out"
proof -
  have v: "actions_ok valid_action [action_event 1 (run_action ''main.py'')]"
    by (simp add: actions_ok_def action_event_def valid_action_def run_action_def)
  have "build_messages [(''prompt'', JStr ''p'')] [action_event 1 (run_action ''main.py'')] =
      Inr [[(''role'', JStr ''user''), (''content'', JStr ''p'')],
       [(''role'', JStr ''assistant''), (''action'', JObj (run_action ''main.py''))],
       [(''role'', JStr ''user''), (''observation'', JObj [])]]"
    by (simp add: build_messages_def dict_item_def event_messages_def action_event_def get_default_def)
  from openai_conversation_wellformed [OF v this] show ?thesis by blast
qed

lemma call_args_dict: "\<exists>d. call_args loads fn = JObj d"
proof -
  have "\<exists>d. (case v of JObj d \<Rightarrow> JObj d | _ \<Rightarrow> JObj []) = JObj d" for v by (cases v) auto
  then show ?thesis by (simp add: call_args_def Let_def)
qed

text \<open>
  C32. Whatever the model replies, a parsed action has a tool name and a dict of arguments, and no other
  key than \<open>tool\<close>, \<open>args\<close> and \<open>_ext\<close>; a reply without a tool call keeps at most 500 characters of its
  text under the tool \<open>invalid\<close>.
\<close>

theorem parsed_action_shape:
  assumes "parse_action loads message = Inr a"
  shows "valid_action a \<and> fst ` set a \<subseteq> {''tool'', ''args'', ''_ext''}
    \<and> (or_else (get_default message ''tool_calls'' JNull) (JList []) = JList [] \<longrightarrow>
         (\<exists>v. a = [(''tool'', JStr ''invalid''), (''args'', JObj [(''text'', v)])] \<and> (\<forall>s. v = JStr s \<longrightarrow> length s \<le> 500)))"
proof -
  have "valid_action b \<and> fst ` set b \<subseteq> {''tool'', ''args'', ''_ext''}" if "parse_call loads call = Inr b" for call b
    using that call_args_dict by (fastforce simp: parse_call_def bind_result_Inr_iff valid_action_def)
  then show ?thesis
    using assms by (auto simp: parse_action_def valid_action_def split: json.splits list.splits)
qed

theorem parsed_action_shape_witness:
  "parse_action (\<lambda>_. None) [(''content'', JStr ''hello'')] =
     Inr [(''tool'', JStr ''invalid''), (''args'', JObj [(''text'', JStr ''hello'')])]
   \<and> valid_action [(''tool'', JStr ''invalid''), (''args'', JObj [(''text'', JStr ''hello'')])]"
proof -
  have p: "parse_action (\<lambda>_. None) [(''content'', JStr ''hello'')] =
     Inr [(''tool'', JStr ''invalid''), (''args'', JObj [(''text'', JStr ''hello'')])]"
    by (simp add: parse_action_def or_else_def get_default_def)
  from parsed_action_shape [OF p] p show ?thesis by blast
qed

lemma post_from_spec:
  "attempt < MAX_ATTEMPTS \<Longrightarrow> post_from model resps attempt = (r, waits) \<Longrightarrow>
     attempt + length waits < MAX_ATTEMPTS \<and> (\<forall>w \<in> set waits. w \<le> MAX_BACKOFF_S)
     \<and> (\<forall>k < length waits. rp_status (resps (attempt + k)) \<in> set RETRY_STATUS \<and> \<not> daily_quota (resps (attempt + k)))
     \<and> (\<forall>body. r = Inr body \<longrightarrow> rp_json (resps (attempt + length waits)) = Inr body
          \<and> \<not> is_error_status (rp_status (resps (attempt + length waits))))"
proof (induction model resps attempt arbitrary: r waits rule: post_from.induct)
  case (1 model resps attempt)
  let ?resp = "resps attempt"
  consider (quota) "daily_quota ?resp"
    | (last) "\<not> daily_quota ?resp" "rp_status ?resp \<notin> set RETRY_STATUS \<or> attempt = MAX_ATTEMPTS - 1"
    | (bad) e where "\<not> daily_quota ?resp" "rp_status ?resp \<in> set RETRY_STATUS" "attempt \<noteq> MAX_ATTEMPTS - 1"
        "retry_delay ?resp attempt = Inl e"
    | (again) delay where "\<not> daily_quota ?resp" "rp_status ?resp \<in> set RETRY_STATUS" "attempt \<noteq> MAX_ATTEMPTS - 1"
        "retry_delay ?resp attempt = Inr delay"
    by (cases "retry_delay ?resp attempt") blast+
  then show ?case
  proof cases
    case quota
    with 1 show ?thesis by (auto simp: post_from.simps [of model resps attempt] Let_def)
  next
    case last
    with 1 show ?thesis by (auto simp: post_from.simps [of model resps attempt] Let_def split: if_splits)
  next
    case bad
    with 1 show ?thesis by (auto simp: post_from.simps [of model resps attempt] Let_def)
  next
    case again
    obtain r' waits' where rest: "post_from model resps (attempt + 1) = (r', waits')" by force
    with 1(2,3) again have w: "r = r'" "waits = min delay MAX_BACKOFF_S # waits'"
      by (auto simp: post_from.simps [of model resps attempt] Let_def)
    have "attempt + 1 < MAX_ATTEMPTS" using 1(2) again(3) by simp
    have IH: "attempt + 1 + length waits' < MAX_ATTEMPTS" "\<forall>w \<in> set waits'. w \<le> MAX_BACKOFF_S"
      "\<And>k. k < length waits' \<Longrightarrow> rp_status (resps (attempt + 1 + k)) \<in> set RETRY_STATUS
         \<and> \<not> daily_quota (resps (attempt + 1 + k))"
      "\<And>body. r' = Inr body \<Longrightarrow> rp_json (resps (attempt + 1 + length waits')) = Inr body
         \<and> \<not> is_error_status (rp_status (resps (attempt + 1 + length waits')))"
      using 1(1) [OF _ refl again(1) _ again(4) _ rest] 1(2) again(2,3) \<open>attempt + 1 < MAX_ATTEMPTS\<close> by simp_all
    have "rp_status (resps (attempt + k)) \<in> set RETRY_STATUS \<and> \<not> daily_quota (resps (attempt + k))"
      if "k < length waits" for k
      using that again(1,2) IH(3) [of "k - 1"] by (cases k) (auto simp: w(2))
    with IH w show ?thesis by auto
  qed
qed

text \<open>
  The retry loop is bounded and honest: it sends at most six requests, retries only answers with a
  retryable status that are no daily quota, never waits more than a minute, returns a body only if it is
  the body of the last answer and that answer is no error, and never falls through its loop.
\<close>

theorem post_bounded:
  assumes "post_from model resps 0 = (r, waits)"
  shows "length waits < 6 \<and> (\<forall>w \<in> set waits. w \<le> 60)
    \<and> (\<forall>k < length waits. rp_status (resps k) \<in> {429, 500, 502, 503, 504} \<and> \<not> daily_quota (resps k))
    \<and> (\<forall>body. r = Inr body \<longrightarrow> rp_json (resps (length waits)) = Inr body
         \<and> \<not> is_error_status (rp_status (resps (length waits))))"
  using post_from_spec [OF _ assms] by (auto simp: MAX_ATTEMPTS_def MAX_BACKOFF_S_def RETRY_STATUS_def)

definition sample_response :: "nat \<Rightarrow> response" where
  "sample_response status = \<lparr>rp_status = status, rp_retry_after = ''7'', rp_text = ''x'', rp_json = Inr []\<rparr>"

theorem post_bounded_witness:
  "post_from ''m'' (\<lambda>k. sample_response (if k = 0 then 503 else 200)) 0 = (Inr [], [7])
   \<and> rp_json (sample_response 200) = Inr []"
proof -
  have d: "retry_delay (sample_response 503) 0 = Inr 7"
    by (simp add: retry_delay_def sample_response_def str_isdigit_def all_digits_def is_digit_def py_float_def parse_decimal_def
        parse_plain_decimal_def split_sign_def int_of_str_def digit_val_def Let_def)
  have q: "\<not> daily_quota (sample_response 503)" "\<not> daily_quota (sample_response 200)"
    by (simp_all add: daily_quota_def sample_response_def)
  have "post_from ''m'' (\<lambda>k. sample_response (if k = 0 then 503 else 200)) 0 = (Inr [], [7])"
    using d q by (simp add: post_from.simps MAX_ATTEMPTS_def RETRY_STATUS_def is_error_status_def MAX_BACKOFF_S_def Let_def)
      (simp add: sample_response_def)
  from post_bounded [OF this] this show ?thesis by auto
qed

end
