(* ===== verification/Providers.thy ===== *)
theory Providers
  imports OpenAICompat Worker
begin

text \<open>
  \<open>src/phoenix/llm/factory.py\<close>, \<open>src/phoenix/llm/anthropic.py\<close> and the constructor of
  \<open>src/phoenix/llm/openai_compat.py\<close>: which real provider the environment selects, what its constructor
  refuses, and the Anthropic translation of messages and replies. The two SDK clients are parameters:
  functions from the translated messages to a reply or an exception.
\<close>

section \<open>Choosing the provider\<close>

definition KEY_ENV :: "(string \<times> string) list" where
  "KEY_ENV = [(''anthropic'', ''ANTHROPIC_API_KEY''), (''gemini'', ''GEMINI_API_KEY'')]"

definition env_get :: "environ \<Rightarrow> string \<Rightarrow> string \<Rightarrow> string" where
  "env_get env key dflt = (case env key of None \<Rightarrow> dflt | Some s \<Rightarrow> s)"

definition provider_kind :: "environ \<Rightarrow> string result" where
  "provider_kind env =
     (let kind = map lower_char (env_get env ''PHOENIX_PROVIDER'' ''anthropic'') in
      if map_of KEY_ENV kind = None then Inl (RuntimeError ''unknown PHOENIX_PROVIDER'') else Inr kind)"

definition required_key_env :: "environ \<Rightarrow> string result" where
  "required_key_env env = bind_result (provider_kind env) (\<lambda>k.
     case map_of KEY_ENV k of None \<Rightarrow> Inl (KeyError k) | Some v \<Rightarrow> Inr v)"

definition DEFAULT_MODEL :: string where "DEFAULT_MODEL = ''claude-haiku-4-5-20251001''"
definition DEFAULT_GEMINI_MODEL :: string where "DEFAULT_GEMINI_MODEL = ''gemini-3.6-flash''"

definition default_model :: "environ \<Rightarrow> string result" where
  "default_model env = bind_result (provider_kind env) (\<lambda>k.
     Inr (env_get env ''PHOENIX_MODEL'' (if k = ''gemini'' then DEFAULT_GEMINI_MODEL else DEFAULT_MODEL)))"

section \<open>Anthropic\<close>

definition USD_PER_MTOK_IN :: string where "USD_PER_MTOK_IN = ''1''"
definition USD_PER_MTOK_OUT :: string where "USD_PER_MTOK_OUT = ''5''"

definition toolu_id :: "nat \<Rightarrow> string" where "toolu_id n = ''toolu_'' @ str_nat n"

definition assistant_blocks :: "nat \<Rightarrow> json \<Rightarrow> dict result" where
  "assistant_blocks n action =
     bind_result (subscript action ''tool'') (\<lambda>tool.
     bind_result (subscript action ''args'') (\<lambda>args.
       if tool = JStr ''invalid'' then
         bind_result (as_dict args) (\<lambda>args.
           Inr (text_message ''assistant'' (or_else (get_default args ''text'' JNull) (JStr ''-''))))
       else Inr [(''role'', JStr ''assistant''),
                 (''content'', JList [JObj [(''type'', JStr ''tool_use''), (''id'', JStr (toolu_id n)),
                                            (''name'', tool), (''input'', args)]])]))"

definition is_text_reply :: "dict \<Rightarrow> bool result" where
  "is_text_reply prev =
     bind_result (dict_item prev ''role'') (\<lambda>role.
       if role \<noteq> JStr ''assistant'' then Inr False
       else bind_result (dict_item prev ''content'') (\<lambda>c. Inr (case c of JStr _ \<Rightarrow> True | JDec _ \<Rightarrow> True | _ \<Rightarrow> False)))"

definition result_blocks :: "(json \<Rightarrow> string) \<Rightarrow> nat \<Rightarrow> json \<Rightarrow> dict" where
  "result_blocks dumps n obs = [(''role'', JStr ''user''),
     (''content'', JList [JObj [(''type'', JStr ''tool_result''), (''tool_use_id'', JStr (toolu_id n)),
                                (''content'', JStr (dumps obs))]])]"

fun anthropic_loop :: "(json \<Rightarrow> string) \<Rightarrow> dict list \<Rightarrow> nat \<Rightarrow> message list \<Rightarrow> dict list result" where
  "anthropic_loop dumps out n [] = Inr out"
| "anthropic_loop dumps out n (m # ms) =
     bind_result (dict_item m ''role'') (\<lambda>role.
       if role = JStr ''assistant'' then
         bind_result (dict_item m ''action'') (\<lambda>action.
         bind_result (assistant_blocks n action) (\<lambda>msg. anthropic_loop dumps (out @ [msg]) n ms))
       else (case map_of m ''observation'' of
               Some obs \<Rightarrow>
                 if out = [] then Inl IndexError
                 else bind_result (is_text_reply (last out)) (\<lambda>text_only.
                   anthropic_loop dumps (out @ [if text_only then text_message ''user'' (JStr (dumps obs))
                                                else result_blocks dumps n obs]) (n + 1) ms)
             | None \<Rightarrow> bind_result (dict_item m ''content'') (\<lambda>content.
                 anthropic_loop dumps (out @ [text_message ''user'' content]) n ms)))"

definition to_anthropic_messages :: "(json \<Rightarrow> string) \<Rightarrow> message list \<Rightarrow> dict list result" where
  "to_anthropic_messages dumps messages = anthropic_loop dumps [] 0 messages"

record block =
  bl_type :: string
  bl_name :: string
  bl_input :: dict

record anthropic_response =
  an_content :: "block list"
  an_input_tokens :: int
  an_output_tokens :: int

definition block_action :: "block list \<Rightarrow> dict" where
  "block_action content =
     (case List.find (\<lambda>b. bl_type b = ''tool_use'') content of
        None \<Rightarrow> [(''tool'', JStr ''invalid''), (''args'', JObj [])]
      | Some b \<Rightarrow> [(''tool'', JStr (bl_name b)), (''args'', JObj (bl_input b))])"

definition anthropic_complete :: "(json \<Rightarrow> string) \<Rightarrow> (dict list \<Rightarrow> anthropic_response result) \<Rightarrow> message list \<Rightarrow>
    llm_response result" where
  "anthropic_complete dumps client messages =
     bind_result (to_anthropic_messages dumps messages) (\<lambda>body.
     bind_result (client body) (\<lambda>resp.
     bind_result (token_cost (an_input_tokens resp) (an_output_tokens resp) USD_PER_MTOK_IN USD_PER_MTOK_OUT) (\<lambda>cost.
       Inr \<lparr>lr_action = block_action (an_content resp), lr_input_tokens = an_input_tokens resp,
            lr_output_tokens = an_output_tokens resp, lr_cost_usd = cost\<rparr>)))"

section \<open>Constructors\<close>

text \<open>What lies outside the repository: JSON text, the system prompt's place in the body, the two clients.\<close>

record services =
  sv_dumps :: "json \<Rightarrow> string"
  sv_loads :: "string \<Rightarrow> json option"
  sv_system :: string
  sv_chat :: "string \<Rightarrow> dict list \<Rightarrow> nat \<Rightarrow> response"
  sv_anthropic :: "(string \<Rightarrow> dict list \<Rightarrow> anthropic_response result) result"

definition openai_init :: "services \<Rightarrow> environ \<Rightarrow> provider result" where
  "openai_init sv env =
     (if env ''PHOENIX_REAL_LLM'' \<noteq> Some ''1'' then Inl (RuntimeError ''Real LLM calls are disabled'')
      else if env_get env ''GEMINI_API_KEY'' '''' = '''' then Inl (RuntimeError ''GEMINI_API_KEY is not set'')
      else (let model = env_get env ''PHOENIX_MODEL'' DEFAULT_GEMINI_MODEL;
                usd_in = env_get env ''PHOENIX_USD_PER_MTOK_IN'' ''0'';
                usd_out = env_get env ''PHOENIX_USD_PER_MTOK_OUT'' ''0'' in
            bind_result (py_float (JStr (env_get env ''PHOENIX_MIN_REQUEST_INTERVAL_S'' ''0''))) (\<lambda>_.
              Inr \<lparr>pv_name = ''openai-compat:'' @ model,
                   pv_complete = openai_complete (sv_dumps sv) (sv_loads sv) (sv_system sv) model usd_in usd_out
                                   (sv_chat sv model)\<rparr>)))"

definition anthropic_init :: "services \<Rightarrow> environ \<Rightarrow> provider result" where
  "anthropic_init sv env =
     (if env ''PHOENIX_REAL_LLM'' \<noteq> Some ''1'' then Inl (RuntimeError ''Real LLM calls are disabled'')
      else (let model = env_get env ''PHOENIX_MODEL'' DEFAULT_MODEL in
            bind_result (sv_anthropic sv) (\<lambda>client.
              Inr \<lparr>pv_name = ''anthropic:'' @ model, pv_complete = anthropic_complete (sv_dumps sv) (client model)\<rparr>)))"

definition real_provider :: "services \<Rightarrow> environ \<Rightarrow> provider result" where
  "real_provider sv env = bind_result (provider_kind env) (\<lambda>k.
     if k = ''gemini'' then openai_init sv env else anthropic_init sv env)"

section \<open>Lemmas\<close>

text \<open>The calls an Anthropic message makes and answers.\<close>

definition used_tool :: "dict \<Rightarrow> json option" where
  "used_tool m = (case map_of m ''content'' of
       Some (JList [JObj c]) \<Rightarrow> if map_of c ''type'' = Some (JStr ''tool_use'') then map_of c ''id'' else None | _ \<Rightarrow> None)"

definition answered_tool :: "dict \<Rightarrow> json option" where
  "answered_tool m = (case map_of m ''content'' of
       Some (JList [JObj c]) \<Rightarrow> if map_of c ''type'' = Some (JStr ''tool_result'') then map_of c ''tool_use_id'' else None | _ \<Rightarrow> None)"

text \<open>An action as \<open>block_action\<close> returns it: a text-only reply has no arguments or a text.\<close>

definition anthropic_action :: "dict \<Rightarrow> bool" where
  "anthropic_action a \<longleftrightarrow> (\<exists>name args. map_of a ''tool'' = Some name \<and> map_of a ''args'' = Some (JObj args)
     \<and> (name = JStr ''invalid'' \<longrightarrow> (case get_default args ''text'' JNull of JNull \<Rightarrow> True | JStr _ \<Rightarrow> True | _ \<Rightarrow> False)))"

lemma block_action_ok:
  assumes "\<And>b. b \<in> set content \<Longrightarrow> bl_name b \<noteq> ''invalid''"
  shows "anthropic_action (block_action content)"
proof (cases "List.find (\<lambda>b. bl_type b = ''tool_use'') content")
  case (Some b)
  with assms [of b] find_SomeD [OF Some] show ?thesis by (simp add: block_action_def anthropic_action_def)
qed (simp add: block_action_def anthropic_action_def get_default_def)

interpretation anthropic_chat: chat_protocol anthropic_action "anthropic_loop dumps" used_tool answered_tool toolu_id for dumps
proof unfold_locales
  show "toolu_id m = toolu_id n \<Longrightarrow> m = n" for m n by (simp add: toolu_id_def)
  show "anthropic_loop dumps out n [] = Inr out" for out n by simp
next
  fix a n obs
  assume "anthropic_action a"
  then obtain name args where a: "map_of a ''tool'' = Some name" "map_of a ''args'' = Some (JObj args)"
    "name = JStr ''invalid'' \<Longrightarrow> (case get_default args ''text'' JNull of JNull \<Rightarrow> True | JStr _ \<Rightarrow> True | _ \<Rightarrow> False)"
    by (auto simp: anthropic_action_def)
  let ?conv = "\<lambda>m m'. \<forall>out rest. anthropic_loop dumps out n ([(''role'', JStr ''assistant''), (''action'', JObj a)]
          # [(''role'', JStr ''user''), (''observation'', obs)] # rest) = anthropic_loop dumps (out @ [m, m']) (Suc n) rest"
  show "\<exists>m m' i. ?conv m m' \<and> used_tool m = i \<and> answered_tool m = None \<and> answered_tool m' = i \<and> used_tool m' = None
      \<and> (i = None \<or> i = Some (JStr (toolu_id n)))"
  proof (cases "name = JStr ''invalid''")
    case True
    have "\<exists>s. or_else (get_default args ''text'' JNull) (JStr ''-'') = JStr s"
      using a(3) [OF True] by (cases "get_default args ''text'' JNull") (auto simp: or_else_def)
    then obtain s where s: "or_else (get_default args ''text'' JNull) (JStr ''-'') = JStr s" ..
    have "?conv (text_message ''assistant'' (JStr s)) (text_message ''user'' (JStr (dumps obs)))"
      using a(1,2) True s
      by (simp add: dict_item_def assistant_blocks_def subscript_def as_dict_def text_message_def is_text_reply_def)
    moreover have "used_tool (text_message role (JStr t)) = None \<and> answered_tool (text_message role (JStr t)) = None" for role t
      by (simp add: used_tool_def answered_tool_def text_message_def)
    ultimately show ?thesis by blast
  next
    case False
    let ?m = "[(''role'', JStr ''assistant''), (''content'', JList [JObj [(''type'', JStr ''tool_use''),
      (''id'', JStr (toolu_id n)), (''name'', name), (''input'', JObj args)]])]"
    have "?conv ?m (result_blocks dumps n obs)"
      using a(1,2) False by (simp add: dict_item_def assistant_blocks_def subscript_def is_text_reply_def)
    moreover have "used_tool ?m = Some (JStr (toolu_id n))" "answered_tool ?m = None"
      "answered_tool (result_blocks dumps n obs) = Some (JStr (toolu_id n))" "used_tool (result_blocks dumps n obs) = None"
      by (simp_all add: used_tool_def answered_tool_def result_blocks_def)
    ultimately show ?thesis by blast
  qed
qed

section \<open>Properties\<close>

text \<open>
  C31. The Anthropic conversation is well formed too: whatever the run recorded of what \<open>complete\<close> can
  return, every tool use is answered by the very next message under its id, nothing else is answered,
  and no id is used twice.
\<close>

theorem anthropic_conversation_wellformed:
  assumes "actions_ok anthropic_action evs" and "map_of spec ''prompt'' = Some (JStr p)"
    and "build_messages spec evs = Inr msgs"
  shows "\<exists>out. to_anthropic_messages dumps msgs = Inr out \<and> calls_answered used_tool answered_tool None out
    \<and> distinct (List.map_filter used_tool out)"
proof -
  from assms(2,3) have "msgs = [(''role'', JStr ''user''), (''content'', JStr p)] # concat (map event_messages evs)"
    by (simp add: build_messages_def dict_item_def)
  then have "to_anthropic_messages dumps msgs =
      anthropic_loop dumps [text_message ''user'' (JStr p)] 0 (concat (map event_messages evs))"
    by (simp add: to_anthropic_messages_def dict_item_def)
  moreover have "list_all (\<lambda>m. used_tool m = None \<and> answered_tool m = None) [text_message ''user'' (JStr p)]"
    by (simp add: used_tool_def answered_tool_def text_message_def)
  ultimately show ?thesis using anthropic_chat.conversation [OF assms(1)] by simp
qed

theorem anthropic_conversation_wellformed_witness:
  "\<exists>out. to_anthropic_messages (\<lambda>_. ''json'') [[(''role'', JStr ''user''), (''content'', JStr ''p'')],
       [(''role'', JStr ''assistant''), (''action'', JObj (run_action ''main.py''))],
       [(''role'', JStr ''user''), (''observation'', JObj [])]] = Inr out \<and> calls_answered used_tool answered_tool None out"
proof -
  have v: "actions_ok anthropic_action [action_event 1 (run_action ''main.py'')]"
    by (simp add: actions_ok_def action_event_def anthropic_action_def run_action_def)
  have p: "map_of [(''prompt'', JStr ''p'')] ''prompt'' = Some (JStr ''p'')" by simp
  have "build_messages [(''prompt'', JStr ''p'')] [action_event 1 (run_action ''main.py'')] =
      Inr [[(''role'', JStr ''user''), (''content'', JStr ''p'')],
       [(''role'', JStr ''assistant''), (''action'', JObj (run_action ''main.py''))],
       [(''role'', JStr ''user''), (''observation'', JObj [])]]"
    by (simp add: build_messages_def dict_item_def event_messages_def action_event_def get_default_def)
  from anthropic_conversation_wellformed [OF v p this] show ?thesis by blast
qed

end
