(* ===== verification/Evals.thy ===== *)
theory Evals
  imports Providers Sandbox Api
begin

text \<open>
  \<open>src/phoenix/evals/\<close>: the scripted agent of an eval task (\<open>catalog.py\<close>), the spending check, the
  specs and the grading of a run (\<open>runner.py\<close>), and the summary of the results (\<open>report.py\<close>). The
  files of a task and the sandbox run of its hidden test are parameters; reading the task directory,
  polling for the end of the runs, and starting the workers are not modelled.
\<close>

section \<open>Tasks and scripts\<close>

text \<open>\<open>et_files\<close> is what \<open>read_text\<close> finds in the task's directory.\<close>

record EvalTask =
  et_id :: string
  et_name :: string
  et_difficulty :: string
  et_prompt :: string
  et_files :: "string \<Rightarrow> string option"
  et_fail_first :: int
  et_outcome :: string

definition read_file :: "EvalTask \<Rightarrow> string \<Rightarrow> string result" where
  "read_file t name = (case et_files t name of None \<Rightarrow> Inl OSError | Some s \<Rightarrow> Inr s)"

definition hidden_test :: "EvalTask \<Rightarrow> string result" where "hidden_test t = read_file t ''test.py''"
definition reference :: "EvalTask \<Rightarrow> string result" where "reference t = read_file t ''solution.py''"

definition final_solution :: "EvalTask \<Rightarrow> string result" where
  "final_solution t = read_file t (if et_outcome t = ''wrong'' then ''wrong_solution.py'' else ''solution.py'')"

definition CHECK :: string where
  "CHECK = ''import solution'' @ [CHR 0x0A] @ ''print('' @ [CHR 0x27] @ ''imported ok:'' @ [CHR 0x27]
     @ '', [n for n in dir(solution) if not n.startswith('' @ [CHR 0x27] @ ''_'' @ [CHR 0x27] @ '')])'' @ [CHR 0x0A]"

text \<open>\<open>xs[:k]\<close>: a negative \<open>k\<close> counts from the end.\<close>

definition slice_to :: "int \<Rightarrow> 'a list \<Rightarrow> 'a list" where
  "slice_to k xs = take (nat (if k < 0 then int (length xs) + k else k)) xs"

definition drafts :: "string \<Rightarrow> string list" where
  "drafts ref = [''import missing_module_xyz'' @ [CHR 0x0A] @ ref,
     ref @ [CHR 0x0A] @ ''assert False, '' @ [CHR 0x27] @ ''self-check failed'' @ [CHR 0x27] @ [CHR 0x0A]]"

definition mock_script :: "EvalTask \<Rightarrow> dict list result" where
  "mock_script t =
     bind_result (reference t) (\<lambda>ref.
     bind_result (final_solution t) (\<lambda>final.
       Inr ([write_action ''check.py'' CHECK]
            @ concat (map (\<lambda>draft. [write_action ''solution.py'' draft, run_action ''check.py'']) (slice_to (et_fail_first t) (drafts ref)))
            @ [write_action ''solution.py'' final, run_action ''check.py'', finish_action ''done''])))"

section \<open>The spending check and the specs\<close>

datatype config_error = EvalConfigError string

definition check_real_mode :: "environ \<Rightarrow> bool \<Rightarrow> money \<Rightarrow> nat \<Rightarrow> money \<Rightarrow> config_error + unit" where
  "check_real_mode env is_real per_run_usd n_tasks cap_usd =
     (if per_run_usd * of_nat n_tasks > cap_usd then Inl (EvalConfigError ''worst case exceeds the global cap'')
      else if \<not> is_real then Inr ()
      else if env ''PHOENIX_REAL_LLM'' \<noteq> Some ''1'' then Inl (EvalConfigError ''--real also requires PHOENIX_REAL_LLM=1'')
      else (case required_key_env env of
              Inl e \<Rightarrow> Inl (EvalConfigError ''unknown PHOENIX_PROVIDER'')
            | Inr key_env \<Rightarrow> if env_get env key_env '''' = '''' then Inl (EvalConfigError (''--real requires '' @ key_env))
                             else Inr ()))"

definition spec_for :: "EvalTask \<Rightarrow> bool \<Rightarrow> dict result" where
  "spec_for t is_real =
     (let spec = [(''kind'', JStr ''agent''), (''prompt'', JStr (et_prompt t)), (''max_steps'', JInt 20)] in
      if is_real then Inr spec
      else bind_result (mock_script t) (\<lambda>script. Inr (spec @ [(''mock_script'', JList (map JObj script))])))"

text \<open>The submissions of \<open>run_evals\<close>, one transaction each, with the ids the database draws.\<close>

fun submit_all :: "bool \<Rightarrow> money \<Rightarrow> (EvalTask \<times> time \<times> uuid \<times> uuid) list \<Rightarrow> db \<Rightarrow> (db \<times> (string \<times> uuid) list) result" where
  "submit_all is_real per_run_usd [] d = Inr (d, [])"
| "submit_all is_real per_run_usd ((t, now, rid, tid) # ts) d =
     bind_result (spec_for t is_real) (\<lambda>spec.
     bind_result (submit_run now rid tid spec per_run_usd d) (\<lambda>(d1, r).
     bind_result (submit_all is_real per_run_usd ts d1) (\<lambda>(d2, ids). Inr (d2, (et_id t, r) # ids))))"

section \<open>Grading\<close>

record TaskResult =
  tr_id :: string
  tr_name :: string
  tr_difficulty :: string
  tr_run_status :: string
  tr_passed :: bool
  tr_steps :: nat
  tr_attempts :: nat
  tr_tokens :: money
  tr_cost_usd :: money
  tr_latency_s :: money
  tr_note :: string

definition HIDDEN_TEST_NAME :: string where "HIDDEN_TEST_NAME = ''_hidden_test.py''"

text \<open>A number of tokens of a payload: what \<open>+\<close> and \<open>sum\<close> accept.\<close>

definition number_of :: "json \<Rightarrow> money result" where
  "number_of v = (case v of
       JInt i \<Rightarrow> Inr (of_int i) | JBool b \<Rightarrow> Inr (if b then 1 else 0) | JFloat q \<Rightarrow> Inr q | _ \<Rightarrow> Inl TypeError)"

definition event_tokens :: "event \<Rightarrow> money result" where
  "event_tokens e =
     bind_result (number_of (get_default (ev_payload e) ''input_tokens'' (JInt 0))) (\<lambda>a.
     bind_result (number_of (get_default (ev_payload e) ''output_tokens'' (JInt 0))) (\<lambda>b. Inr (a + b)))"

definition is_run_code :: "event \<Rightarrow> bool result" where
  "is_run_code e = bind_result (as_dict (get_default (ev_payload e) ''action'' (JObj []))) (\<lambda>a.
     Inr (get_default a ''tool'' JNull = JStr ''run_code''))"

definition last_reason :: "(json \<Rightarrow> string) \<Rightarrow> event list \<Rightarrow> string" where
  "last_reason repr_of evs = value_text repr_of (get_default (ev_payload (last evs)) ''reason'' (JStr ''''))"

text \<open>The platform or the provider broke, as opposed to the model.\<close>

definition infra_failure :: "(json \<Rightarrow> string) \<Rightarrow> event list \<Rightarrow> bool" where
  "infra_failure repr_of evs \<longleftrightarrow> evs \<noteq> [] \<and> ev_type (last evs) = ''failed''
     \<and> (starts_with ''worker error'' (last_reason repr_of evs) \<or> starts_with ''fatal error'' (last_reason repr_of evs))"

definition graded_status :: "(json \<Rightarrow> string) \<Rightarrow> run_row \<Rightarrow> event list \<Rightarrow> string" where
  "graded_status repr_of r evs =
     (if infra_failure repr_of evs then ''error''
      else if r_status r \<in> set TERMINAL then status_text (r_status r) else ''timeout'')"

type_synonym test_runner = "path \<Rightarrow> string list \<Rightarrow> fs \<Rightarrow> SandboxResult result \<times> fs"

definition grade_dir :: "path \<Rightarrow> EvalTask \<Rightarrow> path" where
  "grade_dir tmp t = tmp @ [''grade-'' @ et_id t]"

text \<open>Rebuild the agent's files, add the hidden test, run it with \<open>GRADE_POLICY\<close>.\<close>

definition run_hidden_test :: "agent_env \<Rightarrow> test_runner \<Rightarrow> EvalTask \<Rightarrow> path \<Rightarrow> event list \<Rightarrow> fs \<Rightarrow> SandboxResult result \<times> fs" where
  "run_hidden_test ae run t tmp evs fs =
     (let dir = grade_dir tmp t in
      case materialize_workspace ae dir evs fs of
        (Inl e, fs1) \<Rightarrow> (Inl e, fs1)
      | (Inr _, fs1) \<Rightarrow>
          (case bind_result (hidden_test t) (\<lambda>s. write_text (dir @ [HIDDEN_TEST_NAME]) s fs1) of
             Inl e \<Rightarrow> (Inl e, fs1)
           | Inr fs2 \<Rightarrow> run dir [''python'', HIDDEN_TEST_NAME] fs2))"

definition failure_note :: "SandboxResult \<Rightarrow> string" where
  "failure_note res = ''hidden test failed: ''
     @ take 60 (let ls = splitlines (py_strip (sr_stderr res)) in if ls = [] then ''?'' else last ls)"

definition grade :: "agent_env \<Rightarrow> (json \<Rightarrow> string) \<Rightarrow> test_runner \<Rightarrow> EvalTask \<Rightarrow> uuid \<Rightarrow> path \<Rightarrow> db \<Rightarrow> fs \<Rightarrow>
    TaskResult result \<times> fs" where
  "grade ae repr_of run t rid tmp d fs =
     (case find_run rid d of
        None \<Rightarrow> (Inl TypeError, fs)
      | Some r \<Rightarrow>
          (let evs = read_events d rid; status = graded_status repr_of r evs;
               reason = (if infra_failure repr_of evs then take 90 (last_reason repr_of evs) else '''') in
           case bind_result (map_result event_tokens evs) (\<lambda>ns. bind_result (map_result is_run_code evs) (\<lambda>bs.
                  Inr (sum_list ns, length (filter id bs)))) of
             Inl e \<Rightarrow> (Inl e, fs)
           | Inr (tokens, attempts) \<Rightarrow>
               (let result = \<lambda>passed note.
                  \<lparr>tr_id = et_id t, tr_name = et_name t, tr_difficulty = et_difficulty t, tr_run_status = status,
                   tr_passed = passed, tr_steps = length evs, tr_attempts = attempts, tr_tokens = tokens,
                   tr_cost_usd = r_spent_usd r,
                   tr_latency_s = (case r_finished_at r of None \<Rightarrow> 0 | Some f \<Rightarrow> of_int (f - r_created_at r) / 1000000),
                   tr_note = (if note = '''' then reason else note)\<rparr> in
                if status = ''succeeded'' then
                  (case run_hidden_test ae run t tmp evs fs of
                     (Inl e, fs1) \<Rightarrow> (Inl e, fs1)
                   | (Inr res, fs1) \<Rightarrow>
                       (let passed = (sr_exit_code res = 0 \<and> \<not> sr_timed_out res) in
                        (Inr (result passed (if passed then '''' else failure_note res)), fs1)))
                else (Inr (result False ''''), fs))))"

section \<open>The summary\<close>

text \<open>\<open>rnd\<close> is Python's \<open>round\<close> of a float to a number of digits.\<close>

record eval_summary =
  sm_mode :: string
  sm_model :: string
  sm_tasks :: nat
  sm_unfinished :: nat
  sm_passed :: nat
  sm_pass_rate :: money
  sm_avg_attempts :: money
  sm_total_tokens :: money
  sm_total_cost_usd :: money
  sm_latency_mean :: money
  sm_latency_p50 :: money
  sm_latency_max :: money
  sm_by_difficulty :: "(string \<times> nat \<times> nat) list"

definition count_where :: "('a \<Rightarrow> bool) \<Rightarrow> 'a list \<Rightarrow> nat" where
  "count_where p xs = length (filter p xs)"

definition fmean :: "money list \<Rightarrow> money" where
  "fmean xs = sum_list xs / of_nat (length xs)"

definition median :: "money list \<Rightarrow> money" where
  "median xs = (let ys = sort xs; n = length ys in
     if odd n then ys ! (n div 2) else (ys ! (n div 2 - 1) + ys ! (n div 2)) / 2)"

definition DIFFICULTIES :: "string list" where
  "DIFFICULTIES = [''easy'', ''medium'', ''hard'', ''challenge'']"

definition by_difficulty :: "TaskResult list \<Rightarrow> (string \<times> nat \<times> nat) list" where
  "by_difficulty results =
     map (\<lambda>d. (d, count_where (\<lambda>r. tr_difficulty r = d) results, count_where (\<lambda>r. tr_difficulty r = d \<and> tr_passed r) results))
       (filter (\<lambda>d. \<exists>r \<in> set results. tr_difficulty r = d) DIFFICULTIES)"

definition summarize :: "(nat \<Rightarrow> money \<Rightarrow> money) \<Rightarrow> TaskResult list \<Rightarrow> string \<Rightarrow> string \<Rightarrow> eval_summary" where
  "summarize rnd results mode model =
     (let n = length results; lat = sort (map tr_latency_s results) in
      \<lparr>sm_mode = mode, sm_model = model, sm_tasks = n,
       sm_unfinished = count_where (\<lambda>r. tr_run_status r \<in> {''timeout'', ''error''}) results,
       sm_passed = count_where tr_passed results,
       sm_pass_rate = (if n > 0 then rnd 4 (of_nat (count_where tr_passed results) / of_nat n) else 0),
       sm_avg_attempts = (if n > 0 then rnd 3 (fmean (map (of_nat \<circ> tr_attempts) results)) else 0),
       sm_total_tokens = sum_list (map tr_tokens results),
       sm_total_cost_usd = sum_list (map tr_cost_usd results),
       sm_latency_mean = (if n > 0 then rnd 2 (fmean lat) else 0),
       sm_latency_p50 = (if n > 0 then rnd 2 (median lat) else 0),
       sm_latency_max = (if n > 0 then rnd 2 (last lat) else 0),
       sm_by_difficulty = by_difficulty results\<rparr>)"

text \<open>The exit code of \<open>_eval\<close> in \<open>__main__.py\<close> once the results are in: 3 when the pass rate is no result.\<close>

definition eval_exit_code :: "eval_summary \<Rightarrow> nat" where
  "eval_exit_code s = (if sm_unfinished s \<noteq> 0 then 3 else 0)"

section \<open>Lemmas\<close>

lemma grade_InrE:
  assumes "grade ae repr_of run t rid tmp d fs = (Inr tr, fs')"
  obtains r where "find_run rid d = Some r" "tr_run_status tr = graded_status repr_of r (read_events d rid)"
    "tr_steps tr = length (read_events d rid)" "tr_cost_usd tr = r_spent_usd r"
    "tr_passed tr \<Longrightarrow> tr_run_status tr = ''succeeded'' \<and> (\<exists>res. run_hidden_test ae run t tmp (read_events d rid) fs = (Inr res, fs')
        \<and> sr_exit_code res = 0 \<and> \<not> sr_timed_out res)"
  using assms by (auto simp: grade_def Let_def split: option.splits sum.splits prod.splits if_splits)

lemma grade_id: "grade ae repr_of run t rid tmp d fs = (Inr tr, fs') \<Longrightarrow> tr_id tr = et_id t"
  by (auto simp: grade_def Let_def split: option.splits sum.splits prod.splits if_splits)

lemma graded_status_cases:
  "graded_status repr_of r evs \<in> {''succeeded'', ''failed'', ''budget_exceeded'', ''timeout'', ''error''}"
  by (cases "r_status r") (auto simp: graded_status_def TERMINAL_def)

lemma graded_succeeded:
  "graded_status repr_of r evs = ''succeeded'' \<longleftrightarrow> r_status r = Succeeded \<and> \<not> infra_failure repr_of evs"
  by (cases "r_status r") (auto simp: graded_status_def TERMINAL_def)

text \<open>The exit code 0 of a summary of graded results: every one of them is a verdict.\<close>

definition VERDICTS :: "string set" where
  "VERDICTS = {''succeeded'', ''failed'', ''budget_exceeded''}"

lemma exit_zero_verdicts:
  assumes "eval_exit_code (summarize rnd results mode model) = 0" and "tr \<in> set results"
    and "grade ae repr_of run t rid tmp d fs = (Inr tr, fs')"
  shows "tr_run_status tr \<in> VERDICTS"
proof -
  have "sm_unfinished (summarize rnd results mode model) = count_where (\<lambda>r. tr_run_status r \<in> {''timeout'', ''error''}) results"
    by (simp add: summarize_def Let_def)
  with assms(1) have "count_where (\<lambda>r. tr_run_status r \<in> {''timeout'', ''error''}) results = 0"
    by (simp only: eval_exit_code_def split: if_splits)
  then have "tr_run_status tr \<notin> {''timeout'', ''error''}"
    using assms(2) by (simp add: count_where_def filter_empty_conv)
  moreover from assms(3) have "tr_run_status tr \<in> {''succeeded'', ''failed'', ''budget_exceeded'', ''timeout'', ''error''}"
    by (rule grade_InrE) (use graded_status_cases in metis)
  ultimately show ?thesis unfolding VERDICTS_def by blast
qed

lemma run_hidden_test_InrE:
  assumes "run_hidden_test ae run t tmp evs fs = (Inr res, fs')"
  obtains fs1 s fs2 where "materialize_workspace ae (grade_dir tmp t) evs fs = (Inr (), fs1)"
    "hidden_test t = Inr s" "write_text (grade_dir tmp t @ [HIDDEN_TEST_NAME]) s fs1 = Inr fs2"
    "run (grade_dir tmp t) [''python'', HIDDEN_TEST_NAME] fs2 = (Inr res, fs')"
proof -
  obtain m fs1 where m: "materialize_workspace ae (grade_dir tmp t) evs fs = (m, fs1)" by force
  with assms have "m = Inr ()" by (cases m) (auto simp: run_hidden_test_def)
  with m assms that show ?thesis
    by (cases "hidden_test t"; cases "write_text (grade_dir tmp t @ [HIDDEN_TEST_NAME]) (projr (hidden_test t)) fs1")
       (auto simp: run_hidden_test_def)
qed

lemma spec_for_InrD:
  assumes "spec_for t is_real = Inr spec"
  shows "is_kind ''agent'' spec" and "get_default spec ''max_steps'' (JInt k) = JInt 20"
  using assms by (auto simp: spec_for_def Let_def is_kind_def get_default_def bind_result_Inr_iff split: if_splits)

lemma submit_all_InrD:
  assumes "submit_all is_real per_run ts d = Inr (d', ids)"
  shows "\<exists>new. runs d' = runs d @ new \<and> length new = length ts \<and> length ids = length ts
    \<and> map r_id new = map snd ids \<and> distinct (map r_id new) \<and> set (map r_id new) \<inter> r_id ` set (runs d) = {}
    \<and> (\<forall>x \<in> set new. is_kind ''agent'' (r_task_spec x) \<and> get_default (r_task_spec x) ''max_steps'' (JInt DEFAULT_MAX_STEPS) = JInt 20
         \<and> r_budget_usd x = numeric_round 4 per_run \<and> r_spent_usd x = 0 \<and> r_status x = Pending)"
  using assms
proof (induction ts arbitrary: d d' ids)
  case (Cons p ts)
  obtain t now rid tid where p: "p = (t, now, rid, tid)" by (cases p)
  from Cons.prems obtain spec d1 r rest where s: "spec_for t is_real = Inr spec"
    "submit_run now rid tid spec per_run d = Inr (d1, r)" "submit_all is_real per_run ts d1 = Inr (d', rest)"
    "ids = (et_id t, r) # rest"
    by (auto simp: p bind_result_Inr_iff split: prod.splits)
  note sub = submit_run_InrD [OF s(2)]
  let ?x = "\<lparr>r_id = rid, r_task_spec = spec, r_status = Pending, r_budget_usd = numeric_round 4 per_run,
      r_spent_usd = 0, r_created_at = now, r_finished_at = None\<rparr>"
  have d1: "runs d1 = runs d @ [?x]" by (simp add: sub(5))
  from Cons.IH [OF s(3)] obtain new where new: "runs d' = runs d1 @ new" "length new = length ts"
    "length rest = length ts" "map r_id new = map snd rest" "distinct (map r_id new)"
    "set (map r_id new) \<inter> r_id ` set (runs d1) = {}"
    "\<forall>x \<in> set new. is_kind ''agent'' (r_task_spec x) \<and> get_default (r_task_spec x) ''max_steps'' (JInt DEFAULT_MAX_STEPS) = JInt 20
       \<and> r_budget_usd x = numeric_round 4 per_run \<and> r_spent_usd x = 0 \<and> r_status x = Pending"
    by blast
  show ?case
    using new spec_for_InrD [OF s(1)] sub(1,3) by (intro exI [of _ "?x # new"]) (auto simp: d1 s(4))
qed simp

section \<open>Properties\<close>

lemma graded_pass:
  assumes "grade ae repr_of run t rid tmp d fs = (Inr tr, fs')" and "tr_passed tr"
  shows "(\<exists>r. find_run rid d = Some r \<and> r_status r = Succeeded \<and> \<not> infra_failure repr_of (read_events d rid))
    \<and> (\<exists>fs1 s fs2 res. materialize_workspace ae (grade_dir tmp t) (read_events d rid) fs = (Inr (), fs1)
         \<and> hidden_test t = Inr s \<and> fs2 = fs1(grade_dir tmp t @ [HIDDEN_TEST_NAME] \<mapsto> File s)
         \<and> run (grade_dir tmp t) [''python'', HIDDEN_TEST_NAME] fs2 = (Inr res, fs')
         \<and> sr_exit_code res = 0 \<and> \<not> sr_timed_out res)"
proof -
  from assms(1) obtain r where r: "find_run rid d = Some r" "tr_run_status tr = graded_status repr_of r (read_events d rid)"
    "tr_passed tr \<Longrightarrow> tr_run_status tr = ''succeeded'' \<and> (\<exists>res. run_hidden_test ae run t tmp (read_events d rid) fs = (Inr res, fs')
        \<and> sr_exit_code res = 0 \<and> \<not> sr_timed_out res)"
    by (rule grade_InrE) blast
  then obtain res where res: "run_hidden_test ae run t tmp (read_events d rid) fs = (Inr res, fs')"
    "sr_exit_code res = 0" "\<not> sr_timed_out res"
    using assms(2) by blast
  from res(1) obtain fs1 s fs2 where "materialize_workspace ae (grade_dir tmp t) (read_events d rid) fs = (Inr (), fs1)"
    "hidden_test t = Inr s" "write_text (grade_dir tmp t @ [HIDDEN_TEST_NAME]) s fs1 = Inr fs2"
    "run (grade_dir tmp t) [''python'', HIDDEN_TEST_NAME] fs2 = (Inr res, fs')"
    by (rule run_hidden_test_InrE)
  moreover from this have "fs2 = fs1(grade_dir tmp t @ [HIDDEN_TEST_NAME] \<mapsto> File s)"
    by (simp add: write_text_def split: if_splits)
  moreover have "r_status r = Succeeded \<and> \<not> infra_failure repr_of (read_events d rid)"
    using r(2,3) assms(2) graded_succeeded by metis
  ultimately show ?thesis using r(1) res(2,3) by blast
qed

text \<open>
  C26. A pass is earned: a result counts as passed only if the run itself ended as succeeded and was not
  ended by a platform failure, the agent's files were rebuilt from its log, and the hidden test, written
  over them, then ran to exit code 0 within its time limit in that workspace.
\<close>

theorem graded_pass_is_earned:
  assumes "grade ae repr_of run t rid tmp d fs = (Inr tr, fs')" and "tr_passed tr"
  shows "(\<exists>r. find_run rid d = Some r \<and> r_status r = Succeeded \<and> \<not> infra_failure repr_of (read_events d rid))
    \<and> (\<exists>fs1 s fs2 res. materialize_workspace ae (grade_dir tmp t) (read_events d rid) fs = (Inr (), fs1)
         \<and> hidden_test t = Inr s \<and> fs2 = fs1(grade_dir tmp t @ [HIDDEN_TEST_NAME] \<mapsto> File s)
         \<and> run (grade_dir tmp t) [''python'', HIDDEN_TEST_NAME] fs2 = (Inr res, fs')
         \<and> sr_exit_code res = 0 \<and> \<not> sr_timed_out res)"
  using assms by (rule graded_pass)

definition demo_task_files :: EvalTask where
  "demo_task_files = \<lparr>et_id = ''01'', et_name = ''n'', et_difficulty = ''easy'', et_prompt = ''p'',
     et_files = (\<lambda>_. Some ''code''), et_fail_first = 1, et_outcome = ''pass''\<rparr>"

definition demo_pass :: test_runner where
  "demo_pass dir cmd fs = (Inr \<lparr>sr_exit_code = 0, sr_stdout = '''', sr_stderr = '''', sr_timed_out = False,
     sr_oom_killed = False, sr_duration_ms = 1, sr_truncated = False\<rparr>, fs)"

definition demo_result :: TaskResult where
  "demo_result = \<lparr>tr_id = ''01'', tr_name = ''n'', tr_difficulty = ''easy'', tr_run_status = ''succeeded'', tr_passed = True,
     tr_steps = 1, tr_attempts = 0, tr_tokens = 150, tr_cost_usd = 35 / 100000, tr_latency_s = 3 / 1000000, tr_note = ''''\<rparr>"

lemma demo_grade: "\<exists>fs'. grade plain_env (\<lambda>_. ''x'') demo_pass demo_task_files ''r'' [] demo_finished (\<lambda>_. None) = (Inr demo_result, fs')"
proof -
  have e: "read_events demo_finished ''r'' = [demo_event]"
    by (simp add: read_events_def run_events_def demo_finished_def demo_answered_def demo_event_def)
  have r: "find_run ''r'' demo_finished = Some (demo_run Succeeded (35 / 100000) (Some 3))"
    by (simp add: find_run_def demo_finished_def)
  have t: "event_tokens demo_event = Inr 150"
    by (simp add: event_tokens_def number_of_def demo_event_def commit_payload_def demo_outcome_def agent_outcome_def
        demo_response_def get_default_def Let_def)
  have a: "as_dict (get_default (ev_payload demo_event) ''action'' (JObj [])) = Inr (finish_action ''ok'')"
    by (simp add: as_dict_def demo_event_def commit_payload_def demo_outcome_def agent_outcome_def
        demo_response_def get_default_def Let_def)
  then have c: "is_run_code demo_event = Inr False" by (simp add: is_run_code_def finish_action_def get_default_def)
  have i: "\<not> infra_failure (\<lambda>_. ''x'') [demo_event]"
    by (simp add: infra_failure_def demo_event_def)
  then have s: "graded_status (\<lambda>_. ''x'') (demo_run Succeeded (35 / 100000) (Some 3)) [demo_event] = ''succeeded''"
    by (simp add: graded_succeeded)
  have m: "materialize_workspace plain_env (grade_dir [] demo_task_files) [demo_event] (\<lambda>_. None) =
      (Inr (), \<lambda>q. if q \<in> {[], [''grade-01'']} then Some Dir else None)"
    using a by (auto simp: materialize_workspace_def grade_dir_def demo_task_files_def mkdir_p_def ancestors_def is_file_def
        replay_event_def finish_action_def fun_eq_iff)
  have hid: "\<exists>fs'. run_hidden_test plain_env demo_pass demo_task_files [] [demo_event] (\<lambda>_. None) =
      (fst (demo_pass [] [] (\<lambda>_. None)), fs')"
    by (simp add: run_hidden_test_def m hidden_test_def read_file_def write_text_def demo_pass_def)
       (simp add: grade_dir_def demo_task_files_def HIDDEN_TEST_NAME_def demo_pass_def Let_def)
  have cr: "r_created_at (demo_run Succeeded (35 / 100000) (Some 3)) = 0" by (simp add: demo_run_def)
  from hid obtain fs' where h: "run_hidden_test plain_env demo_pass demo_task_files [] [demo_event] (\<lambda>_. None) =
      (Inr \<lparr>sr_exit_code = 0, sr_stdout = '''', sr_stderr = '''', sr_timed_out = False,
     sr_oom_killed = False, sr_duration_ms = 1, sr_truncated = False\<rparr>, fs')"
    by (auto simp: demo_pass_def)
  show ?thesis
    by (simp add: grade_def Let_def r e t c i s h cr) (use s cr in \<open>simp add: demo_task_files_def demo_result_def\<close>)
qed

theorem graded_pass_is_earned_witness:
  "tr_passed demo_result \<and> (\<exists>r. find_run ''r'' demo_finished = Some r \<and> r_status r = Succeeded)
   \<and> (\<exists>fs1 fs2 res. fst (demo_pass (grade_dir [] demo_task_files) [''python'', HIDDEN_TEST_NAME] fs2) = Inr res
        \<and> fs2 = fs1(grade_dir [] demo_task_files @ [HIDDEN_TEST_NAME] \<mapsto> File ''code'') \<and> sr_exit_code res = 0)"
proof -
  obtain fs' where g: "grade plain_env (\<lambda>_. ''x'') demo_pass demo_task_files ''r'' [] demo_finished (\<lambda>_. None) = (Inr demo_result, fs')"
    using demo_grade by blast
  have p: "tr_passed demo_result" by (simp add: demo_result_def)
  have h: "hidden_test demo_task_files = Inr s \<Longrightarrow> s = ''code''" for s
    by (simp add: hidden_test_def read_file_def demo_task_files_def)
  from graded_pass_is_earned [OF g p] obtain r fs1 s fs2 res where "find_run ''r'' demo_finished = Some r" "r_status r = Succeeded"
    "hidden_test demo_task_files = Inr s" "fs2 = fs1(grade_dir [] demo_task_files @ [HIDDEN_TEST_NAME] \<mapsto> File s)"
    "demo_pass (grade_dir [] demo_task_files) [''python'', HIDDEN_TEST_NAME] fs2 = (Inr res, fs')" "sr_exit_code res = 0"
    by blast
  moreover from this have "fst (demo_pass (grade_dir [] demo_task_files) [''python'', HIDDEN_TEST_NAME] fs2) = Inr res" by simp
  ultimately show ?thesis using h p by blast
qed

text \<open>
  The eval suite cannot overspend: when the check lets the suite through and all its runs are
  submitted, they are new agent runs limited to 20 steps whose stored budgets sum up to at most the
  global cap (the per-run budget having at most four decimals, as the column has).
\<close>

theorem evals_within_cap:
  assumes "check_real_mode env is_real per_run (length ts) cap = Inr ()" and "fits_scale 4 per_run"
    and "submit_all is_real per_run ts d = Inr (d', ids)"
  shows "\<exists>new. runs d' = runs d @ new \<and> map r_id new = map snd ids \<and> distinct (map snd ids)
    \<and> sum_list (map r_budget_usd new) \<le> cap
    \<and> (\<forall>x \<in> set new. is_kind ''agent'' (r_task_spec x) \<and> r_budget_usd x = per_run
         \<and> get_default (r_task_spec x) ''max_steps'' (JInt DEFAULT_MAX_STEPS) = JInt 20)"
proof -
  obtain new where new: "runs d' = runs d @ new" "length new = length ts" "map r_id new = map snd ids" "distinct (map r_id new)"
    "\<forall>x \<in> set new. is_kind ''agent'' (r_task_spec x) \<and> get_default (r_task_spec x) ''max_steps'' (JInt DEFAULT_MAX_STEPS) = JInt 20
       \<and> r_budget_usd x = numeric_round 4 per_run \<and> r_spent_usd x = 0 \<and> r_status x = Pending"
    using submit_all_InrD [OF assms(3)] by blast
  have "map r_budget_usd new = replicate (length ts) per_run"
    using new(2,5) numeric_round_fits [OF assms(2)] by (intro replicate_eqI) auto
  then have "sum_list (map r_budget_usd new) = of_nat (length ts) * per_run" by (simp add: sum_list_replicate)
  moreover have "per_run * of_nat (length ts) \<le> cap"
    using assms(1) by (simp add: check_real_mode_def split: if_splits)
  ultimately show ?thesis using new numeric_round_fits [OF assms(2)] by (intro exI [of _ new]) (simp add: mult.commute)
qed

theorem evals_within_cap_witness:
  "\<exists>d' ids new. submit_all False (1 / 20) [(demo_task_files, 0, ''r'', ''t'')] empty_db = Inr (d', ids)
     \<and> runs d' = new \<and> sum_list (map r_budget_usd new) \<le> 1"
proof -
  have c: "check_real_mode (\<lambda>_. None) False (1 / 20) (length [(demo_task_files, 0 :: time, ''r'', ''t'')]) 1 = Inr ()"
    by (simp add: check_real_mode_def)
  have f: "fits_scale 4 (1 / 20)" by (simp add: fits_scale_def)
  obtain spec where s: "spec_for demo_task_files False = Inr spec" "jsonb_ok (JObj spec)"
    by (simp add: spec_for_def mock_script_def reference_def final_solution_def read_file_def demo_task_files_def
        slice_to_def drafts_def write_action_def run_action_def finish_action_def CHECK_def no_nul_def)
  have "\<exists>d'. submit_run 0 ''r'' ''t'' spec (1 / 20) empty_db = Inr (d', ''r'')"
    using s(2) numeric_round_fits [OF f]
    by (simp add: submit_run_def insert_run_def enqueue_task_def numeric_cast_def empty_db_def)
  then obtain d' where "submit_all False (1 / 20) [(demo_task_files, 0, ''r'', ''t'')] empty_db = Inr (d', [(''01'', ''r'')])"
    using s(1) by (auto simp: demo_task_files_def)
  with evals_within_cap [OF c f this] show ?thesis by (auto simp: empty_db_def)
qed

text \<open>
  A summary of graded results adds up: passed and unfinished results are disjoint, so their numbers
  together are at most the number of tasks; the unrounded pass rate lies between 0 and 1; no difficulty
  reports more passes than tasks; and the exit code 0 means that every result is a verdict.
\<close>

theorem summary_adds_up:
  assumes "\<And>tr. tr \<in> set results \<Longrightarrow> \<exists>ae repr_of run t rid tmp d fs fs'. grade ae repr_of run t rid tmp d fs = (Inr tr, fs')"
  shows "sm_passed (summarize rnd results mode model) + sm_unfinished (summarize rnd results mode model) \<le> length results
    \<and> (\<exists>q. 0 \<le> q \<and> q \<le> 1 \<and> (results \<noteq> [] \<longrightarrow> sm_pass_rate (summarize rnd results mode model) = rnd 4 q))
    \<and> (\<forall>(d, n, p) \<in> set (sm_by_difficulty (summarize rnd results mode model)). 0 < n \<and> p \<le> n \<and> n \<le> length results)
    \<and> (eval_exit_code (summarize rnd results mode model) = 0 \<longrightarrow>
         (\<forall>tr \<in> set results. tr_run_status tr \<in> {''succeeded'', ''failed'', ''budget_exceeded''}))"
proof -
  have st: "tr_run_status tr \<in> {''succeeded'', ''failed'', ''budget_exceeded'', ''timeout'', ''error''}"
    and ps: "tr_passed tr \<Longrightarrow> tr_run_status tr = ''succeeded''" if tr: "tr \<in> set results" for tr
  proof -
    from assms [OF tr] obtain ae repr_of run t rid tmp d fs fs' where g: "grade ae repr_of run t rid tmp d fs = (Inr tr, fs')"
      by blast
    then show "tr_run_status tr \<in> {''succeeded'', ''failed'', ''budget_exceeded'', ''timeout'', ''error''}"
      by (rule grade_InrE) (use graded_status_cases in metis)
    from g show "tr_passed tr \<Longrightarrow> tr_run_status tr = ''succeeded''" by (rule grade_InrE) blast
  qed
  have le: "count_where p xs \<le> length xs" for p and xs :: "'b list" by (simp add: count_where_def)
  have imp: "count_where (\<lambda>r. p r \<and> q r) xs \<le> count_where p xs" for p q and xs :: "'b list"
    unfolding count_where_def by (induction xs) auto
  have "count_where p xs + count_where q xs \<le> length xs" if "\<forall>x \<in> set xs. \<not> (p x \<and> q x)" for p q and xs :: "TaskResult list"
    using that unfolding count_where_def by (induction xs) auto
  from this [of results tr_passed "\<lambda>r. tr_run_status r \<in> {''timeout'', ''error''}"]
  have add: "count_where tr_passed results + count_where (\<lambda>r. tr_run_status r \<in> {''timeout'', ''error''}) results \<le> length results"
    using ps by fastforce
  have "(of_nat (count_where tr_passed results) :: rat) \<le> of_nat (length results)" using le by (simp only: of_nat_le_iff)
  then have rate: "0 \<le> (of_nat (count_where tr_passed results) / of_nat (length results) :: rat)
      \<and> of_nat (count_where tr_passed results) / of_nat (length results) \<le> (1 :: rat)"
    by (simp add: divide_le_eq)
  have diff: "\<forall>(d, n, p) \<in> set (by_difficulty results). 0 < n \<and> p \<le> n \<and> n \<le> length results"
    using le imp by (fastforce simp: by_difficulty_def count_where_def filter_empty_conv)
  have "eval_exit_code (summarize rnd results mode model) = 0 \<longrightarrow>
      (\<forall>tr \<in> set results. tr_run_status tr \<in> {''succeeded'', ''failed'', ''budget_exceeded''})"
    using exit_zero_verdicts assms unfolding VERDICTS_def by metis
  with add rate diff show ?thesis
    by (intro conjI exI [of _ "of_nat (count_where tr_passed results) / of_nat (length results)"])
       (simp_all add: summarize_def Let_def)
qed

theorem summary_adds_up_witness:
  "sm_passed (summarize (\<lambda>_ q. q) [demo_result] ''mock'' ''m'') + sm_unfinished (summarize (\<lambda>_ q. q) [demo_result] ''mock'' ''m'') \<le> 1
   \<and> eval_exit_code (summarize (\<lambda>_ q. q) [demo_result] ''mock'' ''m'') = 0"
proof -
  have g: "\<exists>ae repr_of run t rid tmp d fs fs'. grade ae repr_of run t rid tmp d fs = (Inr tr, fs')"
    if "tr \<in> set [demo_result]" for tr
    using that demo_grade by (simp, blast)
  have "eval_exit_code (summarize (\<lambda>_ q. q) [demo_result] ''mock'' ''m'') = 0"
    by (simp add: eval_exit_code_def summarize_def Let_def count_where_def demo_result_def)
  with summary_adds_up [of "[demo_result]" "\<lambda>_ q. q" "''mock''" "''m''", OF g] show ?thesis by simp
qed

end
