(* ===== verification/Injector.thy ===== *)
theory Injector
  imports Worker Text
begin

text \<open>
  \<open>src/phoenix/chaos/injector.py\<close>: the worker processes of the chaos harness and what it does to them
  (spawn, \<open>kill -9\<close>, SIGSTOP, SIGCONT), the choice of a victim, \<open>docker kill\<close> and the shutdown. A
  process is its command line, its environment and its state; the Docker daemon and the parent's
  environment are parameters.
\<close>

section \<open>Workers\<close>

text \<open>The state \<open>Popen.poll\<close> and the signals see. A process that ended stays ended.\<close>

datatype proc_state = P_running | P_stopped | P_exited

record worker =
  wk_name :: string
  wk_argv :: "string list"
  wk_env :: environ
  wk_proc :: proc_state
  wk_log :: string
  wk_resume_at :: "money option"

definition alive :: "worker \<Rightarrow> bool" where
  "alive w \<longleftrightarrow> wk_proc w \<noteq> P_exited"

record Injector =
  ij_database_url :: string
  ij_log_dir :: string
  ij_lease_seconds :: money
  ij_workspace_root :: string
  ij_unsafe_no_fencing :: bool
  ij_real_llm :: bool
  ij_workers :: "worker list"
  ij_n :: nat

text \<open>The Python process that runs the harness; \<open>hs_float_text\<close> is \<open>str\<close> of a float.\<close>

record host =
  hs_environ :: environ
  hs_executable :: string
  hs_src :: string
  hs_float_text :: "money \<Rightarrow> string"

definition new_injector :: "string \<Rightarrow> string \<Rightarrow> money \<Rightarrow> string \<Rightarrow> bool \<Rightarrow> bool \<Rightarrow> Injector" where
  "new_injector database_url log_dir lease_seconds workspace_root unsafe_no_fencing real_llm =
     \<lparr>ij_database_url = database_url, ij_log_dir = log_dir, ij_lease_seconds = lease_seconds,
      ij_workspace_root = workspace_root, ij_unsafe_no_fencing = unsafe_no_fencing, ij_real_llm = real_llm,
      ij_workers = [], ij_n = 0\<rparr>"

section \<open>Operations\<close>

definition worker_name :: "nat \<Rightarrow> string" where
  "worker_name n = ''w'' @ str_nat n"

definition worker_env :: "host \<Rightarrow> Injector \<Rightarrow> environ" where
  "worker_env h ij =
     (let env = (hs_environ h)
        (''DATABASE_URL'' \<mapsto> ij_database_url ij, ''PYTHONPATH'' \<mapsto> hs_src h,
         ''PHOENIX_REAL_LLM'' \<mapsto> (if ij_real_llm ij then ''1'' else ''0''),
         ''PHOENIX_WORKSPACE_ROOT'' \<mapsto> ij_workspace_root ij)
      in if ij_unsafe_no_fencing ij then env(''PHOENIX_UNSAFE_NO_FENCING'' \<mapsto> ''1'') else env)"

definition spawn_worker :: "host \<Rightarrow> Injector \<Rightarrow> Injector" where
  "spawn_worker h ij =
     (let n = Suc (ij_n ij);
          name = worker_name n;
          w = \<lparr>wk_name = name,
               wk_argv = [hs_executable h, ''-m'', ''phoenix'', ''worker'', ''--id'', name, ''--lease'',
                          hs_float_text h (ij_lease_seconds ij)],
               wk_env = worker_env h ij, wk_proc = P_running,
               wk_log = ij_log_dir ij @ ''/'' @ name @ ''.log'', wk_resume_at = None\<rparr>
      in ij\<lparr>ij_n := n, ij_workers := ij_workers ij @ [w]\<rparr>)"

definition running :: "Injector \<Rightarrow> worker list" where
  "running ij = filter (\<lambda>w. alive w \<and> wk_resume_at w = None) (ij_workers ij)"

text \<open>
  The objects in \<open>workers\<close> are mutated in place. A worker is found by its name: the names of one injector
  are distinct (lemma \<open>names_spawn\<close> below keeps it so).
\<close>

definition on_worker :: "string \<Rightarrow> (worker \<Rightarrow> worker) \<Rightarrow> Injector \<Rightarrow> Injector" where
  "on_worker name f ij =
     ij\<lparr>ij_workers := map (\<lambda>w. if wk_name w = name then f w else w) (ij_workers ij)\<rparr>"

text \<open>SIGSTOP and SIGCONT leave a process that has ended as it is.\<close>

definition signal :: "proc_state \<Rightarrow> worker \<Rightarrow> worker" where
  "signal p w = (if alive w then w\<lparr>wk_proc := p\<rparr> else w)"

definition kill :: "worker \<Rightarrow> Injector \<Rightarrow> Injector" where
  "kill w = on_worker (wk_name w) (\<lambda>w. w\<lparr>wk_proc := P_exited\<rparr>)"

definition suspend :: "worker \<Rightarrow> money \<Rightarrow> Injector \<Rightarrow> Injector" where
  "suspend w until = on_worker (wk_name w) (\<lambda>w. (signal P_stopped w)\<lparr>wk_resume_at := Some until\<rparr>)"

definition resumed :: "worker \<Rightarrow> worker" where
  "resumed w = (signal P_running w)\<lparr>wk_resume_at := None\<rparr>"

definition resume :: "worker \<Rightarrow> Injector \<Rightarrow> Injector" where
  "resume w = on_worker (wk_name w) resumed"

section \<open>Choosing a victim\<close>

text \<open>\<open>int(x)\<close> of a float, and indexing a list with an \<open>int\<close>: negative indices count from the end.\<close>

definition py_trunc :: "money \<Rightarrow> int" where
  "py_trunc q = (if q < 0 then \<lceil>q\<rceil> else \<lfloor>q\<rfloor>)"

definition list_item :: "'a list \<Rightarrow> int \<Rightarrow> 'a result" where
  "list_item xs i =
     (let j = if i < 0 then i + int (length xs) else i in
      if 0 \<le> j \<and> j < int (length xs) then Inr (xs ! nat j) else Inl IndexError)"

definition pick :: "money \<Rightarrow> worker list \<Rightarrow> worker option result" where
  "pick u items =
     (if items = [] then Inr None
      else map_sum id Some (list_item items (py_trunc (u * of_nat (length items)))))"

text \<open>
  What one call of \<open>docker_kill\<close> finds: the names of the running sandbox containers (\<open>None\<close> when the
  daemon raises) and whether killing a container works.
\<close>

record docker_view =
  dv_running :: "string list option"
  dv_kill :: "string \<Rightarrow> bool"

definition docker_kill :: "money \<Rightarrow> docker_view \<Rightarrow> string option" where
  "docker_kill u dv =
     (case dv_running dv of
        None \<Rightarrow> None
      | Some found \<Rightarrow>
          (let containers = sort found in
           if containers = [] then None
           else let victim = containers ! nat (py_trunc (u * of_nat (length containers)) mod int (length containers))
             in if dv_kill dv victim then Some victim else None))"

section \<open>Shutdown\<close>

text \<open>Every worker still alive is resumed and killed, then waited for.\<close>

definition stop_worker :: "worker \<Rightarrow> worker" where
  "stop_worker w = (if alive w then (resumed w)\<lparr>wk_proc := P_exited\<rparr> else w)"

text \<open>
  The labelled containers, removed in order until a removal raises; \<open>None\<close> is a daemon that does not
  answer. The result is the injector and the containers that are left, when they are known.
\<close>

fun remove_containers :: "(string \<Rightarrow> bool) \<Rightarrow> string list \<Rightarrow> string list" where
  "remove_containers removable [] = []"
| "remove_containers removable (c # cs) = (if removable c then remove_containers removable cs else c # cs)"

definition shutdown :: "(string \<Rightarrow> bool) \<Rightarrow> string list option \<Rightarrow> Injector \<Rightarrow> Injector \<times> string list option" where
  "shutdown removable labelled ij =
     (ij\<lparr>ij_workers := map stop_worker (ij_workers ij)\<rparr>, map_option (remove_containers removable) labelled)"

section \<open>Lemmas\<close>

lemma worker_name_inject [simp]: "worker_name m = worker_name n \<longleftrightarrow> m = n"
  by (simp add: worker_name_def)

lemma trunc_below:
  assumes "0 \<le> u" and "u < 1" and "0 < n"
  shows "0 \<le> py_trunc (u * of_nat n) \<and> py_trunc (u * of_nat n) < int n"
proof -
  have "u * of_nat n < 1 * of_nat n" using assms by (intro mult_strict_right_mono) simp_all
  moreover have "0 \<le> u * of_nat n" using assms by simp
  ultimately show ?thesis by (simp add: py_trunc_def floor_less_iff)
qed

text \<open>A draw in [0,1) always picks one of the items; a container index is in range whatever the draw.\<close>

lemma pick_ok:
  assumes "0 \<le> u" and "u < 1"
  shows "(items = [] \<and> pick u items = Inr None) \<or> (\<exists>w \<in> set items. pick u items = Inr (Some w))"
proof (cases "items = []")
  case False
  then show ?thesis
    using trunc_below [OF assms, of "length items"]
    by (auto simp: pick_def list_item_def Let_def intro!: nth_mem)
qed (simp add: pick_def)

lemma docker_kill_SomeD:
  assumes "docker_kill u dv = Some c"
  shows "\<exists>found. dv_running dv = Some found \<and> c \<in> set found \<and> dv_kill dv c"
proof -
  from assms obtain found where f: "dv_running dv = Some found" "sort found \<noteq> []" "dv_kill dv c"
    "c = sort found ! nat (py_trunc (u * of_nat (length found)) mod int (length found))"
    by (auto simp: docker_kill_def Let_def split: option.splits if_splits)
  have "nat (py_trunc (u * of_nat (length found)) mod int (length found)) < length (sort found)"
    using f(2) by (cases found) (simp_all add: nat_less_iff)
  then have "c \<in> set found" unfolding f(4) by (metis nth_mem set_sort)
  with f show ?thesis by blast
qed

text \<open>A living worker is stopped exactly while a time to resume it is set.\<close>

definition wk_ok :: "worker \<Rightarrow> bool" where
  "wk_ok w \<longleftrightarrow> (alive w \<longrightarrow> (wk_proc w = P_stopped \<longleftrightarrow> wk_resume_at w \<noteq> None))"

text \<open>The names in use are distinct and were all given out by \<open>spawn_worker\<close>.\<close>

definition names_ok :: "Injector \<Rightarrow> bool" where
  "names_ok ij \<longleftrightarrow> distinct (map wk_name (ij_workers ij))
     \<and> set (map wk_name (ij_workers ij)) \<subseteq> worker_name ` {1..ij_n ij}"

lemma names_ok_cong:
  "map wk_name (ij_workers a) = map wk_name (ij_workers b) \<Longrightarrow> ij_n a = ij_n b \<Longrightarrow> names_ok a \<longleftrightarrow> names_ok b"
  by (simp only: names_ok_def)

text \<open>The settings of an injector, which no operation changes; \<open>staffed\<close>: every worker got them.\<close>

definition settings :: "Injector \<Rightarrow> Injector" where
  "settings ij = ij\<lparr>ij_workers := [], ij_n := 0\<rparr>"

definition staffed :: "host \<Rightarrow> Injector \<Rightarrow> Injector \<Rightarrow> bool" where
  "staffed h ij0 ij \<longleftrightarrow> settings ij = ij0 \<and> names_ok ij
     \<and> (\<forall>w \<in> set (ij_workers ij). wk_ok w \<and> wk_env w = worker_env h ij0)"

lemma worker_env_settings: "worker_env h ij = worker_env h (settings ij)"
  by (simp add: worker_env_def settings_def)

lemma settings_simps [simp]: "settings (spawn_worker h ij) = settings ij" "settings (ij\<lparr>ij_workers := ws\<rparr>) = settings ij"
  by (simp_all add: settings_def spawn_worker_def Let_def)

lemma spawn_worker_E:
  obtains w where "ij_workers (spawn_worker h ij) = ij_workers ij @ [w]" "wk_name w = worker_name (Suc (ij_n ij))"
    "wk_proc w = P_running" "wk_resume_at w = None" "wk_env w = worker_env h ij"
  by (simp add: spawn_worker_def Let_def)

lemma spawn_n [simp]: "ij_n (spawn_worker h ij) = Suc (ij_n ij)"
  by (simp add: spawn_worker_def Let_def)

lemma names_spawn:
  assumes "names_ok ij"
  shows "names_ok (spawn_worker h ij)"
proof -
  obtain w where w: "ij_workers (spawn_worker h ij) = ij_workers ij @ [w]" "wk_name w = worker_name (Suc (ij_n ij))"
    by (rule spawn_worker_E)
  have old: "set (map wk_name (ij_workers ij)) \<subseteq> worker_name ` {1..ij_n ij}"
    using assms by (simp add: names_ok_def)
  then have "worker_name (Suc (ij_n ij)) \<notin> set (map wk_name (ij_workers ij))" by auto
  moreover have "{1..Suc (ij_n ij)} = insert (Suc (ij_n ij)) {1..ij_n ij}" by auto
  ultimately show ?thesis using assms old by (auto simp: names_ok_def w)
qed

lemma staffed_new:
  "staffed h (new_injector url dir lease rt unsafe real_llm) (new_injector url dir lease rt unsafe real_llm)"
  by (simp add: staffed_def settings_def names_ok_def new_injector_def)

lemma staffed_spawn: "staffed h ij0 ij \<Longrightarrow> staffed h ij0 (spawn_worker h ij)"
  by (rule spawn_worker_E [of h ij]) (auto simp: staffed_def names_spawn wk_ok_def worker_env_settings [of h ij])

lemma staffed_filter: "staffed h ij0 ij \<Longrightarrow> staffed h ij0 (ij\<lparr>ij_workers := filter p (ij_workers ij)\<rparr>)"
  by (auto simp: staffed_def names_ok_def distinct_map_filter)

text \<open>
  What every operation on workers promises the supervisor: it keeps a worker's name and environment,
  and keeps the worker consistent. The supervisor applies it to any selection of its workers.
\<close>

locale worker_operation =
  fixes f :: "worker \<Rightarrow> worker"
  assumes keeps_identity: "wk_name (f w) = wk_name w" "wk_env (f w) = wk_env w"
    and keeps_ok: "wk_ok w \<Longrightarrow> wk_ok (f w)"
begin

lemma names_kept: "map wk_name (map (\<lambda>w. if p w then f w else w) ws) = map wk_name ws"
  by (simp add: keeps_identity)

lemma staffed_where:
  "staffed h ij0 ij \<Longrightarrow> staffed h ij0 (ij\<lparr>ij_workers := map (\<lambda>w. if p w then f w else w) (ij_workers ij)\<rparr>)"
  using names_ok_cong [of "ij\<lparr>ij_workers := map (\<lambda>w. if p w then f w else w) (ij_workers ij)\<rparr>" ij]
  by (auto simp: staffed_def keeps_ok keeps_identity names_kept simp del: map_map)

lemma staffed_on: "staffed h ij0 ij \<Longrightarrow> staffed h ij0 (on_worker name f ij)"
  unfolding on_worker_def by (rule staffed_where)

end

interpretation kill_op: worker_operation "\<lambda>w. w\<lparr>wk_proc := P_exited\<rparr>"
  by unfold_locales (simp_all add: wk_ok_def alive_def)

interpretation suspend_op: worker_operation "\<lambda>w. (signal P_stopped w)\<lparr>wk_resume_at := Some until\<rparr>" for until
  by unfold_locales (simp_all add: wk_ok_def signal_def alive_def)

interpretation resume_op: worker_operation resumed
  by unfold_locales (simp_all add: resumed_def wk_ok_def signal_def alive_def)

interpretation stop_op: worker_operation stop_worker
  by unfold_locales (simp_all add: stop_worker_def resumed_def wk_ok_def signal_def alive_def)

lemma staffed_ops:
  assumes "staffed h ij0 ij"
  shows "staffed h ij0 (kill w ij)" "staffed h ij0 (suspend w t ij)" "staffed h ij0 (resume w ij)"
  using assms unfolding kill_def suspend_def resume_def
  by (rule kill_op.staffed_on suspend_op.staffed_on resume_op.staffed_on)+

lemma length_ops [simp]: "length (ij_workers (kill w ij)) = length (ij_workers ij)"
  "length (ij_workers (suspend w t ij)) = length (ij_workers ij)"
  "length (ij_workers (resume w ij)) = length (ij_workers ij)"
  "length (ij_workers (spawn_worker h ij)) = Suc (length (ij_workers ij))"
  by (simp_all add: kill_def suspend_def resume_def on_worker_def spawn_worker_def Let_def)

lemma remove_all: "(\<forall>c \<in> set cs. removable c) \<Longrightarrow> remove_containers removable cs = []"
  by (induction cs) auto

end
