(* ===== verification/EvalRun.thy ===== *)
theory EvalRun
  imports Evals Injector
begin

text \<open>
  The eval suite from end to end: \<open>load_tasks\<close> of \<open>src/phoenix/evals/catalog.py\<close>, \<open>run_evals\<close> of
  \<open>runner.py\<close> and the \<open>eval\<close> command of \<open>__main__.py\<close> with its exit codes. The task directories, the
  JSON reader, the Docker daemon, the clock and the database the workers leave behind are parameters.
\<close>

section \<open>Loading the tasks\<close>

text \<open>A text of the task's meta data; the model takes any other value there as a \<open>TypeError\<close>.\<close>

definition text_item :: "json \<Rightarrow> string \<Rightarrow> string result" where
  "text_item v k = bind_result (subscript v k) (\<lambda>x. case x of JStr s \<Rightarrow> Inr s | _ \<Rightarrow> Inl TypeError)"

definition task_of :: "json \<Rightarrow> (string \<Rightarrow> string option) \<Rightarrow> EvalTask result" where
  "task_of meta files =
     bind_result (text_item meta ''id'') (\<lambda>i.
     bind_result (text_item meta ''name'') (\<lambda>n.
     bind_result (text_item meta ''difficulty'') (\<lambda>d.
     bind_result (text_item meta ''prompt'') (\<lambda>p.
     bind_result (subscript meta ''mock'') (\<lambda>mock.
     bind_result (subscript mock ''fail_first'') (\<lambda>f.
     bind_result (py_int f) (\<lambda>fail_first.
     bind_result (text_item mock ''outcome'') (\<lambda>out.
       Inr \<lparr>et_id = i, et_name = n, et_difficulty = d, et_prompt = p, et_files = files,
            et_fail_first = fail_first, et_outcome = out\<rparr>))))))))"

text \<open>A suite is the entries of its directory, each with the files in it, in the order of their names.\<close>

type_synonym suite = "(string \<times> (string \<Rightarrow> string option)) list"

definition load_tasks :: "(string \<Rightarrow> json result) \<Rightarrow> (string \<Rightarrow> suite option) \<Rightarrow> string \<Rightarrow> EvalTask list result" where
  "load_tasks json_loads suites name =
     (case suites name of
        None \<Rightarrow> Inl (KeyError name)
      | Some dirs \<Rightarrow>
          map_result (\<lambda>(_, files). bind_result (json_loads (the (files ''task.json''))) (\<lambda>meta. task_of meta files))
            (filter (\<lambda>(_, files). files ''task.json'' \<noteq> None) (sort_key fst dirs)))"

section \<open>Waiting and grading\<close>

text \<open>
  \<open>_wait_terminal\<close>: each reading is the clock at the head of the loop and the database the query then
  sees. \<open>True\<close>: it returned; \<open>False\<close>: it still waits after these readings.
\<close>

fun wait_terminal :: "money \<Rightarrow> uuid list \<Rightarrow> (money \<times> db) list \<Rightarrow> bool" where
  "wait_terminal deadline run_ids [] = False"
| "wait_terminal deadline run_ids ((now, d) # readings) =
     (if \<not> now < deadline then True
      else if \<forall>r \<in> set (runs d). r_id r \<in> set run_ids \<longrightarrow> r_status r \<in> set TERMINAL then True
      else wait_terminal deadline run_ids readings)"

text \<open>The dict from task ids to run ids: of two entries with one key the later one stays.\<close>

definition run_id_of :: "(string \<times> uuid) list \<Rightarrow> string \<Rightarrow> uuid result" where
  "run_id_of ids k = (case map_of (rev ids) k of None \<Rightarrow> Inl (KeyError k) | Some r \<Rightarrow> Inr r)"

fun grade_all :: "agent_env \<Rightarrow> (json \<Rightarrow> string) \<Rightarrow> test_runner \<Rightarrow> (string \<times> uuid) list \<Rightarrow> path \<Rightarrow> db \<Rightarrow> EvalTask list \<Rightarrow> fs \<Rightarrow>
    TaskResult list result" where
  "grade_all ae repr_of run ids tmp d [] fs = Inr []"
| "grade_all ae repr_of run ids tmp d (t # ts) fs =
     bind_result (run_id_of ids (et_id t)) (\<lambda>rid.
       case grade ae repr_of run t rid tmp d fs of
         (Inl e, fs') \<Rightarrow> Inl e
       | (Inr tr, fs') \<Rightarrow> bind_result (grade_all ae repr_of run ids tmp d ts fs') (\<lambda>trs. Inr (tr # trs)))"

section \<open>The whole suite\<close>

text \<open>What the suite runs against: the surroundings of \<open>run_evals\<close> that are not its own code.\<close>

record eval_world =
  ew_host :: host
  ew_json_loads :: "string \<Rightarrow> json result"
  ew_suites :: "string \<Rightarrow> suite option"
  ew_get_image :: "string \<Rightarrow> image_lookup"
  ew_pull :: "string \<Rightarrow> unit result"
  ew_ids :: "nat \<Rightarrow> time \<times> uuid \<times> uuid"
  ew_started :: money
  ew_readings :: "(money \<times> db) list"
  ew_agent_env :: agent_env
  ew_repr :: "json \<Rightarrow> string"
  ew_test_runner :: test_runner
  ew_fs :: fs
  ew_db_end :: db
  ew_removable :: "string \<Rightarrow> bool"
  ew_labelled :: "string list option"

record eval_args =
  ea_real :: bool
  ea_workers :: int
  ea_per_run_usd :: money
  ea_cap_usd :: money
  ea_timeout :: money
  ea_only :: "string list option"
  ea_suite :: string
  ea_database_url :: string

text \<open>Refused by the check, another exception, still waiting, or done; workers exist in the last case only.\<close>

datatype eval_outcome =
    Refused string
  | Eval_raised error
  | Still_waiting
  | Eval_done "TaskResult list result" Injector

definition selected_tasks :: "eval_world \<Rightarrow> eval_args \<Rightarrow> EvalTask list result" where
  "selected_tasks ew args =
     bind_result (load_tasks (ew_json_loads ew) (ew_suites ew) (ea_suite args)) (\<lambda>ts.
       Inr (filter (\<lambda>t. case ea_only args of None \<Rightarrow> True | Some only \<Rightarrow> et_id t \<in> set only) ts))"

definition submissions :: "eval_world \<Rightarrow> EvalTask list \<Rightarrow> (EvalTask \<times> time \<times> uuid \<times> uuid) list" where
  "submissions ew ts = zip ts (map (ew_ids ew) [0..<length ts])"

definition run_evals :: "eval_world \<Rightarrow> eval_args \<Rightarrow> string \<Rightarrow> path \<Rightarrow> db \<Rightarrow> eval_outcome" where
  "run_evals ew args tmp tmp_path d =
     (case selected_tasks ew args of
        Inl e \<Rightarrow> Eval_raised e
      | Inr ts \<Rightarrow>
          (case check_real_mode (hs_environ (ew_host ew)) (ea_real args) (ea_per_run_usd args) (length ts) (ea_cap_usd args) of
             Inl (EvalConfigError msg) \<Rightarrow> Refused msg
           | Inr _ \<Rightarrow>
               (case ensure_image (ew_get_image ew) (ew_pull ew) (sp_image default_policy) of
                  Inl e \<Rightarrow> Eval_raised e
                | Inr _ \<Rightarrow>
                    (let ij = (spawn_worker (ew_host ew) ^^ nat (ea_workers args))
                           (new_injector (ea_database_url args) (tmp @ ''/logs'') 30 (tmp @ ''/ws'') False (ea_real args));
                         stopped = fst (shutdown (ew_removable ew) (ew_labelled ew) ij)
                     in case submit_all (ea_real args) (ea_per_run_usd args) (submissions ew ts) d of
                          Inl e \<Rightarrow> Eval_done (Inl e) stopped
                        | Inr (d1, ids) \<Rightarrow>
                            if wait_terminal (ew_started ew + ea_timeout args) (map snd ids) (ew_readings ew)
                            then Eval_done (grade_all (ew_agent_env ew) (ew_repr ew) (ew_test_runner ew) ids tmp_path
                                   (ew_db_end ew) ts (ew_fs ew)) stopped
                            else Still_waiting))))"

section \<open>The command\<close>

definition model_name :: "environ \<Rightarrow> bool \<Rightarrow> string result" where
  "model_name env is_real =
     (if \<not> is_real then Inr ''mock (scripted; validates the pipeline, not a model)''
      else bind_result (provider_kind env) (\<lambda>k. bind_result (default_model env) (\<lambda>m. Inr (k @ '': '' @ m))))"

text \<open>
  \<open>_eval\<close>: the exit code and the text written to \<open>--out\<close>; \<open>dump\<close> renders the summary and the rows.
  \<open>None\<close>: the suite still waits.
\<close>

definition eval_command :: "(nat \<Rightarrow> money \<Rightarrow> money) \<Rightarrow> (eval_summary \<Rightarrow> TaskResult list \<Rightarrow> string) \<Rightarrow> eval_world \<Rightarrow> eval_args \<Rightarrow>
    bool \<Rightarrow> string \<Rightarrow> path \<Rightarrow> db \<Rightarrow> (nat \<times> string option) result option" where
  "eval_command rnd dump ew args out tmp tmp_path d =
     (case run_evals ew args tmp tmp_path d of
        Refused msg \<Rightarrow> Some (Inr (2, None))
      | Eval_raised e \<Rightarrow> Some (Inl e)
      | Still_waiting \<Rightarrow> None
      | Eval_done r ij \<Rightarrow> Some (
          bind_result r (\<lambda>results.
          bind_result (model_name (hs_environ (ew_host ew)) (ea_real args)) (\<lambda>model.
            let summary = summarize rnd results (if ea_real args then ''real'' else ''mock'') model;
                code = eval_exit_code summary
            in Inr (code, if code = 0 \<and> out then Some (dump summary results) else None)))))"

section \<open>Lemmas\<close>

lemma grade_all_InrD:
  "grade_all ae repr_of run ids tmp d ts fs = Inr results \<Longrightarrow>
     list_all2 (\<lambda>t tr. \<exists>rid fs fs'. run_id_of ids (et_id t) = Inr rid \<and> grade ae repr_of run t rid tmp d fs = (Inr tr, fs')) ts results"
proof (induction ts arbitrary: fs results)
  case (Cons t ts)
  then obtain rid where r: "run_id_of ids (et_id t) = Inr rid" by (auto simp: bind_result_Inr_iff)
  obtain g fs' where g: "grade ae repr_of run t rid tmp d fs = (g, fs')" by fastforce
  from Cons.prems obtain tr trs where "g = Inr tr" "grade_all ae repr_of run ids tmp d ts fs' = Inr trs" "results = tr # trs"
    by (cases g) (auto simp: r g bind_result_Inr_iff)
  with Cons.IH g r show ?case by auto
qed simp

lemma run_id_of_mem: "run_id_of ids k = Inr r \<Longrightarrow> (k, r) \<in> set ids"
  by (auto simp: run_id_of_def split: option.splits dest: map_of_SomeD)

lemma submissions_length [simp]: "length (submissions ew ts) = length ts"
  by (simp add: submissions_def)

lemma run_evals_doneE:
  assumes "run_evals ew args tmp tmp_path d = Eval_done (Inr results) ij"
  obtains ts d1 ids where "selected_tasks ew args = Inr ts"
    "check_real_mode (hs_environ (ew_host ew)) (ea_real args) (ea_per_run_usd args) (length (submissions ew ts)) (ea_cap_usd args) = Inr ()"
    "submit_all (ea_real args) (ea_per_run_usd args) (submissions ew ts) d = Inr (d1, ids)"
    "grade_all (ew_agent_env ew) (ew_repr ew) (ew_test_runner ew) ids tmp_path (ew_db_end ew) ts (ew_fs ew) = Inr results"
  using assms
  by (auto simp: run_evals_def Let_def split: sum.splits config_error.splits if_splits)

lemma eval_command_InrE:
  assumes "eval_command rnd dump ew args out tmp tmp_path d = Some (Inr (code, written))"
  obtains (refused) msg where "run_evals ew args tmp tmp_path d = Refused msg" "code = 2" "written = None"
  | (graded) results ij mode model where "run_evals ew args tmp tmp_path d = Eval_done (Inr results) ij"
      "code = eval_exit_code (summarize rnd results mode model)"
      "written = (if code = 0 \<and> out then Some (dump (summarize rnd results mode model) results) else None)"
proof (cases "run_evals ew args tmp tmp_path d")
  case (Eval_done r ij)
  with assms obtain results model where r: "r = Inr results"
    "(let summary = summarize rnd results (if ea_real args then ''real'' else ''mock'') model;
          c = eval_exit_code summary in (c, if c = 0 \<and> out then Some (dump summary results) else None)) = (code, written)"
    by (auto simp: eval_command_def bind_result_Inr_iff Let_def)
  show ?thesis
    by (rule graded [of results ij "if ea_real args then ''real'' else ''mock''" model])
       (use r Eval_done in \<open>auto simp: Let_def\<close>)
qed (use assms refused in \<open>auto simp: eval_command_def\<close>)

section \<open>Property\<close>

text \<open>The result is that of a succeeded run of its task, and the hidden test ran to exit code 0 in time.\<close>

definition earned_by :: "eval_world \<Rightarrow> (string \<times> uuid) list \<Rightarrow> TaskResult \<Rightarrow> EvalTask \<Rightarrow> bool" where
  "earned_by ew ids tr t \<longleftrightarrow> et_id t = tr_id tr
     \<and> (\<exists>rid r. (tr_id tr, rid) \<in> set ids \<and> find_run rid (ew_db_end ew) = Some r \<and> r_status r = Succeeded)
     \<and> (\<exists>res dir fs fs'. ew_test_runner ew dir [''python'', HIDDEN_TEST_NAME] fs = (Inr res, fs')
          \<and> sr_exit_code res = 0 \<and> \<not> sr_timed_out res)"


section \<open>Witness\<close>

definition demo_meta :: json where
  "demo_meta = JObj [(''id'', JStr ''01''), (''name'', JStr ''n''), (''difficulty'', JStr ''easy''), (''prompt'', JStr ''p''),
     (''mock'', JObj [(''fail_first'', JInt 1), (''outcome'', JStr ''pass'')])]"

definition demo_world :: eval_world where
  "demo_world = \<lparr>ew_host = \<lparr>hs_environ = \<lambda>_. None, hs_executable = ''python'', hs_src = ''src'', hs_float_text = \<lambda>_. ''30''\<rparr>,
     ew_json_loads = \<lambda>_. Inr demo_meta, ew_suites = [''standard'' \<mapsto> [(''01_n'', \<lambda>_. Some ''code'')]],
     ew_get_image = \<lambda>_. Image_found, ew_pull = \<lambda>_. Inl OSError, ew_ids = \<lambda>_. (0, ''r'', ''t''), ew_started = 0,
     ew_readings = [(1, demo_finished)], ew_agent_env = plain_env, ew_repr = \<lambda>_. ''x'', ew_test_runner = demo_pass,
     ew_fs = \<lambda>_. None, ew_db_end = demo_finished, ew_removable = \<lambda>_. True, ew_labelled = Some []\<rparr>"

definition demo_args :: eval_args where
  "demo_args = \<lparr>ea_real = False, ea_workers = 2, ea_per_run_usd = 1 / 20, ea_cap_usd = 1, ea_timeout = 900,
     ea_only = None, ea_suite = ''standard'', ea_database_url = ''db''\<rparr>"

lemma demo_selected: "selected_tasks demo_world demo_args = Inr [demo_task_files]"
  by (simp add: selected_tasks_def load_tasks_def demo_world_def demo_args_def task_of_def text_item_def subscript_def
      demo_meta_def dict_item_def py_int_def demo_task_files_def)

lemma demo_command: "eval_command (\<lambda>_ q. q) (\<lambda>_ _. ''json'') demo_world demo_args True ''tmp'' [] empty_db = Some (Inr (0, Some ''json''))"
proof -
  obtain spec where s: "spec_for demo_task_files False = Inr spec" "jsonb_ok (JObj spec)"
    by (simp add: spec_for_def mock_script_def reference_def final_solution_def read_file_def demo_task_files_def
        slice_to_def drafts_def write_action_def run_action_def finish_action_def CHECK_def no_nul_def)
  have f: "fits_scale 4 (1 / 20)" by (simp add: fits_scale_def)
  have "\<exists>d'. submit_run 0 ''r'' ''t'' spec (1 / 20) empty_db = Inr (d', ''r'')"
    using s(2) numeric_round_fits [OF f]
    by (simp add: submit_run_def insert_run_def enqueue_task_def numeric_cast_def empty_db_def)
  then obtain d' where sub: "submit_all False (1 / 20) [(demo_task_files, 0, ''r'', ''t'')] empty_db = Inr (d', [(''01'', ''r'')])"
    using s(1) by (auto simp: demo_task_files_def)
  obtain fs' where g: "grade plain_env (\<lambda>_. ''x'') demo_pass demo_task_files ''r'' [] demo_finished (\<lambda>_. None) = (Inr demo_result, fs')"
    using demo_grade by blast
  have id: "et_id demo_task_files = ''01''" by (simp add: demo_task_files_def)
  obtain ij where "run_evals demo_world demo_args ''tmp'' [] empty_db = Eval_done (Inr [demo_result]) ij"
    using sub g unfolding run_evals_def demo_selected
    by (simp add: demo_world_def demo_args_def check_real_mode_def ensure_image_def submissions_def Let_def
        demo_facts(3) TERMINAL_def run_id_of_def id del: submit_all.simps)
  moreover have "eval_exit_code (summarize (\<lambda>_ q. q) [demo_result] m n) = 0" for m n
    by (simp add: eval_exit_code_def summarize_def Let_def count_where_def demo_result_def)
  ultimately show ?thesis by (simp add: eval_command_def model_name_def demo_args_def Let_def)
qed


end
