(* ===== verification/CommandLine.thy ===== *)
theory CommandLine
  imports Injector
begin

text \<open>
  The command line of \<open>__main__.py\<close>: the options the parser declares, with their types and defaults, and
  the reading of ordinary lines. A line is ordinary when every option is written out in full and its
  value is a word of its own that does not start with a dash; what \<open>argparse\<close> makes of all others
  (abbreviations, \<open>--opt=value\<close>, \<open>--help\<close>) is a parameter.
\<close>

section \<open>Options\<close>

datatype opt_kind = Int_opt | Float_opt | Text_opt | Choice_opt "string list" | Switch | Many

datatype opt_value = Int_value int | Float_value money | Text_value string | On | Many_values "string list"

definition submit_options :: "(string \<times> opt_kind) list" where
  "submit_options = [(''--steps'', Int_opt), (''--step-delay'', Float_opt), (''--count'', Int_opt)]"

definition api_options :: "(string \<times> opt_kind) list" where
  "api_options = [(''--host'', Text_opt), (''--port'', Int_opt)]"

definition worker_options :: "(string \<times> opt_kind) list" where
  "worker_options = [(''--id'', Text_opt), (''--lease'', Float_opt), (''--poll'', Float_opt)]"

definition chaos_options :: "(string \<times> opt_kind) list" where
  "chaos_options = [(''--seed'', Int_opt), (''--runs'', Int_opt), (''--workers'', Int_opt), (''--lease'', Float_opt),
     (''--workload'', Choice_opt [''toy'', ''agent'', ''mixed'']), (''--faults'', Int_opt), (''--timeout'', Float_opt),
     (''--unsafe-no-fencing'', Switch)]"

definition eval_options :: "(string \<times> opt_kind) list" where
  "eval_options = [(''--real'', Switch), (''--workers'', Int_opt), (''--budget'', Text_opt), (''--max-total-usd'', Text_opt),
     (''--suite'', Choice_opt [''standard'', ''challenge'']), (''--timeout'', Float_opt), (''--only'', Many), (''--out'', Text_opt)]"

text \<open>What reading a line gives: its meaning, a usage error (exit code 2), or a line that is not ordinary.\<close>

datatype 'a reading = Read 'a | Usage_error | Unusual

definition plain_word :: "string \<Rightarrow> bool" where
  "plain_word v \<longleftrightarrow> v = [] \<or> hd v \<noteq> CHR ''-''"

definition read_value :: "opt_kind \<Rightarrow> string \<Rightarrow> opt_value reading" where
  "read_value k v = (case k of
       Int_opt \<Rightarrow> (case parse_int v of Some i \<Rightarrow> Read (Int_value i) | None \<Rightarrow> Unusual)
     | Float_opt \<Rightarrow> (case parse_plain_decimal v of Some q \<Rightarrow> Read (Float_value q) | None \<Rightarrow> Unusual)
     | Text_opt \<Rightarrow> Read (Text_value v)
     | Choice_opt cs \<Rightarrow> if v \<in> set cs then Read (Text_value v) else Usage_error
     | _ \<Rightarrow> Unusual)"

function read_options :: "(string \<times> opt_kind) list \<Rightarrow> string list \<Rightarrow> (string \<times> opt_value) list reading" where
  "read_options tbl [] = Read []"
| "read_options tbl (a # rest) = (case map_of tbl a of
       None \<Rightarrow> Unusual
     | Some Switch \<Rightarrow> (case read_options tbl rest of Read ns \<Rightarrow> Read ((a, On) # ns) | r \<Rightarrow> r)
     | Some Many \<Rightarrow> (case read_options tbl (dropWhile plain_word rest) of
           Read ns \<Rightarrow> Read ((a, Many_values (takeWhile plain_word rest)) # ns) | r \<Rightarrow> r)
     | Some k \<Rightarrow> (case rest of
           v # rest' \<Rightarrow>
             if \<not> plain_word v then Unusual
             else (case read_options tbl rest' of
                 Read ns \<Rightarrow> (case read_value k v of Read x \<Rightarrow> Read ((a, x) # ns) | Usage_error \<Rightarrow> Usage_error | Unusual \<Rightarrow> Unusual)
               | r \<Rightarrow> r)
         | [] \<Rightarrow> Unusual))"
  by pat_completeness auto
termination
  by (relation "measure (\<lambda>(tbl, as). length as)") (auto simp: le_imp_less_Suc length_dropWhile_le)

text \<open>The namespace: an option given twice keeps its last value, one not given its default.\<close>

definition given :: "(string \<times> opt_value) list \<Rightarrow> string \<Rightarrow> opt_value option" where
  "given ns name = map_of (rev ns) name"

definition int_of_option :: "(string \<times> opt_value) list \<Rightarrow> string \<Rightarrow> int \<Rightarrow> int" where
  "int_of_option ns name dflt = (case given ns name of Some (Int_value i) \<Rightarrow> i | _ \<Rightarrow> dflt)"

definition float_of_option :: "(string \<times> opt_value) list \<Rightarrow> string \<Rightarrow> money \<Rightarrow> money" where
  "float_of_option ns name dflt = (case given ns name of Some (Float_value q) \<Rightarrow> q | _ \<Rightarrow> dflt)"

definition text_of_option :: "(string \<times> opt_value) list \<Rightarrow> string \<Rightarrow> string \<Rightarrow> string" where
  "text_of_option ns name dflt = (case given ns name of Some (Text_value s) \<Rightarrow> s | _ \<Rightarrow> dflt)"

section \<open>Commands\<close>

record chaos_args =
  ca_seed :: int
  ca_runs :: int
  ca_workers :: int
  ca_lease :: money
  ca_workload :: string
  ca_faults :: "int option"
  ca_timeout :: money
  ca_unsafe_no_fencing :: bool

record eval_options_given =
  eo_real :: bool
  eo_workers :: int
  eo_budget :: string
  eo_max_total_usd :: string
  eo_suite :: string
  eo_timeout :: money
  eo_only :: "string list option"
  eo_out :: "string option"

datatype command =
    Migrate
  | Submit int money int
  | Status uuid
  | Timeline_of uuid
  | Serve string int
  | Work string money money
  | Chaos_run chaos_args
  | Eval_run eval_options_given

definition submit_command :: "(string \<times> opt_value) list \<Rightarrow> command" where
  "submit_command ns = Submit (int_of_option ns ''--steps'' 20) (float_of_option ns ''--step-delay'' 0) (int_of_option ns ''--count'' 1)"

definition api_command :: "(string \<times> opt_value) list \<Rightarrow> command" where
  "api_command ns = Serve (text_of_option ns ''--host'' ''127.0.0.1'') (int_of_option ns ''--port'' 8000)"

definition worker_command :: "nat \<Rightarrow> (string \<times> opt_value) list \<Rightarrow> command" where
  "worker_command pid ns = Work (text_of_option ns ''--id'' (''worker-'' @ str_nat pid)) (float_of_option ns ''--lease'' 5)
     (float_of_option ns ''--poll'' (1 / 5))"

text \<open>\<open>--seed\<close> is required.\<close>

definition chaos_command :: "(string \<times> opt_value) list \<Rightarrow> command reading" where
  "chaos_command ns = (case given ns ''--seed'' of
       Some (Int_value seed) \<Rightarrow> Read (Chaos_run \<lparr>ca_seed = seed, ca_runs = int_of_option ns ''--runs'' 30,
         ca_workers = int_of_option ns ''--workers'' 3, ca_lease = float_of_option ns ''--lease'' 2,
         ca_workload = text_of_option ns ''--workload'' ''mixed'',
         ca_faults = (case given ns ''--faults'' of Some (Int_value i) \<Rightarrow> Some i | _ \<Rightarrow> None),
         ca_timeout = float_of_option ns ''--timeout'' 300,
         ca_unsafe_no_fencing = (given ns ''--unsafe-no-fencing'' \<noteq> None)\<rparr>)
     | _ \<Rightarrow> Usage_error)"

definition eval_command_line :: "(string \<times> opt_value) list \<Rightarrow> command" where
  "eval_command_line ns = Eval_run \<lparr>eo_real = (given ns ''--real'' \<noteq> None), eo_workers = int_of_option ns ''--workers'' 3,
     eo_budget = text_of_option ns ''--budget'' ''0.05'', eo_max_total_usd = text_of_option ns ''--max-total-usd'' ''1.00'',
     eo_suite = text_of_option ns ''--suite'' ''standard'', eo_timeout = float_of_option ns ''--timeout'' 900,
     eo_only = (case given ns ''--only'' of Some (Many_values xs) \<Rightarrow> Some xs | _ \<Rightarrow> None),
     eo_out = (case given ns ''--out'' of Some (Text_value s) \<Rightarrow> Some s | _ \<Rightarrow> None)\<rparr>"

definition with_options :: "(string \<times> opt_kind) list \<Rightarrow> ((string \<times> opt_value) list \<Rightarrow> command reading) \<Rightarrow> string list \<Rightarrow> command reading" where
  "with_options tbl f args = (case read_options tbl args of Read ns \<Rightarrow> f ns | Usage_error \<Rightarrow> Usage_error | Unusual \<Rightarrow> Unusual)"

definition with_run_id :: "(string \<Rightarrow> uuid option) \<Rightarrow> (uuid \<Rightarrow> command) \<Rightarrow> string list \<Rightarrow> command reading" where
  "with_run_id read_uuid f args = (case args of
       [] \<Rightarrow> Usage_error
     | [v] \<Rightarrow> if plain_word v then (case read_uuid v of Some rid \<Rightarrow> Read (f rid) | None \<Rightarrow> Usage_error) else Unusual
     | _ \<Rightarrow> Unusual)"

definition ordinary_command :: "(string \<Rightarrow> uuid option) \<Rightarrow> nat \<Rightarrow> string list \<Rightarrow> command reading" where
  "ordinary_command read_uuid pid argv = (case argv of
       [] \<Rightarrow> Usage_error
     | cmd # args \<Rightarrow>
         if cmd = ''migrate'' then (if args = [] then Read Migrate else Unusual)
         else if cmd = ''submit'' then with_options submit_options (Read \<circ> submit_command) args
         else if cmd = ''status'' then with_run_id read_uuid Status args
         else if cmd = ''timeline'' then with_run_id read_uuid Timeline_of args
         else if cmd = ''api'' then with_options api_options (Read \<circ> api_command) args
         else if cmd = ''worker'' then with_options worker_options (Read \<circ> worker_command pid) args
         else if cmd = ''chaos'' then with_options chaos_options chaos_command args
         else if cmd = ''eval'' then with_options eval_options (Read \<circ> eval_command_line) args
         else if plain_word cmd then Usage_error else Unusual)"

text \<open>The whole parser: an exit code or a command; \<open>argparse\<close> reads the lines that are not ordinary.\<close>

definition parse_args :: "(string \<Rightarrow> uuid option) \<Rightarrow> nat \<Rightarrow> (string list \<Rightarrow> nat + command) \<Rightarrow> string list \<Rightarrow> nat + command" where
  "parse_args read_uuid pid argparse argv = (case ordinary_command read_uuid pid argv of
       Read c \<Rightarrow> Inr c | Usage_error \<Rightarrow> Inl 2 | Unusual \<Rightarrow> argparse argv)"

section \<open>Lemmas\<close>

lemma plain_digits: "plain_word (str_nat n)" "plain_word (CHR ''w'' # s)"
proof -
  have "is_digit (hd (str_nat n))" by (rule str_nat_digits [of _ n]) simp
  then show "plain_word (str_nat n)" by (auto simp: plain_word_def is_digit_def)
qed (simp add: plain_word_def)

lemma parse_int_str_nat: "parse_int (str_nat n) = Some (int n)"
proof -
  have d: "list_all is_digit (str_nat n)" by (simp add: list_all_iff str_nat_digits)
  then have "split_sign (str_nat n) = (False, str_nat n)"
    by (cases "str_nat n") (auto simp: split_sign_def is_digit_def)
  with d show ?thesis by (simp add: parse_int_def all_digits_def)
qed

text \<open>
  C22. The two halves of the platform speak the same command line: what the injector starts as a worker
  process is read by the parser as a worker with the name the injector knows it by and the lease it was
  configured with, whatever \<open>argparse\<close> does elsewhere. (The text of the lease is a plain decimal.)
\<close>

theorem injector_command_understood:
  assumes "parse_plain_decimal (hs_float_text h (ij_lease_seconds ij)) = Some (ij_lease_seconds ij)"
    and "plain_word (hs_float_text h (ij_lease_seconds ij))"
  shows "\<exists>w. ij_workers (spawn_worker h ij) = ij_workers ij @ [w] \<and> take 3 (wk_argv w) = [hs_executable h, ''-m'', ''phoenix'']
    \<and> parse_args read_uuid pid argparse (drop 3 (wk_argv w)) = Inr (Work (wk_name w) (ij_lease_seconds ij) (1 / 5))"
  using assms
  by (simp add: spawn_worker_def Let_def worker_name_def parse_args_def ordinary_command_def with_options_def
      worker_options_def plain_digits read_value_def worker_command_def text_of_option_def float_of_option_def given_def)

theorem injector_command_understood_witness:
  "parse_args (\<lambda>_. None) 7 (\<lambda>_. Inl 0) (drop 3 (wk_argv (last (ij_workers (spawn_worker
     \<lparr>hs_environ = \<lambda>_. None, hs_executable = ''python'', hs_src = ''src'', hs_float_text = \<lambda>_. ''2.0''\<rparr>
     (new_injector ''db'' ''logs'' 2 ''ws'' False False)))))) = Inr (Work ''w1'' 2 (1 / 5))"
proof -
  let ?h = "\<lparr>hs_environ = \<lambda>_. None, hs_executable = ''python'', hs_src = ''src'', hs_float_text = \<lambda>_. ''2.0''\<rparr>"
  let ?ij = "new_injector ''db'' ''logs'' 2 ''ws'' False False"
  have "parse_plain_decimal ''2.0'' = Some 2" by code_simp
  then have "parse_plain_decimal (hs_float_text ?h (ij_lease_seconds ?ij)) = Some (ij_lease_seconds ?ij)"
    "plain_word (hs_float_text ?h (ij_lease_seconds ?ij))" by (simp_all add: new_injector_def plain_word_def)
  moreover have "str_nat (Suc 0) = ''1''" by code_simp
  ultimately show ?thesis using injector_command_understood [of ?h ?ij "\<lambda>_. None" 7 "\<lambda>_. Inl 0"]
    by (auto simp: new_injector_def spawn_worker_def Let_def worker_name_def)
qed

text \<open>A chaos configuration written as a command line, every option in full.\<close>

definition chaos_line :: "(money \<Rightarrow> string) \<Rightarrow> chaos_args \<Rightarrow> string list" where
  "chaos_line show_float a =
     [''chaos'', ''--seed'', str_int (ca_seed a), ''--runs'', str_int (ca_runs a), ''--workers'', str_int (ca_workers a),
      ''--lease'', show_float (ca_lease a), ''--workload'', ca_workload a]
     @ (case ca_faults a of None \<Rightarrow> [] | Some n \<Rightarrow> [''--faults'', str_int n])
     @ [''--timeout'', show_float (ca_timeout a)] @ (if ca_unsafe_no_fencing a then [''--unsafe-no-fencing''] else [])"

definition askable :: "(money \<Rightarrow> string) \<Rightarrow> chaos_args \<Rightarrow> bool" where
  "askable show_float a \<longleftrightarrow> 0 \<le> ca_seed a \<and> 0 \<le> ca_runs a \<and> 0 \<le> ca_workers a
     \<and> (case ca_faults a of None \<Rightarrow> True | Some n \<Rightarrow> 0 \<le> n) \<and> ca_workload a \<in> {''toy'', ''agent'', ''mixed''}
     \<and> list_all (\<lambda>q. parse_plain_decimal (show_float q) = Some q \<and> plain_word (show_float q)) [ca_lease a, ca_timeout a]"

lemma read_count: "0 \<le> i \<Longrightarrow> plain_word (str_int i) \<and> parse_int (str_int i) = Some i"
  by (simp add: str_int_def plain_digits parse_int_str_nat)

lemma chaos_line_read:
  assumes "askable show_float a"
  shows "ordinary_command read_uuid pid (chaos_line show_float a) = Read (Chaos_run a)"
proof -
  have n: "0 \<le> ca_seed a" "0 \<le> ca_runs a" "0 \<le> ca_workers a" "ca_workload a \<in> {''toy'', ''agent'', ''mixed''}"
    "parse_plain_decimal (show_float (ca_lease a)) = Some (ca_lease a)" "plain_word (show_float (ca_lease a))"
    "parse_plain_decimal (show_float (ca_timeout a)) = Some (ca_timeout a)" "plain_word (show_float (ca_timeout a))"
    using assms by (simp_all add: askable_def)
  have w: "plain_word (ca_workload a)" using n(4) by (auto simp: plain_word_def)
  have f: "plain_word (str_int k) \<and> parse_int (str_int k) = Some k" if "ca_faults a = Some k" for k
    using assms that by (intro read_count) (simp add: askable_def)
  note facts = n(4-8) w read_count [OF n(1)] read_count [OF n(2)] read_count [OF n(3)]
  show ?thesis
    using facts f
    by (cases "ca_faults a"; cases "ca_unsafe_no_fencing a"; cases a)
      (simp_all add: chaos_line_def ordinary_command_def with_options_def chaos_options_def read_value_def chaos_command_def
        int_of_option_def float_of_option_def text_of_option_def given_def)
qed

end
