(* ===== verification/Report.thy ===== *)
theory Report
  imports Evals
begin

text \<open>
  The printed side of the eval suite (\<open>evals/report.py\<close>): the table of results and their JSON rows.
  \<open>num\<close> is Python's text of a number of tokens, \<open>dec\<close> of a \<open>Decimal\<close>.
\<close>

definition table_row :: "string list \<Rightarrow> string list \<Rightarrow> string" where
  "table_row lefts rights = join_str '' '' (map2 ljust [3, 21, 7, 16, 5] lefts @ map2 rjust [5, 4, 7, 9, 6] rights)"

definition table_head :: string where
  "table_head = table_row [''id'', ''task'', ''diff'', ''status'', ''pass'']
     [''steps'', ''runs'', ''tokens'', ''cost_usd'', ''lat_s'']"

definition result_row :: "(money \<Rightarrow> string) \<Rightarrow> TaskResult \<Rightarrow> string" where
  "result_row num r =
     table_row [tr_id r, tr_name r, tr_difficulty r, tr_run_status r, if tr_passed r then ''yes'' else ''NO'']
       [str_nat (tr_steps r), str_nat (tr_attempts r), num (tr_tokens r), fixed_text 5 (tr_cost_usd r),
        fixed_text 1 (tr_latency_s r)]
     @ (if tr_note r \<noteq> [] then ''  '' @ tr_note r else [])"

definition render_table :: "(money \<Rightarrow> string) \<Rightarrow> TaskResult list \<Rightarrow> string" where
  "render_table num results =
     join_str [CHR 0x0A] ([table_head, replicate (length table_head) (CHR ''-'')] @ map (result_row num) results)"

text \<open>A row of the file: \<open>asdict\<close> with the cost as text.\<close>

definition result_json :: "(money \<Rightarrow> string) \<Rightarrow> (money \<Rightarrow> json) \<Rightarrow> TaskResult \<Rightarrow> dict" where
  "result_json dec num_json r =
     [(''id'', JStr (tr_id r)), (''name'', JStr (tr_name r)), (''difficulty'', JStr (tr_difficulty r)),
      (''run_status'', JStr (tr_run_status r)), (''passed'', JBool (tr_passed r)), (''steps'', JInt (int (tr_steps r))),
      (''attempts'', JInt (int (tr_attempts r))), (''tokens'', num_json (tr_tokens r)), (''cost_usd'', JStr (dec (tr_cost_usd r))),
      (''latency_s'', JFloat (tr_latency_s r)), (''note'', JStr (tr_note r))]"

definition results_json :: "(money \<Rightarrow> string) \<Rightarrow> (money \<Rightarrow> json) \<Rightarrow> TaskResult list \<Rightarrow> dict list" where
  "results_json dec num_json results = map (result_json dec num_json) results"

section \<open>Lemmas\<close>

lemma length_rjust: "length (rjust n s) = max n (length s)"
  by (simp add: rjust_def)

lemma length_join: "length (join_str sep xs) = sum_list (map length xs) + (length xs - 1) * length sep"
proof (induction xs)
  case (Cons x xs)
  then show ?case by (cases xs) simp_all
qed simp

text \<open>What fits its column leaves the columns aligned.\<close>

definition fits_columns :: "(money \<Rightarrow> string) \<Rightarrow> TaskResult \<Rightarrow> bool" where
  "fits_columns num r \<longleftrightarrow> length (tr_id r) \<le> 3 \<and> length (tr_name r) \<le> 21 \<and> length (tr_difficulty r) \<le> 7
     \<and> length (tr_run_status r) \<le> 16 \<and> length (str_nat (tr_steps r)) \<le> 5 \<and> length (str_nat (tr_attempts r)) \<le> 4
     \<and> length (num (tr_tokens r)) \<le> 7 \<and> length (fixed_text 5 (tr_cost_usd r)) \<le> 9 \<and> length (fixed_text 1 (tr_latency_s r)) \<le> 6"

lemma length_table_head: "length table_head = 92"
  by (simp add: table_head_def table_row_def length_join length_ljust length_rjust)

lemma rows_aligned:
  assumes "fits_columns num r"
  shows "length (result_row num r) = length table_head + (if tr_note r = [] then 0 else 2 + length (tr_note r))"
  using assms unfolding length_table_head
  by (simp add: result_row_def table_row_def length_join length_ljust length_rjust fits_columns_def max_def)

text \<open>The difficulty \<open>challenge\<close> is wider than its column: those rows are shifted by two.\<close>

lemma challenge_rows_shifted:
  assumes "fits_columns num (r\<lparr>tr_difficulty := ''hard''\<rparr>)" and "tr_difficulty r = ''challenge''" and "tr_note r = []"
  shows "length (result_row num r) = length table_head + 2"
  using assms unfolding length_table_head
  by (simp add: result_row_def table_row_def length_join length_ljust length_rjust fits_columns_def max_def)

lemma split_char_absent: "c \<notin> set x \<Longrightarrow> split_char c x = [x]"
  by (induction x) auto

lemma split_char_append: "c \<notin> set x \<Longrightarrow> split_char c (x @ c # s) = x # split_char c s"
  by (induction x) auto

lemma split_join_lines: "xs \<noteq> [] \<Longrightarrow> \<forall>x \<in> set xs. c \<notin> set x \<Longrightarrow> split_char c (join_str [c] xs) = xs"
  by (induction "[c]" xs rule: join_str.induct) (auto simp: split_char_absent split_char_append)

lemma fixed_text_one_line: "CHR 0x0A \<notin> set (fixed_text k q)"
  using set_fixed_text [of k q] by (auto simp: is_digit_def)

text \<open>The table is its head, a rule and one line for every result, in order: no line is broken.\<close>

theorem table_lines:
  assumes "\<forall>r \<in> set results. \<forall>x \<in> {tr_id r, tr_name r, tr_difficulty r, tr_run_status r, tr_note r, num (tr_tokens r)}. CHR 0x0A \<notin> set x"
  shows "split_char (CHR 0x0A) (render_table num results)
    = table_head # replicate (length table_head) (CHR ''-'') # map (result_row num) results"
proof -
  have row: "CHR 0x0A \<notin> set (table_row xs ys)" if ok: "\<forall>x \<in> set xs \<union> set ys. CHR 0x0A \<notin> set x" for xs ys
  proof -
    have joined: "set (join_str [CHR '' ''] zs) \<subseteq> insert (CHR '' '') (\<Union> (set ` set zs))" for zs
      by (induction "[CHR '' '']" zs rule: join_str.induct) auto
    have "CHR 0x0A \<notin> set z" if z: "z \<in> set (map2 ljust ns xs @ map2 rjust ms ys)" for z ns ms
    proof -
      from z obtain n x where "x \<in> set xs \<union> set ys" "z = ljust n x \<or> z = rjust n x" by (auto dest: set_zip_rightD)
      with ok show ?thesis by (auto simp: ljust_def rjust_def)
    qed
    then have "CHR 0x0A \<notin> \<Union> (set ` set (map2 ljust ns xs @ map2 rjust ms ys))" for ns ms by blast
    then show ?thesis unfolding table_row_def using joined by blast
  qed
  have "CHR 0x0A \<notin> set (str_nat n)" for n using str_nat_digits [of "CHR 0x0A" n] by (auto simp: is_digit_def)
  then have "\<forall>x \<in> set (map (result_row num) results). CHR 0x0A \<notin> set x"
    using assms by (auto simp: result_row_def fixed_text_one_line intro!: row)
  moreover have "CHR 0x0A \<notin> set table_head" unfolding table_head_def by (rule row) simp
  ultimately show ?thesis unfolding render_table_def by (subst split_join_lines) auto
qed

theorem table_lines_witness:
  "length (split_char (CHR 0x0A) (render_table (\<lambda>_. ''300'') [\<lparr>tr_id = ''01'', tr_name = ''fizzbuzz'', tr_difficulty = ''easy'',
     tr_run_status = ''succeeded'', tr_passed = True, tr_steps = 3, tr_attempts = 1, tr_tokens = 300, tr_cost_usd = 1 / 100,
     tr_latency_s = 7 / 2, tr_note = []\<rparr>])) = 3"
  by (subst table_lines) simp_all

end
