(* ===== verification/Supervisor.thy ===== *)
theory Supervisor
  imports Injector Chaos Envfile
begin

text \<open>
  The rest of \<open>src/phoenix/chaos/scenarios.py\<close>: \<open>plan\<close> draws the workload and the fault schedule,
  \<open>run_chaos\<close> submits the runs, keeps worker processes alive while it applies the faults, and reports
  what the four checks say of the database. What the world does during one turn of the supervisor's
  loop (clock readings, processes that end, containers, the database) is the record \<open>turn\<close>.
\<close>

definition FAULT_KILL :: string where "FAULT_KILL = ''kill_worker''"
definition FAULT_SUSPEND :: string where "FAULT_SUSPEND = ''suspend_worker''"
definition FAULT_DOCKER :: string where "FAULT_DOCKER = ''docker_kill''"
definition DOCKER_WAIT_S :: money where "DOCKER_WAIT_S = 5"

record ChaosConfig =
  cc_seed :: int
  cc_runs :: int
  cc_workers :: int
  cc_lease_seconds :: money
  cc_workload :: string
  cc_faults :: "int option"
  cc_timeout_seconds :: money
  cc_unsafe_no_fencing :: bool
  cc_database_url :: string

record Fault =
  ft_at :: money
  ft_kind :: string
  ft_u :: money
  ft_duration :: money

section \<open>Random draws\<close>

text \<open>
  \<open>random.Random\<close>: the seeded state, \<open>random()\<close> and the uniform choice of a number below \<open>n\<close>, from which
  the module defines the other draws. \<open>rng_ok\<close> is their documented range.
\<close>

record 'g rng =
  rg_seed :: "int \<Rightarrow> 'g"
  rg_random :: "'g \<Rightarrow> money \<times> 'g"
  rg_below :: "nat \<Rightarrow> 'g \<Rightarrow> nat \<times> 'g"

definition rng_ok :: "'g rng \<Rightarrow> bool" where
  "rng_ok rg \<longleftrightarrow> (\<forall>g. 0 \<le> fst (rg_random rg g) \<and> fst (rg_random rg g) < 1)
     \<and> (\<forall>n g. 0 < n \<longrightarrow> fst (rg_below rg n g) < n)"

definition uniform :: "'g rng \<Rightarrow> money \<Rightarrow> money \<Rightarrow> 'g \<Rightarrow> money \<times> 'g" where
  "uniform rg a b g = (let (u, g') = rg_random rg g in (a + (b - a) * u, g'))"

definition randint :: "'g rng \<Rightarrow> int \<Rightarrow> int \<Rightarrow> 'g \<Rightarrow> int \<times> 'g" where
  "randint rg a b g = (let (k, g') = rg_below rg (nat (b - a + 1)) g in (a + int k, g'))"

definition choice :: "'g rng \<Rightarrow> 'a list \<Rightarrow> 'g \<Rightarrow> 'a \<times> 'g" where
  "choice rg xs g = (let (k, g') = rg_below rg (length xs) g in (xs ! k, g'))"

section \<open>The plan\<close>

definition agent_spec :: dict where
  "agent_spec = [(''kind'', JStr ''agent''), (''prompt'', JStr ''print hello''),
     (''mock_scenario'', JStr ''fail_twice_then_fix'')]"

definition toy_spec :: "int \<Rightarrow> money \<Rightarrow> dict" where
  "toy_spec steps delay = [(''kind'', JStr ''toy''), (''steps'', JInt steps), (''step_delay'', JFloat delay)]"

definition draw_spec :: "'g rng \<Rightarrow> string \<Rightarrow> 'g \<Rightarrow> dict \<times> 'g" where
  "draw_spec rg workload g =
     (let (agent, g1) =
        (if workload = ''agent'' then (True, g)
         else if workload = ''mixed'' then (let (u, g') = rg_random rg g in (u < 66 / 100, g'))
         else (False, g))
      in if agent then (agent_spec, g1)
         else let (steps, g2) = randint rg 10 20 g1;
                  (delay, g3) = uniform rg (5 / 100) (15 / 100) g2
           in (toy_spec steps delay, g3))"

fun draw_specs :: "'g rng \<Rightarrow> string \<Rightarrow> nat \<Rightarrow> 'g \<Rightarrow> dict list \<times> 'g" where
  "draw_specs rg workload 0 g = ([], g)"
| "draw_specs rg workload (Suc n) g =
     (let (spec, g1) = draw_spec rg workload g; (specs, g2) = draw_specs rg workload n g1
      in (spec # specs, g2))"

text \<open>\<open>round(t, 2)\<close>.\<close>

definition round2 :: "money \<Rightarrow> money" where
  "round2 t = of_int (round_half_even (t * 100)) / 100"

definition draw_fault :: "'g rng \<Rightarrow> money \<Rightarrow> string list \<Rightarrow> money \<Rightarrow> 'g \<Rightarrow> money \<times> Fault \<times> 'g" where
  "draw_fault rg lease kinds t g =
     (let (gap, g1) = uniform rg (1 / 2) 2 g;
          (kind, g2) = choice rg kinds g1;
          (duration, g3) = uniform rg (lease * (13 / 10)) (lease * (25 / 10)) g2;
          (u, g4) = rg_random rg g3
      in (t + gap,
          \<lparr>ft_at = round2 (t + gap), ft_kind = kind, ft_u = u,
           ft_duration = (if kind = FAULT_SUSPEND then duration else 0)\<rparr>, g4))"

fun draw_faults :: "'g rng \<Rightarrow> money \<Rightarrow> string list \<Rightarrow> nat \<Rightarrow> money \<Rightarrow> 'g \<Rightarrow> Fault list" where
  "draw_faults rg lease kinds 0 t g = []"
| "draw_faults rg lease kinds (Suc n) t g =
     (let (t', f, g') = draw_fault rg lease kinds t g in f # draw_faults rg lease kinds n t' g')"

definition fault_kinds :: "ChaosConfig \<Rightarrow> string list" where
  "fault_kinds cfg = [FAULT_KILL, FAULT_SUSPEND] @ (if cc_workload cfg \<noteq> ''toy'' then [FAULT_DOCKER] else [])"

definition n_faults :: "ChaosConfig \<Rightarrow> int" where
  "n_faults cfg = (case cc_faults cfg of Some n \<Rightarrow> n | None \<Rightarrow> max 4 (cc_runs cfg div 2))"

definition plan :: "'g rng \<Rightarrow> ChaosConfig \<Rightarrow> dict list \<times> Fault list" where
  "plan rg cfg =
     (let (specs, g) = draw_specs rg (cc_workload cfg) (nat (cc_runs cfg)) (rg_seed rg (cc_seed cfg))
      in (specs, draw_faults rg (cc_lease_seconds cfg) (fault_kinds cfg) (nat (n_faults cfg)) 0 g))"

section \<open>Applying faults\<close>

record supervisor =
  sv_ij :: Injector
  sv_pending :: "Fault list"
  sv_armed :: "(Fault \<times> money) list"
  sv_applied :: "string list"
  sv_fired :: nat

text \<open>
  One turn of the loop as the world plays it: the monotonic clock at its head, when the \<open>k\<close>-th due fault
  is applied, after the containers were polled and when each worker is looked at; the workers that ended
  on their own before the \<open>k\<close>-th due fault and before the supervisor looks; what each look at the
  containers finds; the database.
\<close>

record turn =
  tn_now :: money
  tn_fault_time :: "nat \<Rightarrow> money"
  tn_ended :: "nat \<Rightarrow> string \<Rightarrow> bool"
  tn_docker :: "nat \<Rightarrow> docker_view"
  tn_stamp :: money
  tn_gone :: "string \<Rightarrow> bool"
  tn_look :: "string \<Rightarrow> money"
  tn_db :: db

definition end_workers :: "(string \<Rightarrow> bool) \<Rightarrow> Injector \<Rightarrow> Injector" where
  "end_workers gone ij = ij\<lparr>ij_workers :=
     map (\<lambda>w. if gone (wk_name w) then w\<lparr>wk_proc := P_exited\<rparr> else w) (ij_workers ij)\<rparr>"

definition stamp_text :: "money \<Rightarrow> string" where
  "stamp_text t = ''t='' @ rjust 5 (fixed_text 1 t) @ ''s''"

text \<open>\<open>_apply\<close>; \<open>clock\<close> is the reading of the monotonic clock when a worker is suspended.\<close>

definition apply_fault :: "Fault \<Rightarrow> money \<Rightarrow> money \<Rightarrow> Injector \<Rightarrow> Injector \<times> string result" where
  "apply_fault f now clock ij =
     (case pick (ft_u f) (running ij) of
        Inl e \<Rightarrow> (ij, Inl e)
      | Inr None \<Rightarrow> (ij, Inr (stamp_text now @ '' '' @ ft_kind f @ '' (no eligible worker)''))
      | Inr (Some target) \<Rightarrow>
          if ft_kind f = FAULT_KILL then (kill target ij, Inr (stamp_text now @ '' kill -9 '' @ wk_name target))
          else (suspend target (clock + ft_duration f) ij,
                Inr (stamp_text now @ '' suspend '' @ wk_name target @ '' for '' @ fixed_text 1 (ft_duration f) @ ''s'')))"

text \<open>The loop over the faults that are due; \<open>now\<close> is the time since the start.\<close>

fun due_faults :: "turn \<Rightarrow> money \<Rightarrow> nat \<Rightarrow> Fault list \<Rightarrow> supervisor \<Rightarrow> supervisor \<times> unit result" where
  "due_faults tn now k [] s = (s\<lparr>sv_pending := []\<rparr>, Inr ())"
| "due_faults tn now k (f # fs) s =
     (if \<not> ft_at f \<le> now then (s\<lparr>sv_pending := f # fs\<rparr>, Inr ())
      else if ft_kind f = FAULT_DOCKER then
        due_faults tn now (Suc k) fs (s\<lparr>sv_armed := sv_armed s @ [(f, now + DOCKER_WAIT_S)]\<rparr>)
      else (case apply_fault f now (tn_fault_time tn k) (end_workers (tn_ended tn k) (sv_ij s)) of
              (ij, Inl e) \<Rightarrow> (s\<lparr>sv_ij := ij, sv_pending := fs\<rparr>, Inl e)
            | (ij, Inr msg) \<Rightarrow> due_faults tn now (Suc k) fs
                (s\<lparr>sv_ij := ij, sv_applied := sv_applied s @ [msg],
                   sv_fired := sv_fired s + (if contains ''no eligible'' msg then 0 else 1)\<rparr>)))"

text \<open>Up to twenty looks at the containers, until one gives a name.\<close>

definition named :: "string option \<Rightarrow> bool" where
  "named victim \<longleftrightarrow> (case victim of None \<Rightarrow> False | Some s \<Rightarrow> s \<noteq> [])"

fun poll_docker :: "money \<Rightarrow> (nat \<Rightarrow> docker_view) \<Rightarrow> nat \<Rightarrow> nat \<Rightarrow> string option \<Rightarrow> string option" where
  "poll_docker u views 0 k victim = victim"
| "poll_docker u views (Suc n) k victim =
     (let victim = docker_kill u (views k) in if named victim then victim else poll_docker u views n (Suc k) victim)"

definition armed_fault :: "turn \<Rightarrow> money \<Rightarrow> supervisor \<Rightarrow> supervisor" where
  "armed_fault tn started s =
     (case sv_armed s of
        [] \<Rightarrow> s
      | (f, deadline) # rest \<Rightarrow>
          (let victim = poll_docker (ft_u f) (tn_docker tn) 20 0 None; stamp = tn_stamp tn - started in
           if named victim \<or> stamp > deadline
           then s\<lparr>sv_armed := rest,
                  sv_applied := sv_applied s @ [if named victim then stamp_text stamp @ '' docker kill '' @ the victim
                    else stamp_text stamp @ '' docker kill (no container appeared)''],
                  sv_fired := sv_fired s + (if victim \<noteq> None then 1 else 0)\<rparr>
           else s))"

section \<open>The supervisor's loop\<close>

definition due_resume :: "turn \<Rightarrow> worker \<Rightarrow> bool" where
  "due_resume tn w \<longleftrightarrow> (case wk_resume_at w of None \<Rightarrow> False | Some t \<Rightarrow> tn_look tn (wk_name w) \<ge> t)"

fun resume_due :: "turn \<Rightarrow> money \<Rightarrow> worker list \<Rightarrow> supervisor \<Rightarrow> supervisor" where
  "resume_due tn now [] s = s"
| "resume_due tn now (w # ws) s =
     resume_due tn now ws
       (if due_resume tn w
        then s\<lparr>sv_ij := resume w (sv_ij s), sv_applied := sv_applied s @ [stamp_text now @ '' resume '' @ wk_name w]\<rparr>
        else s)"

function refill :: "host \<Rightarrow> int \<Rightarrow> Injector \<Rightarrow> Injector" where
  "refill h n ij = (if int (length (ij_workers ij)) < n then refill h n (spawn_worker h ij) else ij)"
  by pat_completeness auto

termination
  by (relation "measure (\<lambda>(h, n, ij). nat (n - int (length (ij_workers ij))))") (auto simp: spawn_worker_def Let_def)

declare refill.simps [simp del]

datatype loop_end = Goes_on | All_terminal | Timed_out

definition rows_of :: "db \<Rightarrow> uuid list \<Rightarrow> run_row list" where
  "rows_of d run_ids = filter (\<lambda>r. r_id r \<in> set run_ids) (runs d)"

definition supervise_turn :: "host \<Rightarrow> ChaosConfig \<Rightarrow> money \<Rightarrow> uuid list \<Rightarrow> turn \<Rightarrow> supervisor \<Rightarrow>
    supervisor \<times> loop_end result" where
  "supervise_turn h cfg started run_ids tn s =
     (let now = tn_now tn - started in
      case due_faults tn now 0 (sv_pending s) s of
        (s1, Inl e) \<Rightarrow> (s1, Inl e)
      | (s1, Inr _) \<Rightarrow>
          let s2 = armed_fault tn started s1;
              s3 = s2\<lparr>sv_ij := end_workers (tn_gone tn) (sv_ij s2)\<rparr>;
              s4 = resume_due tn now (ij_workers (sv_ij s3)) s3;
              s5 = s4\<lparr>sv_ij := (sv_ij s4)\<lparr>ij_workers := filter alive (ij_workers (sv_ij s4))\<rparr>\<rparr>;
              s6 = s5\<lparr>sv_ij := refill h (cc_workers cfg) (sv_ij s5)\<rparr>
          in (s6, Inr (if \<forall>r \<in> set (rows_of (tn_db tn) run_ids). r_status r \<in> set TERMINAL then All_terminal
                       else if now > cc_timeout_seconds cfg then Timed_out else Goes_on)))"

text \<open>The loop over the turns; when they run out it still goes on.\<close>

fun supervise :: "host \<Rightarrow> ChaosConfig \<Rightarrow> money \<Rightarrow> uuid list \<Rightarrow> turn list \<Rightarrow> supervisor \<Rightarrow> supervisor \<times> loop_end result" where
  "supervise h cfg started run_ids [] s = (s, Inr Goes_on)"
| "supervise h cfg started run_ids (tn # turns) s =
     (case supervise_turn h cfg started run_ids tn s of
        (s', Inr Goes_on) \<Rightarrow> supervise h cfg started run_ids turns s'
      | other \<Rightarrow> other)"

text \<open>The state in which the loop of \<open>run_chaos\<close> starts.\<close>

definition start_supervisor :: "host \<Rightarrow> ChaosConfig \<Rightarrow> string \<Rightarrow> Fault list \<Rightarrow> supervisor" where
  "start_supervisor h cfg tmp schedule =
     \<lparr>sv_ij = (spawn_worker h ^^ nat (cc_workers cfg))
        (new_injector (cc_database_url cfg) (tmp @ ''/logs'') (cc_lease_seconds cfg) (tmp @ ''/ws'')
           (cc_unsafe_no_fencing cfg) False),
      sv_pending = schedule, sv_armed = [], sv_applied = [], sv_fired = 0\<rparr>"

section \<open>The plan is sound\<close>

lemma uniform_bounds:
  assumes "rng_ok rg" and "a \<le> b"
  shows "a \<le> fst (uniform rg a b g) \<and> fst (uniform rg a b g) \<le> b"
proof -
  have u: "0 \<le> fst (rg_random rg g)" "fst (rg_random rg g) < 1" using assms(1) by (simp_all add: rng_ok_def)
  have "(b - a) * fst (rg_random rg g) \<le> (b - a) * 1" using u assms(2) by (intro mult_left_mono) simp_all
  then show ?thesis using u assms(2) by (simp add: uniform_def split_beta Let_def)
qed

lemma randint_bounds:
  assumes "rng_ok rg" and "a \<le> b"
  shows "a \<le> fst (randint rg a b g) \<and> fst (randint rg a b g) \<le> b"
proof -
  have "fst (rg_below rg (nat (b - a + 1)) g) < nat (b - a + 1)" using assms by (simp add: rng_ok_def)
  then show ?thesis by (simp add: randint_def split_beta Let_def)
qed

lemma choice_mem: "rng_ok rg \<Longrightarrow> xs \<noteq> [] \<Longrightarrow> fst (choice rg xs g) \<in> set xs"
  by (simp add: rng_ok_def choice_def split_beta Let_def)

definition planned_spec :: "string \<Rightarrow> dict \<Rightarrow> bool" where
  "planned_spec workload spec \<longleftrightarrow> (spec = agent_spec \<and> workload \<in> {''agent'', ''mixed''})
     \<or> (\<exists>n q. spec = toy_spec n q \<and> 10 \<le> n \<and> n \<le> 20 \<and> 5 / 100 \<le> q \<and> q \<le> 15 / 100 \<and> workload \<noteq> ''agent'')"

lemma draw_spec_planned: "rng_ok rg \<Longrightarrow> planned_spec workload (fst (draw_spec rg workload g))"
  using randint_bounds [of rg 10 20] uniform_bounds [of rg "5 / 100" "15 / 100"]
  by (auto simp: draw_spec_def planned_spec_def Let_def split_beta)

lemma draw_specs_planned:
  "rng_ok rg \<Longrightarrow> length (fst (draw_specs rg workload n g)) = n
     \<and> (\<forall>spec \<in> set (fst (draw_specs rg workload n g)). planned_spec workload spec)"
  by (induction n arbitrary: g) (simp_all add: split_beta Let_def draw_spec_planned)

definition planned_fault :: "money \<Rightarrow> string list \<Rightarrow> Fault \<Rightarrow> bool" where
  "planned_fault lease kinds f \<longleftrightarrow> ft_kind f \<in> set kinds \<and> 0 \<le> ft_u f \<and> ft_u f < 1
     \<and> (if ft_kind f = FAULT_SUSPEND then lease * (13 / 10) \<le> ft_duration f \<and> ft_duration f \<le> lease * (25 / 10)
        else ft_duration f = 0)"

lemma round2_mono: "x \<le> y \<Longrightarrow> round2 x \<le> round2 y"
  using round_half_even_mono [of "x * 100" "y * 100"] by (simp add: round2_def divide_right_mono)

lemma draw_fault_planned:
  assumes "rng_ok rg" and "0 \<le> lease" and "kinds \<noteq> []" and "draw_fault rg lease kinds t g = (t', f, g')"
  shows "planned_fault lease kinds f" "ft_at f = round2 t'" "t \<le> t'"
proof -
  obtain gap g1 where gap: "uniform rg (1 / 2) 2 g = (gap, g1)" by fastforce
  obtain kind g2 where kind: "choice rg kinds g1 = (kind, g2)" by fastforce
  obtain dur g3 where dur: "uniform rg (lease * (13 / 10)) (lease * (25 / 10)) g2 = (dur, g3)" by fastforce
  obtain u g4 where u: "rg_random rg g3 = (u, g4)" by fastforce
  have f: "f = \<lparr>ft_at = round2 (t + gap), ft_kind = kind, ft_u = u,
      ft_duration = (if kind = FAULT_SUSPEND then dur else 0)\<rparr>" "t' = t + gap"
    using assms(4) by (auto simp only: draw_fault_def gap kind dur u Let_def prod.case prod.inject)
  have "lease * (13 / 10) \<le> lease * (25 / 10)" using assms(2) by (intro mult_left_mono) simp_all
  from uniform_bounds [OF assms(1) this, of g2] have "lease * (13 / 10) \<le> dur" "dur \<le> lease * (25 / 10)"
    unfolding dur by (simp_all only: fst_conv)
  moreover have "0 \<le> u" "u < 1" using assms(1) fst_conv [of u g4] unfolding rng_ok_def u [symmetric] by metis+
  moreover have "kind \<in> set kinds" using choice_mem [OF assms(1,3), of g1] by (simp add: kind)
  ultimately show "planned_fault lease kinds f" by (simp only: f planned_fault_def Fault.select_convs) simp
  show "ft_at f = round2 t'" by (simp add: f)
  show "t \<le> t'" using uniform_bounds [OF assms(1), of "1 / 2" 2 g] by (simp add: f gap)
qed

lemma draw_faults_planned:
  assumes "rng_ok rg" and "0 \<le> lease" and "kinds \<noteq> []"
  shows "length (draw_faults rg lease kinds n t g) = n
    \<and> (\<forall>f \<in> set (draw_faults rg lease kinds n t g). planned_fault lease kinds f \<and> round2 t \<le> ft_at f)
    \<and> sorted (map ft_at (draw_faults rg lease kinds n t g))"
proof (induction n arbitrary: t g)
  case (Suc n)
  obtain t' f g' where f: "draw_fault rg lease kinds t g = (t', f, g')" by (cases "draw_fault rg lease kinds t g") auto
  note d = draw_fault_planned [OF assms f]
  from d(2) round2_mono [OF d(3)] Suc.IH [of t' g'] show ?case
    by (auto simp: f d(1) intro: order_trans)
qed simp

lemma fault_kinds_nonempty [simp]: "fault_kinds cfg \<noteq> []"
  by (simp add: fault_kinds_def)

lemma plan_planned:
  assumes "rng_ok rg" and "0 \<le> cc_lease_seconds cfg" and "plan rg cfg = (specs, schedule)"
  shows "length specs = nat (cc_runs cfg)" "\<forall>spec \<in> set specs. planned_spec (cc_workload cfg) spec"
    "length schedule = nat (n_faults cfg)" "sorted (map ft_at schedule)"
    "\<forall>f \<in> set schedule. planned_fault (cc_lease_seconds cfg) (fault_kinds cfg) f"
  using assms(3) draw_specs_planned [OF assms(1), of "cc_workload cfg" "nat (cc_runs cfg)"]
    draw_faults_planned [OF assms(1,2) fault_kinds_nonempty, of cfg]
  by (auto simp: plan_def split_beta Let_def)

text \<open>
  Whatever the generator draws within its documented ranges, the plan is a sound scenario: one run
  per requested run, each the scripted agent or a toy of 10 to 20 steps, as the workload asks; the
  requested number of faults, in the order of their times, docker faults only when there are agents;
  every draw picks a target in range; a suspended worker sleeps longer than its lease.
\<close>

theorem plan_sound:
  assumes "rng_ok rg" and "0 < cc_lease_seconds cfg" and "plan rg cfg = (specs, schedule)"
  shows "length specs = nat (cc_runs cfg)
    \<and> (\<forall>spec \<in> set specs. (spec = agent_spec \<and> cc_workload cfg \<in> {''agent'', ''mixed''})
         \<or> (\<exists>n q. spec = toy_spec n q \<and> 10 \<le> n \<and> n \<le> 20 \<and> cc_workload cfg \<noteq> ''agent''))
    \<and> length schedule = nat (n_faults cfg) \<and> sorted (map ft_at schedule)
    \<and> (\<forall>f \<in> set schedule. 0 \<le> ft_u f \<and> ft_u f < 1 \<and> ft_kind f \<in> {FAULT_KILL, FAULT_SUSPEND, FAULT_DOCKER}
         \<and> (ft_kind f = FAULT_DOCKER \<longrightarrow> cc_workload cfg \<noteq> ''toy'')
         \<and> (ft_kind f = FAULT_SUSPEND \<longrightarrow> cc_lease_seconds cfg < ft_duration f))"
proof -
  have "0 \<le> cc_lease_seconds cfg" using assms(2) by simp
  note p = plan_planned [OF assms(1) this assms(3)]
  have long: "cc_lease_seconds cfg < cc_lease_seconds cfg * (13 / 10)" using assms(2) by simp
  have "FAULT_DOCKER \<noteq> FAULT_KILL" "FAULT_DOCKER \<noteq> FAULT_SUSPEND"
    by (simp_all add: FAULT_DOCKER_def FAULT_KILL_def FAULT_SUSPEND_def)
  then have "0 \<le> ft_u f \<and> ft_u f < 1 \<and> ft_kind f \<in> {FAULT_KILL, FAULT_SUSPEND, FAULT_DOCKER}
      \<and> (ft_kind f = FAULT_DOCKER \<longrightarrow> cc_workload cfg \<noteq> ''toy'')
      \<and> (ft_kind f = FAULT_SUSPEND \<longrightarrow> cc_lease_seconds cfg < ft_duration f)" if "f \<in> set schedule" for f
    using p(5) that long by (fastforce simp: planned_fault_def fault_kinds_def split: if_splits)
  with p(1-4) show ?thesis by (fastforce simp: planned_spec_def)
qed

section \<open>What one turn keeps\<close>

definition in_range :: "Fault \<Rightarrow> bool" where
  "in_range f \<longleftrightarrow> 0 \<le> ft_u f \<and> ft_u f < 1"

lemma staffed_end: "staffed h ij0 ij \<Longrightarrow> staffed h ij0 (end_workers gone ij)"
  unfolding end_workers_def by (rule kill_op.staffed_where)

lemma length_end [simp]: "length (ij_workers (end_workers gone ij)) = length (ij_workers ij)"
  by (simp add: end_workers_def)

lemma apply_fault_ok:
  assumes "staffed h ij0 ij" and "in_range f"
  obtains ij' msg where "apply_fault f now clock ij = (ij', Inr msg)" "staffed h ij0 ij'"
    "length (ij_workers ij') = length (ij_workers ij)"
proof -
  consider "pick (ft_u f) (running ij) = Inr None" | w where "pick (ft_u f) (running ij) = Inr (Some w)"
    using pick_ok [of "ft_u f" "running ij"] assms(2) by (auto simp: in_range_def)
  then show ?thesis
    by cases (use that assms(1) in \<open>cases "ft_kind f = FAULT_KILL"; simp add: apply_fault_def staffed_ops\<close>)+
qed

text \<open>
  Every popped fault was counted as fired, is armed, or missed; what is left starts with a fault that is
  not due yet.
\<close>

definition accounts :: "money \<Rightarrow> Fault list \<Rightarrow> supervisor \<Rightarrow> supervisor \<Rightarrow> bool" where
  "accounts now fs s s' \<longleftrightarrow> (\<exists>past. fs = past @ sv_pending s'
     \<and> sv_fired s' + length (sv_armed s') \<le> sv_fired s + length (sv_armed s) + length past
     \<and> fst ` set (sv_armed s') \<subseteq> fst ` set (sv_armed s) \<union> set past)
     \<and> (sv_pending s' = [] \<or> now < ft_at (hd (sv_pending s')))"

lemma accounts_Cons:
  assumes "accounts now fs s1 s'"
    and "sv_fired s1 + length (sv_armed s1) \<le> Suc (sv_fired s + length (sv_armed s))"
    and "fst ` set (sv_armed s1) \<subseteq> insert f (fst ` set (sv_armed s))"
  shows "accounts now (f # fs) s s'"
proof -
  from assms(1) obtain past where past: "fs = past @ sv_pending s'"
    "sv_fired s' + length (sv_armed s') \<le> sv_fired s1 + length (sv_armed s1) + length past"
    "fst ` set (sv_armed s') \<subseteq> fst ` set (sv_armed s1) \<union> set past"
    "sv_pending s' = [] \<or> now < ft_at (hd (sv_pending s'))"
    by (auto simp: accounts_def)
  have "f # fs = (f # past) @ sv_pending s'" by (simp add: past(1))
  moreover have "sv_fired s' + length (sv_armed s') \<le> sv_fired s + length (sv_armed s) + length (f # past)"
    using past(2) assms(2) by simp
  moreover have "fst ` set (sv_armed s') \<subseteq> fst ` set (sv_armed s) \<union> set (f # past)"
    using past(3) assms(3) by auto
  ultimately show ?thesis using past(4) unfolding accounts_def by blast
qed

lemma due_faults_ok:
  "due_faults tn now k fs s = (s', r) \<Longrightarrow> staffed h ij0 (sv_ij s) \<Longrightarrow> \<forall>f \<in> set fs. in_range f \<Longrightarrow>
     r = Inr () \<and> staffed h ij0 (sv_ij s') \<and> length (ij_workers (sv_ij s')) = length (ij_workers (sv_ij s))
     \<and> accounts now fs s s'"
proof (induction fs arbitrary: k s)
  case Nil
  then show ?case by (auto simp: accounts_def)
next
  case (Cons f fs)
  have rest: "\<forall>f \<in> set fs. in_range f" and f: "in_range f" using Cons.prems(3) by simp_all
  show ?case
  proof (cases "ft_at f \<le> now")
    case False
    with Cons.prems(1,2) show ?thesis by (auto simp: accounts_def)
  next
    case due: True
    show ?thesis
    proof (cases "ft_kind f = FAULT_DOCKER")
      case True
      let ?s = "s\<lparr>sv_armed := sv_armed s @ [(f, now + DOCKER_WAIT_S)]\<rparr>"
      have "due_faults tn now (Suc k) fs ?s = (s', r)" using Cons.prems(1) due True by simp
      from Cons.IH [OF this _ rest] Cons.prems(2) show ?thesis by (auto intro!: accounts_Cons [of now fs ?s])
    next
      case False
      have "staffed h ij0 (end_workers (tn_ended tn k) (sv_ij s))" by (rule staffed_end [OF Cons.prems(2)])
      then obtain ij' msg where a: "apply_fault f now (tn_fault_time tn k) (end_workers (tn_ended tn k) (sv_ij s)) = (ij', Inr msg)"
        "staffed h ij0 ij'" "length (ij_workers ij') = length (ij_workers (sv_ij s))"
        by (rule apply_fault_ok [OF _ f]) simp
      let ?s = "s\<lparr>sv_ij := ij', sv_applied := sv_applied s @ [msg],
        sv_fired := sv_fired s + (if contains ''no eligible'' msg then 0 else 1)\<rparr>"
      have "due_faults tn now (Suc k) fs ?s = (s', r)" using Cons.prems(1) due False a(1) by simp
      from Cons.IH [OF this _ rest] a show ?thesis by (auto intro!: accounts_Cons [of now fs ?s])
    qed
  qed
qed

lemma armed_fault_frame:
  "sv_ij (armed_fault tn started s) = sv_ij s" "sv_pending (armed_fault tn started s) = sv_pending s"
  "sv_fired (armed_fault tn started s) + length (sv_armed (armed_fault tn started s)) \<le> sv_fired s + length (sv_armed s)"
  "set (sv_armed (armed_fault tn started s)) \<subseteq> set (sv_armed s)"
  by (auto simp: armed_fault_def Let_def split: list.splits)

lemma resumed_idem [simp]: "resumed (resumed w) = resumed w"
  by (simp add: resumed_def signal_def alive_def)

lemma resume_due_frame:
  "sv_pending (resume_due tn now ws s) = sv_pending s" "sv_armed (resume_due tn now ws s) = sv_armed s"
  "sv_fired (resume_due tn now ws s) = sv_fired s"
  by (induction ws arbitrary: s) simp_all

lemma resume_due_workers:
  "sv_ij (resume_due tn now ws s) = (sv_ij s)\<lparr>ij_workers :=
     map (\<lambda>v. if \<exists>w \<in> set ws. wk_name w = wk_name v \<and> due_resume tn w then resumed v else v) (ij_workers (sv_ij s))\<rparr>"
proof (induction ws arbitrary: s)
  case (Cons w ws)
  have "map (\<lambda>v. if \<exists>x \<in> set ws. wk_name x = wk_name v \<and> due_resume tn x then resumed v else v)
        (map (\<lambda>v. if wk_name v = wk_name w then resumed v else v) vs)
      = map (\<lambda>v. if wk_name w = wk_name v \<or> (\<exists>x \<in> set ws. wk_name x = wk_name v \<and> due_resume tn x)
          then resumed v else v) vs" for vs
    by (auto simp: resume_op.keeps_identity)
  with Cons show ?case by (simp add: resume_def on_worker_def)
qed simp

lemma resume_due_all:
  assumes "distinct (map wk_name (ij_workers (sv_ij s)))"
  shows "sv_ij (resume_due tn now (ij_workers (sv_ij s)) s) = (sv_ij s)\<lparr>ij_workers :=
     map (\<lambda>v. if due_resume tn v then resumed v else v) (ij_workers (sv_ij s))\<rparr>"
proof -
  have "(\<exists>w \<in> set (ij_workers (sv_ij s)). wk_name w = wk_name v \<and> due_resume tn w) \<longleftrightarrow> due_resume tn v"
    if "v \<in> set (ij_workers (sv_ij s))" for v
    using assms that by (auto simp: distinct_map inj_on_def)
  then show ?thesis by (simp add: resume_due_workers cong: map_cong)
qed

lemma refill_ok:
  "staffed h ij0 ij \<Longrightarrow> staffed h ij0 (refill h n ij)
     \<and> int (length (ij_workers (refill h n ij))) = max n (int (length (ij_workers ij)))
     \<and> (\<forall>w \<in> set (ij_workers (refill h n ij)). w \<in> set (ij_workers ij) \<or> wk_proc w = P_running \<and> wk_resume_at w = None)"
proof (induction h n ij rule: refill.induct)
  case (1 h n ij)
  show ?case
  proof (cases "int (length (ij_workers ij)) < n")
    case True
    obtain w where w: "ij_workers (spawn_worker h ij) = ij_workers ij @ [w]" "wk_proc w = P_running" "wk_resume_at w = None"
      by (rule spawn_worker_E)
    from 1(1) [OF True staffed_spawn [OF 1(2)]] True show ?thesis
      by (subst (1 2 3) refill.simps) (auto simp: w)
  qed (use 1 in \<open>simp add: refill.simps\<close>)
qed

section \<open>The supervisor's invariant\<close>

definition full_staff :: "host \<Rightarrow> ChaosConfig \<Rightarrow> Injector \<Rightarrow> supervisor \<Rightarrow> bool" where
  "full_staff h cfg ij0 s \<longleftrightarrow> staffed h ij0 (sv_ij s) \<and> (\<forall>w \<in> set (ij_workers (sv_ij s)). alive w)
     \<and> int (length (ij_workers (sv_ij s))) = max 0 (cc_workers cfg)"

definition counted :: "Fault list \<Rightarrow> supervisor \<Rightarrow> bool" where
  "counted schedule s \<longleftrightarrow> (\<exists>past. schedule = past @ sv_pending s
     \<and> sv_fired s + length (sv_armed s) \<le> length past \<and> fst ` set (sv_armed s) \<subseteq> set past)"

lemma spawn_times:
  "staffed h ij0 ij \<Longrightarrow> \<forall>w \<in> set (ij_workers ij). alive w \<Longrightarrow>
     staffed h ij0 ((spawn_worker h ^^ n) ij) \<and> (\<forall>w \<in> set (ij_workers ((spawn_worker h ^^ n) ij)). alive w)
     \<and> length (ij_workers ((spawn_worker h ^^ n) ij)) = n + length (ij_workers ij)"
proof (induction n)
  case (Suc n)
  let ?ij = "(spawn_worker h ^^ n) ij"
  obtain w where "ij_workers (spawn_worker h ?ij) = ij_workers ?ij @ [w]" "wk_proc w = P_running"
    by (rule spawn_worker_E)
  with Suc show ?case by (auto simp: staffed_spawn alive_def)
qed simp

abbreviation cfg_injector :: "ChaosConfig \<Rightarrow> string \<Rightarrow> Injector" where
  "cfg_injector cfg tmp \<equiv> new_injector (cc_database_url cfg) (tmp @ ''/logs'') (cc_lease_seconds cfg) (tmp @ ''/ws'')
     (cc_unsafe_no_fencing cfg) False"

lemma start_ok:
  "full_staff h cfg (cfg_injector cfg tmp) (start_supervisor h cfg tmp schedule) \<and> counted schedule (start_supervisor h cfg tmp schedule)"
  using spawn_times [OF staffed_new, of "cc_database_url cfg" "tmp @ ''/logs''" "cc_lease_seconds cfg" "tmp @ ''/ws''"
      "cc_unsafe_no_fencing cfg" False h "nat (cc_workers cfg)"]
  by (auto simp: full_staff_def start_supervisor_def new_injector_def counted_def)

lemma counted_step:
  assumes "counted schedule s" and "accounts now (sv_pending s) s s1"
    and "sv_pending s' = sv_pending s1" "sv_fired s' + length (sv_armed s') \<le> sv_fired s1 + length (sv_armed s1)"
    and "set (sv_armed s') \<subseteq> set (sv_armed s1)"
  shows "counted schedule s'"
proof -
  from assms(1) obtain p where p: "schedule = p @ sv_pending s" "sv_fired s + length (sv_armed s) \<le> length p"
    "fst ` set (sv_armed s) \<subseteq> set p" by (auto simp: counted_def)
  from assms(2) obtain q where q: "sv_pending s = q @ sv_pending s1"
    "sv_fired s1 + length (sv_armed s1) \<le> sv_fired s + length (sv_armed s) + length q"
    "fst ` set (sv_armed s1) \<subseteq> fst ` set (sv_armed s) \<union> set q" by (auto simp: accounts_def)
  have "schedule = (p @ q) @ sv_pending s'" using p(1) q(1) assms(3) by simp
  moreover have "sv_fired s' + length (sv_armed s') \<le> length (p @ q)" using p(2) q(2) assms(4) by simp
  moreover have "fst ` set (sv_armed s') \<subseteq> set (p @ q)"
    unfolding set_append
    by (rule order_trans [OF image_mono [OF assms(5)] order_trans [OF q(3) Un_mono [OF p(3) order_refl]]])
  ultimately show ?thesis unfolding counted_def by blast
qed

lemma sorted_later:
  assumes "sorted (map ft_at fs)" and "fs = [] \<or> now < ft_at (hd fs)"
  shows "\<forall>f \<in> set fs. now < ft_at f"
  using assms by (cases fs) auto

lemma turn_ok:
  assumes "supervise_turn h cfg started run_ids tn s = (s', r)" and "full_staff h cfg ij0 s" and "counted schedule s"
    and "\<forall>f \<in> set schedule. in_range f" and "sorted (map ft_at schedule)"
  shows "full_staff h cfg ij0 s'" "counted schedule s'" "\<exists>e. r = Inr e"
    "\<forall>f \<in> set (sv_pending s'). tn_now tn - started < ft_at f"
    "\<forall>w \<in> set (ij_workers (sv_ij s')). wk_resume_at w \<noteq> None \<longrightarrow> wk_proc w = P_stopped \<and> \<not> due_resume tn w"
proof -
  let ?now = "tn_now tn - started"
  obtain s1 r1 where d: "due_faults tn ?now 0 (sv_pending s) s = (s1, r1)" by fastforce
  from assms(3) obtain past where past: "schedule = past @ sv_pending s" by (auto simp: counted_def)
  have "\<forall>f \<in> set (sv_pending s). in_range f" using assms(4) past by simp
  with assms(2) due_faults_ok [OF d] have s1: "r1 = Inr ()" "staffed h ij0 (sv_ij s1)"
    "length (ij_workers (sv_ij s1)) = length (ij_workers (sv_ij s))" "accounts ?now (sv_pending s) s s1"
    by (auto simp: full_staff_def)
  define s2 where "s2 = armed_fault tn started s1"
  define s3 where "s3 = s2\<lparr>sv_ij := end_workers (tn_gone tn) (sv_ij s2)\<rparr>"
  define s4 where "s4 = resume_due tn ?now (ij_workers (sv_ij s3)) s3"
  define s5 where "s5 = s4\<lparr>sv_ij := (sv_ij s4)\<lparr>ij_workers := filter alive (ij_workers (sv_ij s4))\<rparr>\<rparr>"
  have s': "s' = s5\<lparr>sv_ij := refill h (cc_workers cfg) (sv_ij s5)\<rparr>" "\<exists>e. r = Inr e"
    using assms(1) by (auto simp: supervise_turn_def d s1(1) Let_def s2_def s3_def s4_def s5_def)
  show "\<exists>e. r = Inr e" by (rule s'(2))
  have st3: "staffed h ij0 (sv_ij s3)" by (simp add: s3_def s2_def armed_fault_frame staffed_end s1(2))
  then have ij4: "sv_ij s4 = (sv_ij s3)\<lparr>ij_workers := map (\<lambda>v. if due_resume tn v then resumed v else v) (ij_workers (sv_ij s3))\<rparr>"
    unfolding s4_def by (intro resume_due_all) (simp add: staffed_def names_ok_def)
  have "staffed h ij0 (sv_ij s4)" unfolding ij4 by (rule resume_op.staffed_where [OF st3])
  then have st5: "staffed h ij0 (sv_ij s5)" by (simp add: s5_def staffed_filter)
  have len: "length (ij_workers (sv_ij s5)) \<le> length (ij_workers (sv_ij s))"
    using s1(3) length_filter_le [of alive "ij_workers (sv_ij s4)"]
    by (simp add: s5_def ij4 s3_def s2_def armed_fault_frame)
  have calm: "alive w \<and> \<not> due_resume tn w" if "w \<in> set (ij_workers (sv_ij s5))" for w
    using that by (auto simp: s5_def ij4 due_resume_def resumed_def)
  note re = refill_ok [OF st5, of "cc_workers cfg"]
  show staff: "full_staff h cfg ij0 s'"
    using re calm len assms(2) by (auto simp: full_staff_def s'(1) alive_def)
  show "\<forall>w \<in> set (ij_workers (sv_ij s')). wk_resume_at w \<noteq> None \<longrightarrow> wk_proc w = P_stopped \<and> \<not> due_resume tn w"
  proof (intro ballI impI)
    fix w assume w: "w \<in> set (ij_workers (sv_ij s'))" "wk_resume_at w \<noteq> None"
    then have "w \<in> set (ij_workers (sv_ij s5))" using re by (auto simp: s'(1))
    moreover have "wk_ok w" "alive w" using w(1) staff by (auto simp: full_staff_def staffed_def)
    ultimately show "wk_proc w = P_stopped \<and> \<not> due_resume tn w" using calm w(2) by (simp add: wk_ok_def)
  qed
  have frame: "sv_pending s' = sv_pending s1" "sv_armed s' = sv_armed s2" "sv_fired s' = sv_fired s2"
    by (simp_all add: s'(1) s5_def s4_def s3_def s2_def resume_due_frame armed_fault_frame)
  then show cnt: "counted schedule s'"
    by (intro counted_step [OF assms(3) s1(4)]) (simp_all add: s2_def armed_fault_frame)
  have "sorted (map ft_at (sv_pending s'))"
    using assms(5) cnt by (auto simp: counted_def sorted_append)
  then show "\<forall>f \<in> set (sv_pending s'). ?now < ft_at f"
    using s1(4) by (intro sorted_later) (auto simp: accounts_def frame)
qed

lemma supervise_ok:
  "supervise h cfg started run_ids turns s = (s', r) \<Longrightarrow> full_staff h cfg ij0 s \<Longrightarrow> counted schedule s \<Longrightarrow>
     \<forall>f \<in> set schedule. in_range f \<Longrightarrow> sorted (map ft_at schedule) \<Longrightarrow>
     full_staff h cfg ij0 s' \<and> counted schedule s' \<and> (\<exists>e. r = Inr e)
     \<and> (r = Inr Goes_on \<longrightarrow> turns \<noteq> [] \<longrightarrow> (\<forall>f \<in> set (sv_pending s'). tn_now (last turns) - started < ft_at f)
          \<and> (\<forall>w \<in> set (ij_workers (sv_ij s')). wk_resume_at w \<noteq> None \<longrightarrow> wk_proc w = P_stopped \<and> \<not> due_resume (last turns) w))"
proof (induction turns arbitrary: s)
  case (Cons tn turns)
  obtain s1 r1 where t: "supervise_turn h cfg started run_ids tn s = (s1, r1)" by fastforce
  note ok = turn_ok [OF t Cons.prems(2-5)]
  show ?case
  proof (cases "r1 = Inr Goes_on")
    case True
    with Cons.prems(1) have "supervise h cfg started run_ids turns s1 = (s', r)" by (simp add: t)
    from Cons.IH [OF this ok(1,2) Cons.prems(4,5)] ok(4,5) this show ?thesis
      by (cases "turns = []") simp_all
  next
    case False
    with Cons.prems(1) have "s' = s1" "r = r1" by (auto simp: t split: sum.splits loop_end.splits)
    with ok False show ?thesis by auto
  qed
qed auto

section \<open>Properties of the supervised scenario\<close>

lemma planned_in_range:
  assumes "rng_ok rg" and "0 \<le> cc_lease_seconds cfg" and "plan rg cfg = (specs, schedule)"
  shows "\<forall>f \<in> set schedule. in_range f" "sorted (map ft_at schedule)"
  using plan_planned [OF assms] by (auto simp: planned_fault_def in_range_def)

text \<open>
  C21. The supervisor never fails and never runs short: whatever ends, is killed or is suspended in
  whatever order, after every turn of the loop exactly the configured number of workers is alive, under
  distinct names, each stopped exactly while a time to resume it is set, and each with the environment
  the configuration prescribes. No planned fault makes the choice of a victim raise.
\<close>

theorem supervisor_keeps_workers:
  assumes "rng_ok rg" and "0 \<le> cc_lease_seconds cfg" and "plan rg cfg = (specs, schedule)"
    and "supervise h cfg started run_ids turns (start_supervisor h cfg tmp schedule) = (s', r)"
  shows "(\<exists>e. r = Inr e) \<and> int (length (ij_workers (sv_ij s'))) = max 0 (cc_workers cfg)
    \<and> distinct (map wk_name (ij_workers (sv_ij s')))
    \<and> (\<forall>w \<in> set (ij_workers (sv_ij s')). alive w \<and> (wk_proc w = P_stopped \<longleftrightarrow> wk_resume_at w \<noteq> None)
         \<and> wk_env w ''PHOENIX_REAL_LLM'' = Some ''0'' \<and> wk_env w ''DATABASE_URL'' = Some (cc_database_url cfg)
         \<and> (cc_unsafe_no_fencing cfg \<longrightarrow> \<not> fencing_enabled (wk_env w))
         \<and> (\<not> cc_unsafe_no_fencing cfg \<longrightarrow> fencing_enabled (wk_env w) = fencing_enabled (hs_environ h)))"
proof -
  have staff: "full_staff h cfg (cfg_injector cfg tmp) s'" "\<exists>e. r = Inr e"
    using supervise_ok [OF assms(4) start_ok [THEN conjunct1] start_ok [THEN conjunct2] planned_in_range [OF assms(1-3)]]
    by blast+
  have env: "worker_env h (cfg_injector cfg tmp) ''PHOENIX_REAL_LLM'' = Some ''0''"
    "worker_env h (cfg_injector cfg tmp) ''DATABASE_URL'' = Some (cc_database_url cfg)"
    "cc_unsafe_no_fencing cfg \<Longrightarrow> \<not> fencing_enabled (worker_env h (cfg_injector cfg tmp))"
    "\<not> cc_unsafe_no_fencing cfg \<Longrightarrow> fencing_enabled (worker_env h (cfg_injector cfg tmp)) = fencing_enabled (hs_environ h)"
    by (simp_all add: worker_env_def new_injector_def fencing_enabled_def Let_def)
  from staff env show ?thesis
    unfolding full_staff_def staffed_def names_ok_def wk_ok_def by simp
qed

text \<open>
  C25. Every scheduled fault is accounted for: at any time the schedule is the popped faults followed by
  the pending ones, each popped fault counted at most once as a hit while none that is still waiting for
  a container is counted. After a turn no pending fault is overdue, and no suspended worker is past
  the time to resume it.
\<close>

theorem faults_accounted:
  assumes "rng_ok rg" and "0 \<le> cc_lease_seconds cfg" and "plan rg cfg = (specs, schedule)"
    and "supervise h cfg started run_ids turns (start_supervisor h cfg tmp schedule) = (s', r)"
  shows "(\<exists>past. schedule = past @ sv_pending s' \<and> sv_fired s' + length (sv_armed s') \<le> length past
      \<and> fst ` set (sv_armed s') \<subseteq> set past)
    \<and> (r = Inr Goes_on \<and> turns \<noteq> [] \<longrightarrow> (\<forall>f \<in> set (sv_pending s'). tn_now (last turns) - started < ft_at f)
      \<and> (\<forall>w \<in> set (ij_workers (sv_ij s')). \<not> due_resume (last turns) w))"
proof -
  note ok = supervise_ok [OF assms(4) start_ok [THEN conjunct1] start_ok [THEN conjunct2] planned_in_range [OF assms(1-3)]]
  have "\<not> due_resume tn w" if "wk_resume_at w \<noteq> None \<longrightarrow> wk_proc w = P_stopped \<and> \<not> due_resume tn w" for tn w
    using that by (auto simp: due_resume_def)
  with ok show ?thesis unfolding counted_def by blast
qed

text \<open>
  Every worker the supervisor starts can run every run of the plan, and none can spend money: with
  the environment it got, whatever a \<open>.env\<close> file in its directory adds, a planned toy builds its workflow
  with 10 to 20 steps and a planned agent gets the scripted provider; the real provider is never built.
\<close>

theorem planned_runs_start:
  assumes "rng_ok rg" and "0 \<le> cc_lease_seconds cfg" and "plan rg cfg = (specs, schedule)"
    and "load_dotenv contents (worker_env h (cfg_injector cfg tmp)) = (env', Inr names)" and "spec \<in> set specs"
  shows "(\<exists>tw. workflow_for env' real_p spec \<lparr>ec_provider = None, ec_workspace_root = rt\<rparr> = Inr (Toy tw)
            \<and> 10 \<le> tw_steps tw \<and> tw_steps tw \<le> 20 \<and> tw_cost tw = 1 / 10000)
    \<or> (\<exists>aw script. workflow_for env' real_p spec \<lparr>ec_provider = None, ec_workspace_root = rt\<rparr> = Inr (Agent aw)
            \<and> map_of SCENARIOS ''fail_twice_then_fix'' = Some script \<and> aw_provider aw = MockProvider script
            \<and> aw_max_steps aw = DEFAULT_MAX_STEPS)"
proof -
  have env: "env' ''PHOENIX_REAL_LLM'' = Some ''0''"
    by (rule load_dotenv_keeps [OF assms(4)]) (simp add: worker_env_def new_injector_def Let_def)
  from plan_planned(2) [OF assms(1-3)] assms(5) have "planned_spec (cc_workload cfg) spec" by blast
  then consider "spec = agent_spec" | n q where "spec = toy_spec n q" "10 \<le> n" "n \<le> 20"
    unfolding planned_spec_def by blast
  then show ?thesis
  proof cases
    case 1
    obtain script where "map_of SCENARIOS ''fail_twice_then_fix'' = Some script" by (simp add: SCENARIOS_def)
    with 1 env show ?thesis
      by (simp add: workflow_for_def agent_spec_def provider_for_def get_scenario_def agent_init_def get_default_def py_int_def)
  next
    case (2 n q)
    with parse_decimal_cent show ?thesis
      by (simp add: workflow_for_def toy_spec_def toy_init_def get_default_def py_int_def py_float_def py_Decimal_str_def)
  qed
qed

section \<open>Witnesses\<close>

definition demo_rng :: "unit rng" where
  "demo_rng = \<lparr>rg_seed = \<lambda>_. (), rg_random = \<lambda>g. (1 / 2, g), rg_below = \<lambda>n g. (0, g)\<rparr>"

definition demo_cfg :: ChaosConfig where
  "demo_cfg = \<lparr>cc_seed = 7, cc_runs = 1, cc_workers = 2, cc_lease_seconds = 2, cc_workload = ''agent'',
     cc_faults = Some 2, cc_timeout_seconds = 300, cc_unsafe_no_fencing = False, cc_database_url = ''db''\<rparr>"

definition demo_host :: host where
  "demo_host = \<lparr>hs_environ = \<lambda>_. None, hs_executable = ''python'', hs_src = ''src'', hs_float_text = fixed_text 1\<rparr>"

definition demo_fault :: "money \<Rightarrow> Fault" where
  "demo_fault t = \<lparr>ft_at = t, ft_kind = FAULT_KILL, ft_u = 1 / 2, ft_duration = 0\<rparr>"

definition demo_turn :: "money \<Rightarrow> db \<Rightarrow> turn" where
  "demo_turn now d = \<lparr>tn_now = now, tn_fault_time = \<lambda>_. now, tn_ended = \<lambda>_ _. False,
     tn_docker = \<lambda>_. \<lparr>dv_running = None, dv_kill = \<lambda>_. False\<rparr>, tn_stamp = now, tn_gone = \<lambda>_. False,
     tn_look = \<lambda>_. now, tn_db = d\<rparr>"

lemma demo_rng_ok: "rng_ok demo_rng"
  by (simp add: rng_ok_def demo_rng_def)

lemma demo_plan: "plan demo_rng demo_cfg = ([agent_spec], [demo_fault (5 / 4), demo_fault (5 / 2)])"
  by code_simp

theorem plan_sound_witness:
  "plan demo_rng demo_cfg = ([agent_spec], [demo_fault (5 / 4), demo_fault (5 / 2)])
   \<and> length [agent_spec] = 1 \<and> sorted (map ft_at [demo_fault (5 / 4), demo_fault (5 / 2)])"
proof -
  have "0 < cc_lease_seconds demo_cfg" by (simp add: demo_cfg_def)
  from plan_sound [OF demo_rng_ok this demo_plan] demo_plan show ?thesis by (simp add: demo_cfg_def)
qed

text \<open>One turn two seconds in: the first fault kills \<open>w2\<close>, the supervisor replaces it by \<open>w3\<close>.\<close>

definition demo_state :: "supervisor \<times> loop_end result" where
  "demo_state = supervise demo_host demo_cfg 0 [''r''] [demo_turn 2 (empty_db\<lparr>runs := [sample_run]\<rparr>)]
     (start_supervisor demo_host demo_cfg ''tmp'' [demo_fault (5 / 4), demo_fault (5 / 2)])"

lemma refill_unfold:
  "int (length (ij_workers ij)) < n \<Longrightarrow> refill h n ij = refill h n (spawn_worker h ij)"
  "n \<le> int (length (ij_workers ij)) \<Longrightarrow> refill h n ij = ij"
  by (simp_all add: refill.simps [of h n ij])

lemma demo_message: "\<not> contains ''no eligible'' (stamp_text 2 @ '' kill -9 '' @ worker_name (Suc (Suc 0)))"
  by code_simp

lemma demo_state_facts:
  "map wk_name (ij_workers (sv_ij (fst demo_state))) = [worker_name 1, worker_name 3] \<and> sv_fired (fst demo_state) = 1
   \<and> sv_pending (fst demo_state) = [demo_fault (5 / 2)] \<and> snd demo_state = Inr Goes_on"
  using demo_message
  by (simp add: demo_state_def supervise_turn_def start_supervisor_def demo_cfg_def demo_turn_def demo_fault_def
      spawn_worker_def Let_def new_injector_def apply_fault_def pick_def running_def alive_def list_item_def py_trunc_def
      kill_def on_worker_def FAULT_KILL_def FAULT_DOCKER_def armed_fault_def end_workers_def due_resume_def refill_unfold
      rows_of_def sample_run_def empty_db_def TERMINAL_def eval_nat_numeral)

lemma demo_run: "supervise demo_host demo_cfg 0 [''r''] [demo_turn 2 (empty_db\<lparr>runs := [sample_run]\<rparr>)]
    (start_supervisor demo_host demo_cfg ''tmp'' [demo_fault (5 / 4), demo_fault (5 / 2)]) = (fst demo_state, snd demo_state)"
  by (simp only: demo_state_def prod.collapse)

lemma demo_lease: "0 \<le> cc_lease_seconds demo_cfg"
  by (simp add: demo_cfg_def)

theorem supervisor_keeps_workers_witness:
  "map wk_name (ij_workers (sv_ij (fst demo_state))) = [worker_name 1, worker_name 3]
   \<and> list_all (\<lambda>w. alive w \<and> wk_env w ''PHOENIX_REAL_LLM'' = Some ''0'') (ij_workers (sv_ij (fst demo_state)))"
  using supervisor_keeps_workers [OF demo_rng_ok demo_lease demo_plan demo_run] demo_state_facts(1)
  unfolding list_all_iff by blast

theorem faults_accounted_witness:
  "sv_pending (fst demo_state) = [demo_fault (5 / 2)] \<and> sv_fired (fst demo_state) = 1
   \<and> list_all (\<lambda>w. \<not> due_resume (demo_turn 2 (empty_db\<lparr>runs := [sample_run]\<rparr>)) w)
        (ij_workers (sv_ij (fst demo_state)))"
  using faults_accounted [OF demo_rng_ok demo_lease demo_plan demo_run] demo_state_facts by (simp add: list_all_iff)

lemma not_toy: "map_sum id Agent m \<noteq> Inr (Toy tw)"
  by (cases m) auto

theorem planned_runs_start_witness:
  "\<exists>aw script. workflow_for (worker_env demo_host (cfg_injector demo_cfg ''tmp'')) (Inl AttributeError) agent_spec
       \<lparr>ec_provider = None, ec_workspace_root = [''ws'']\<rparr> = Inr (Agent aw) \<and> aw_provider aw = MockProvider script"
proof -
  have env: "load_dotenv None (worker_env demo_host (cfg_injector demo_cfg ''tmp'')) = (worker_env demo_host (cfg_injector demo_cfg ''tmp''), Inr [])"
    by (simp add: load_dotenv_def)
  have "workflow_for env real_p agent_spec ctx \<noteq> Inr (Toy tw)" for env real_p ctx tw
    by (auto simp: workflow_for_def agent_spec_def bind_result_def not_toy split: sum.splits)
  with planned_runs_start [OF demo_rng_ok demo_lease demo_plan env, of agent_spec "Inl AttributeError" "[''ws'']"]
  show ?thesis by auto
qed

end
