(* ===== verification/ChaosRun.thy ===== *)
theory ChaosRun
  imports Supervisor Billing
begin

text \<open>
  \<open>run_chaos\<close> of \<open>src/phoenix/chaos/scenarios.py\<close> from end to end and its report: the planned runs are
  submitted, the supervisor loops, everything is shut down, the checks read the database. The theory
  puts the harness together with the platform of \<open>System\<close>: with fencing on, a scenario that ends before
  its timeout passes; and what a pass says about the database.
\<close>

section \<open>The report\<close>

record ChaosReport =
  cr_config :: ChaosConfig
  cr_duration_s :: money
  cr_schedule :: "Fault list"
  cr_applied :: "string list"
  cr_statuses :: "(string \<times> nat) list"
  cr_invariants :: "InvariantResult list"
  cr_timed_out :: bool
  cr_fired :: nat
  cr_takeovers :: nat
  cr_run_ids :: "uuid list"

definition report_passed :: "ChaosReport \<Rightarrow> bool" where
  "report_passed rep \<longleftrightarrow> list_all ir_passed (cr_invariants rep)"

definition invariant_lines :: "nat \<times> InvariantResult \<Rightarrow> string list" where
  "invariant_lines ni = (case ni of (n, i) \<Rightarrow>
     [''  '' @ str_nat n @ ''. '' @ ljust 18 (ir_name i) @ '' '' @ (if ir_passed i then ''PASS'' else ''FAIL'')
      @ ''  '' @ ir_summary i]
     @ map (\<lambda>v. ''       - '' @ v) (ir_violations i)
     @ map (\<lambda>r. ''       ~ retry: '' @ r) (take 5 (ir_retries i)))"

definition render :: "host \<Rightarrow> ChaosReport \<Rightarrow> string" where
  "render h rep =
     (let c = cr_config rep in
      join_str [CHR 0x0A]
       ([''CHAOS REPORT  seed='' @ str_int (cc_seed c) @ '' runs='' @ str_int (cc_runs c) @ '' workers='' @ str_int (cc_workers c)
         @ '' lease='' @ hs_float_text h (cc_lease_seconds c) @ ''s workload='' @ cc_workload c
         @ '' duration='' @ fixed_text 1 (cr_duration_s rep) @ ''s'']
        @ (if cc_unsafe_no_fencing c then [''!! UNSAFE MODE: fencing + abort-on-lost-lease are DISABLED !!''] else [])
        @ [''faults: '' @ str_nat (cr_fired rep) @ '' hit a target, '' @ str_nat (length (cr_schedule rep)) @ '' scheduled'']
        @ (if cr_applied rep = [] then [''  (none)''] else map (\<lambda>a. ''  '' @ a) (cr_applied rep))
        @ [''runs that needed a takeover (attempt > 1): '' @ str_nat (cr_takeovers rep)]
        @ [''run statuses: '' @ join_str '', '' (map (\<lambda>(k, v). k @ ''='' @ str_nat v) (sort (cr_statuses rep)))]
        @ (if cr_timed_out rep then [''TIMED OUT after '' @ fixed_text 0 (cc_timeout_seconds c) @ ''s with runs still in flight''] else [])
        @ [''invariants:'']
        @ concat (map invariant_lines (zip [1..<Suc (length (cr_invariants rep))] (cr_invariants rep)))
        @ [''RESULT: '' @ (if report_passed rep then ''PASS'' else ''FAIL'')]))"

section \<open>The whole scenario\<close>

text \<open>\<open>ids k\<close>: the transaction time and the two fresh UUIDs of the \<open>k\<close>-th submission.\<close>

fun submit_specs :: "(nat \<Rightarrow> time \<times> uuid \<times> uuid) \<Rightarrow> nat \<Rightarrow> dict list \<Rightarrow> db \<Rightarrow> (db \<times> uuid list) result" where
  "submit_specs ids k [] d = Inr (d, [])"
| "submit_specs ids k (spec # specs) d =
     (case ids k of (now, rid, tid) \<Rightarrow>
        bind_result (submit_run now rid tid spec 1 d) (\<lambda>(d1, run_id).
        bind_result (submit_specs ids (Suc k) specs d1) (\<lambda>(d2, run_ids). Inr (d2, run_id # run_ids))))"

definition status_counts :: "db \<Rightarrow> uuid list \<Rightarrow> (string \<times> nat) list" where
  "status_counts d run_ids =
     (let rows = rows_of d run_ids in
      map (\<lambda>st. (status_text st, length (filter (\<lambda>r. r_status r = st) rows))) (remdups (map r_status rows)))"

definition takeovers :: "db \<Rightarrow> uuid list \<Rightarrow> nat" where
  "takeovers d run_ids = length (filter (\<lambda>t. t_run_id t \<in> set run_ids \<and> t_attempt t > 1) (tasks d))"

text \<open>What is left when \<open>run_chaos\<close> is over: the injector, the containers, and the report or the exception.\<close>

record chaos_outcome =
  co_injector :: Injector
  co_containers :: "string list option"
  co_report :: "ChaosReport result"

definition chaos_report :: "(money \<Rightarrow> string) \<Rightarrow> ChaosConfig \<Rightarrow> money \<Rightarrow> Fault list \<Rightarrow> supervisor \<Rightarrow> bool \<Rightarrow> uuid list \<Rightarrow> db \<Rightarrow>
    ChaosReport result" where
  "chaos_report dec_text cfg duration schedule s timed_out run_ids d =
     bind_result (check_all dec_text d run_ids) (\<lambda>invariants.
       Inr \<lparr>cr_config = cfg, cr_duration_s = duration, cr_schedule = schedule, cr_applied = sv_applied s,
            cr_statuses = status_counts d run_ids, cr_invariants = invariants, cr_timed_out = timed_out,
            cr_fired = sv_fired s, cr_takeovers = takeovers d run_ids, cr_run_ids = run_ids\<rparr>)"

text \<open>
  \<open>started\<close> and \<open>stopped\<close> are readings of the clock, \<open>turns\<close> what happens during the loop, \<open>labelled\<close> and
  \<open>removable\<close> what the shutdown finds at the Docker daemon, \<open>d_end\<close> the database the queries after it
  read. \<open>None\<close>: the loop still goes on after these turns. The \<open>finally\<close> block runs on every way out.
\<close>

definition run_chaos :: "'g rng \<Rightarrow> host \<Rightarrow> (money \<Rightarrow> string) \<Rightarrow> ChaosConfig \<Rightarrow> string \<Rightarrow> (nat \<Rightarrow> time \<times> uuid \<times> uuid) \<Rightarrow>
    money \<Rightarrow> turn list \<Rightarrow> (string \<Rightarrow> bool) \<Rightarrow> string list option \<Rightarrow> money \<Rightarrow> db \<Rightarrow> db \<Rightarrow> chaos_outcome option result" where
  "run_chaos rg h dec_text cfg tmp ids started turns removable labelled stopped d_end d =
     (let (specs, schedule) = plan rg cfg in
      bind_result (submit_specs ids 0 specs d) (\<lambda>(d1, run_ids).
      let (s, r) = supervise h cfg started run_ids turns (start_supervisor h cfg tmp schedule);
          (ij, containers) = shutdown removable labelled (sv_ij s)
      in if r = Inr Goes_on then Inr None
         else Inr (Some \<lparr>co_injector = ij, co_containers = containers,
                co_report = bind_result r (\<lambda>ending. chaos_report dec_text cfg (stopped - started) schedule s
                  (ending = Timed_out) run_ids d_end)\<rparr>)))"

section \<open>Lemmas\<close>

text \<open>The databases somebody reads one after the other while the platform runs on from a state.\<close>

inductive db_path :: "config \<Rightarrow> sys \<Rightarrow> db list \<Rightarrow> bool" for cf :: config where
  path_end: "db_path cf s []"
| path_read: "(sys_step cf)\<^sup>*\<^sup>* s s' \<Longrightarrow> db_path cf s' ds \<Longrightarrow> db_path cf s (sy_db s' # ds)"

inductive_cases db_path_ConsE: "db_path cf s (d # ds)"

lemma db_path_split:
  "db_path cf s (ds @ d # ds') \<Longrightarrow> \<exists>s'. (sys_step cf)\<^sup>*\<^sup>* s s' \<and> sy_db s' = d \<and> db_path cf s' ds'"
proof (induction ds arbitrary: s)
  case Nil
  then show ?case by (auto elim: db_path_ConsE)
next
  case (Cons x ds)
  from Cons.prems obtain s1 where "(sys_step cf)\<^sup>*\<^sup>* s s1" "db_path cf s1 (ds @ d # ds')"
    by (auto elim: db_path_ConsE)
  with Cons.IH show ?case by (meson rtranclp_trans)
qed

lemma supervise_terminal:
  "supervise h cfg started run_ids turns s = (s', Inr All_terminal) \<Longrightarrow>
     \<exists>before tn later. turns = before @ tn # later \<and> (\<forall>r \<in> set (rows_of (tn_db tn) run_ids). r_status r \<in> set TERMINAL)"
proof (induction turns arbitrary: s)
  case (Cons tn turns)
  obtain s1 r1 where t: "supervise_turn h cfg started run_ids tn s = (s1, r1)" by fastforce
  show ?case
  proof (cases "r1 = Inr Goes_on")
    case True
    with Cons.prems have "supervise h cfg started run_ids turns s1 = (s', Inr All_terminal)" by (simp add: t)
    from Cons.IH [OF this] show ?thesis by (metis append_Cons)
  next
    case False
    with Cons.prems have "r1 = Inr All_terminal" by (auto simp: t split: sum.splits loop_end.splits)
    with t have "\<forall>r \<in> set (rows_of (tn_db tn) run_ids). r_status r \<in> set TERMINAL"
      by (auto simp: supervise_turn_def Let_def split: prod.splits sum.splits if_splits)
    then show ?thesis by blast
  qed
qed simp

lemma submit_specs_ok:
  "submit_specs ids k specs d = Inr (d', run_ids) \<Longrightarrow>
     length run_ids = length specs \<and> distinct run_ids \<and> set run_ids \<inter> r_id ` set (runs d) = {}
     \<and> r_id ` set (runs d') = r_id ` set (runs d) \<union> set run_ids
     \<and> ((\<forall>spec \<in> set specs. cf_spec cf spec) \<longrightarrow> (sys_step cf)\<^sup>*\<^sup>* \<lparr>sy_db = d, sy_jobs = js\<rparr> \<lparr>sy_db = d', sy_jobs = js\<rparr>)"
proof (induction specs arbitrary: k d run_ids)
  case (Cons spec specs)
  obtain now rid tid where k: "ids k = (now, rid, tid)" by (cases "ids k") auto
  from Cons.prems obtain d1 id rest where s: "submit_run now rid tid spec 1 d = Inr (d1, id)"
    "submit_specs ids (Suc k) specs d1 = Inr (d', rest)" "run_ids = id # rest"
    by (auto simp: k bind_result_Inr_iff)
  from s(1) have new: "id = rid" "rid \<notin> r_id ` set (runs d)" "r_id ` set (runs d1) = insert rid (r_id ` set (runs d))"
    by (auto elim!: submit_run_InrE)
  have "sys_step cf \<lparr>sy_db = d, sy_jobs = js\<rparr> \<lparr>sy_db = d1, sy_jobs = js\<rparr>" if "cf_spec cf spec"
    using s(1) that by (auto simp: new(1) intro: sys_step.submit)
  with Cons.IH [OF s(2)] new show ?case
    by (auto simp: s(3) intro: converse_rtranclp_into_rtranclp)
qed simp

lemma runs_kept:
  assumes "(sys_step cf)\<^sup>*\<^sup>* s s'" and "reachable cf s"
  shows "r_id ` set (runs (sy_db s)) \<subseteq> r_id ` set (runs (sy_db s'))"
  using assms(1)
proof (induction rule: rtranclp_induct)
  case (step s1 s2)
  have "reachable cf s1" using assms(2) step(1) unfolding reachable_def by (rule rtranclp_trans)
  then have "grows (sy_db s1) (sy_db s2)" using sys_step_grows(1) [OF step(2)] reachable_core by blast
  moreover have "\<exists>x. find_run r d = Some x" if "r \<in> r_id ` set (runs d)" for r d
    using that by (cases "find_run r d") (auto simp: find_run_def find_None_iff)
  moreover have "r \<in> r_id ` set (runs d)" if "find_run r d = Some x" for r x d
    using that by (auto simp: find_run_def dest: find_SomeD)
  ultimately have "r_id ` set (runs (sy_db s1)) \<subseteq> r_id ` set (runs (sy_db s2))"
    unfolding grows_def by (meson subsetI)
  with step.IH show ?case by blast
qed simp

lemma rows_length:
  assumes "distinct (map r_id rows)" and "distinct ids" and "set ids \<subseteq> r_id ` set rows"
  shows "length (filter (\<lambda>r. r_id r \<in> set ids) rows) = length ids"
proof -
  let ?f = "filter (\<lambda>r. r_id r \<in> set ids) rows"
  have "set (map r_id ?f) = set ids" using assms(3) by auto
  moreover have "distinct (map r_id ?f)" using assms(1) by (simp add: distinct_map_filter)
  ultimately show ?thesis using assms(2) by (metis distinct_card length_map)
qed

lemma spend_passes:
  assumes "spend_ok d" and "\<forall>r \<in> set run_ids. \<forall>e \<in> set (run_events d r). fits_scale 6 (cost_of (ev_payload e))"
  shows "\<exists>res. spend_consistency dec_text d run_ids = Inr res \<and> ir_passed res"
proof -
  have priced: "spend_total d r = Inr (log_cost (run_events d r))" for r
    using assms(1) spent_from_events_priced [of "run_events d r"]
    by (simp add: spend_total_def spent_from_events_def spend_ok_def)
  have "map_of (map (\<lambda>r. (r, log_cost (run_events d r))) run_ids) r = Some (log_cost (run_events d r))"
    if "r \<in> set run_ids" for r
    using that by (induction run_ids) auto
  moreover have "r_spent_usd x = log_cost (run_events d (r_id x))" if "x \<in> set (runs d)" "r_id x \<in> set run_ids" for x
    using assms that by (auto simp: spend_ok_def spend_match_def)
  ultimately show ?thesis by (auto simp: spend_consistency_def priced Let_def filter_empty_conv)
qed

lemma run_chaos_SomeE:
  assumes "run_chaos rg h dec_text cfg tmp ids started turns removable labelled stopped d_end d = Inr (Some out)"
  obtains specs schedule d1 run_ids s r where "plan rg cfg = (specs, schedule)"
    "submit_specs ids 0 specs d = Inr (d1, run_ids)"
    "supervise h cfg started run_ids turns (start_supervisor h cfg tmp schedule) = (s, r)" "r \<noteq> Inr Goes_on"
    "co_injector out = fst (shutdown removable labelled (sv_ij s))"
    "co_containers out = snd (shutdown removable labelled (sv_ij s))"
    "co_report out = bind_result r (\<lambda>ending. chaos_report dec_text cfg (stopped - started) schedule s
       (ending = Timed_out) run_ids d_end)"
proof -
  obtain specs schedule where plan: "plan rg cfg = (specs, schedule)" by fastforce
  with assms obtain d1 run_ids where sub: "submit_specs ids 0 specs d = Inr (d1, run_ids)"
    by (auto simp: run_chaos_def bind_result_Inr_iff)
  obtain s r where sup: "supervise h cfg started run_ids turns (start_supervisor h cfg tmp schedule) = (s, r)" by fastforce
  obtain ij cs where sh: "shutdown removable labelled (sv_ij s) = (ij, cs)" by fastforce
  have "out = \<lparr>co_injector = ij, co_containers = cs, co_report = bind_result r (\<lambda>ending.
      chaos_report dec_text cfg (stopped - started) schedule s (ending = Timed_out) run_ids d_end)\<rparr>" "r \<noteq> Inr Goes_on"
    using assms by (auto simp: run_chaos_def plan sub sup sh Let_def split: if_splits)
  with plan sub sup sh show ?thesis by (intro that) simp_all
qed

section \<open>A fenced scenario passes\<close>

lemma all_runs_terminal:
  assumes "reachable cf s" and "fencing_enabled (cf_env cf)" and "(sys_step cf)\<^sup>*\<^sup>* s s'"
    and "distinct run_ids" and "set run_ids \<subseteq> r_id ` set (runs (sy_db s))"
    and "\<forall>r \<in> set (rows_of (sy_db s) run_ids). r_status r \<in> set TERMINAL"
  shows "(\<forall>r \<in> set (rows_of (sy_db s') run_ids). r_status r \<in> set TERMINAL)
    \<and> length (rows_of (sy_db s') run_ids) = length run_ids"
proof
  have r': "reachable cf s'" using assms(1,3) unfolding reachable_def by (rule rtranclp_trans)
  then have dist: "distinct (map r_id (runs (sy_db s')))" using reachable_db_core by (simp add: db_core_def)
  have "set run_ids \<subseteq> r_id ` set (runs (sy_db s'))" using assms(5) runs_kept [OF assms(3,1)] by blast
  then show "length (rows_of (sy_db s') run_ids) = length run_ids"
    unfolding rows_of_def by (rule rows_length [OF dist assms(4)])
  show "\<forall>r \<in> set (rows_of (sy_db s') run_ids). r_status r \<in> set TERMINAL"
  proof
    fix y assume y: "y \<in> set (rows_of (sy_db s') run_ids)"
    then obtain x where x: "x \<in> set (runs (sy_db s))" "r_id x = r_id y" using assms(5) by (fastforce simp: rows_of_def)
    with y assms(6) have ended: "r_status x \<in> set TERMINAL" by (simp add: rows_of_def)
    have "x \<in> set (runs (sy_db s'))" using finished_steps [OF assms(3,1,2) x(1) ended] by simp
    with y x(2) dist have "x = y" by (auto simp: rows_of_def distinct_map inj_on_def)
    with ended show "r_status y \<in> set TERMINAL" by simp
  qed
qed

lemma checks_pass:
  assumes "reachable cf s" and "fencing_enabled (cf_env cf)"
    and "\<forall>r \<in> set (rows_of (sy_db s) run_ids). r_status r \<in> set TERMINAL"
    and "length (rows_of (sy_db s) run_ids) = length run_ids"
    and "\<forall>r \<in> set run_ids. \<forall>e \<in> set (run_events (sy_db s) r). fits_scale 6 (cost_of (ev_payload e))"
  shows "\<exists>invs. check_all dec_text (sy_db s) run_ids = Inr invs \<and> list_all ir_passed invs \<and> length invs = 4"
proof -
  have "ir_passed (termination_check (sy_db s) run_ids)"
    using assms(3,4) by (auto simp: termination_check_def Let_def rows_of_def filter_empty_conv)
  moreover have "ir_passed (log_integrity (sy_db s) run_ids)"
    using reachable_writers_ok [OF assms(1,2)] reachable_db_core [OF assms(1)]
    by (simp add: log_integrity_passes_iff reachable_read [OF assms(1)] db_core_def)
  moreover have "ir_passed (no_double_billing (sy_db s) run_ids)"
    by (rule no_double_billing_passes [OF reachable_calls_distinct [OF assms(1)]])
  moreover obtain res where "spend_consistency dec_text (sy_db s) run_ids = Inr res" "ir_passed res"
    using spend_passes [OF spend_inv.Q_reachable [OF assms(1) refl] assms(5)] by blast
  ultimately show ?thesis by (simp add: check_all_def)
qed

text \<open>
  The harness passes a correct platform: start it on any reachable state, let the workers, the faults
  and everything else interleave in any way the platform allows, with fencing on. If the loop ends before
  the timeout, the report exists and all its four checks pass: every submitted run is terminal when
  the checks read the database, under exactly the planned number of runs. (Costs have at most six
  decimals, as the scripted provider's and the toy's have.)
\<close>

theorem chaos_run_passes:
  assumes "reachable cf s" and "fencing_enabled (cf_env cf)" and "rng_ok rg" and "0 \<le> cc_lease_seconds cfg"
    and "\<forall>spec \<in> set (fst (plan rg cfg)). cf_spec cf spec"
    and "submit_specs ids 0 (fst (plan rg cfg)) (sy_db s) = Inr (d1, run_ids)"
    and "db_path cf (s\<lparr>sy_db := d1\<rparr>) (map tn_db turns @ [d_end])"
    and "\<forall>r \<in> set run_ids. \<forall>e \<in> set (run_events d_end r). fits_scale 6 (cost_of (ev_payload e))"
    and "run_chaos rg h dec_text cfg tmp ids started turns removable labelled stopped d_end (sy_db s) = Inr (Some out)"
  shows "\<exists>rep. co_report out = Inr rep \<and> (\<not> cr_timed_out rep \<longrightarrow> report_passed rep \<and> length (cr_invariants rep) = 4
      \<and> (\<forall>x \<in> set (rows_of d_end run_ids). r_status x \<in> set TERMINAL)
      \<and> length (rows_of d_end run_ids) = nat (cc_runs cfg))"
proof -
  from assms(9) obtain specs schedule d' ids' s' r where plan: "plan rg cfg = (specs, schedule)"
    and sub': "submit_specs ids 0 specs (sy_db s) = Inr (d', ids')"
    and sup': "supervise h cfg started ids' turns (start_supervisor h cfg tmp schedule) = (s', r)"
    and out': "r \<noteq> Inr Goes_on" "co_report out = bind_result r (\<lambda>ending. chaos_report dec_text cfg (stopped - started)
      schedule s' (ending = Timed_out) ids' d_end)"
    by (rule run_chaos_SomeE)
  have "ids' = run_ids" using sub' assms(6) by (simp add: plan)
  with sup' have sup: "supervise h cfg started run_ids turns (start_supervisor h cfg tmp schedule) = (s', r)" by simp
  note sub = submit_specs_ok [OF assms(6), of cf "sy_jobs s"]
  let ?s1 = "s\<lparr>sy_db := d1\<rparr>"
  have "(sys_step cf)\<^sup>*\<^sup>* s ?s1" using sub assms(5) by (cases s) simp
  then have reach1: "reachable cf ?s1" using assms(1) unfolding reachable_def by (rule rtranclp_trans [rotated])
  obtain ending where r: "r = Inr ending"
    using supervise_ok [OF sup start_ok [THEN conjunct1] start_ok [THEN conjunct2] planned_in_range [OF assms(3,4) plan]]
    by blast
  have out: "r \<noteq> Inr Goes_on" "co_report out = chaos_report dec_text cfg (stopped - started) schedule s' (ending = Timed_out) run_ids d_end"
    using out' \<open>ids' = run_ids\<close> by (simp_all add: r)
  from db_path_split [OF assms(7)] obtain s2 where s2: "(sys_step cf)\<^sup>*\<^sup>* ?s1 s2" "sy_db s2 = d_end" by blast
  then have reach2: "reachable cf s2" using reach1 unfolding reachable_def by (meson rtranclp_trans)
  obtain invs where invs: "check_all dec_text d_end run_ids = Inr invs"
    using spend_passes [OF spend_inv.Q_reachable [OF reach2 refl], of run_ids dec_text] assms(8)
    by (auto simp: check_all_def s2(2))
  have pass: "list_all ir_passed invs \<and> length invs = 4 \<and> (\<forall>x \<in> set (rows_of d_end run_ids). r_status x \<in> set TERMINAL)
      \<and> length (rows_of d_end run_ids) = nat (cc_runs cfg)" if "ending \<noteq> Timed_out"
  proof -
    have "ending = All_terminal" using that out(1) r by (cases ending) auto
    with sup r obtain before tn later where tn: "turns = before @ tn # later"
      "\<forall>r \<in> set (rows_of (tn_db tn) run_ids). r_status r \<in> set TERMINAL" using supervise_terminal by blast
    from assms(7) have "db_path cf ?s1 (map tn_db before @ tn_db tn # (map tn_db later @ [d_end]))" by (simp add: tn(1))
    then obtain s3 where s3: "(sys_step cf)\<^sup>*\<^sup>* ?s1 s3" "sy_db s3 = tn_db tn" "db_path cf s3 (map tn_db later @ [d_end])"
      by (blast dest: db_path_split)
    from db_path_split [OF s3(3)] obtain s4 where s4: "(sys_step cf)\<^sup>*\<^sup>* s3 s4" "sy_db s4 = d_end" by blast
    have reach3: "reachable cf s3" using reach1 s3(1) unfolding reachable_def by (rule rtranclp_trans)
    then have reach4: "reachable cf s4" using s4(1) unfolding reachable_def by (rule rtranclp_trans)
    have "set run_ids \<subseteq> r_id ` set (runs (sy_db s3))" using runs_kept [OF s3(1) reach1] sub by auto
    note ended = all_runs_terminal [OF reach3 assms(2) s4(1) _ this, unfolded s3(2) s4(2), OF _ tn(2)]
    have t: "\<forall>x \<in> set (rows_of d_end run_ids). r_status x \<in> set TERMINAL" "length (rows_of d_end run_ids) = length run_ids"
      using ended sub by simp_all
    have "length run_ids = nat (cc_runs cfg)" using sub plan_planned(1) [OF assms(3,4) plan] by (simp add: plan)
    with t checks_pass [OF reach4 assms(2), unfolded s4(2), OF t assms(8), of dec_text] invs show ?thesis by simp
  qed
  show ?thesis
    unfolding out(2) chaos_report_def invs using pass by (simp add: report_passed_def)
qed

lemma chaos_report_fields: "chaos_report dec_text cfg dur schedule s' t run_ids d = Inr rep \<Longrightarrow>
    check_all dec_text d run_ids = Inr (cr_invariants rep) \<and> cr_timed_out rep = t \<and> cr_run_ids rep = run_ids"
  by (auto simp: chaos_report_def bind_result_Inr_iff)

lemma demo_chaos_ends:
  "snd (supervise demo_host demo_cfg 0 [''r''] [demo_turn 2 demo_finished]
     (start_supervisor demo_host demo_cfg ''tmp'' [demo_fault (5 / 4), demo_fault (5 / 2)])) = Inr All_terminal"
  using demo_message
  by (simp add: supervise_turn_def start_supervisor_def demo_cfg_def demo_turn_def demo_fault_def
      spawn_worker_def Let_def new_injector_def apply_fault_def pick_def running_def alive_def list_item_def py_trunc_def
      kill_def on_worker_def FAULT_KILL_def FAULT_DOCKER_def armed_fault_def end_workers_def due_resume_def refill_unfold
      rows_of_def demo_facts TERMINAL_def eval_nat_numeral)

lemma demo_chaos_submits: "submit_specs (\<lambda>_. (0, ''r'', ''t'')) 0 (fst (plan demo_rng demo_cfg)) empty_db = Inr (demo_submitted, [''r''])"
proof -
  have "agent_spec = demo_spec" by (simp add: agent_spec_def demo_spec_def)
  then show ?thesis using demo_submit by (simp add: demo_plan)
qed

lemma demo_costs: "\<forall>r \<in> set [''r'']. \<forall>e \<in> set (run_events demo_finished r). fits_scale 6 (cost_of (ev_payload e))"
proof -
  have cost: "cost_of (ev_payload demo_event) = 35 / 100000"
    by (simp add: demo_event_def cost_of_def demo_outcome_def agent_outcome_def demo_response_def Let_def)
  have "fits_scale 6 (cost_of (ev_payload demo_event))" unfolding cost by (simp add: fits_scale_def)
  then show ?thesis by (simp add: run_events_def demo_finished_def)
qed

abbreviation demo_chaos :: "chaos_outcome option result" where
  "demo_chaos \<equiv> run_chaos demo_rng demo_host (\<lambda>_. ''0'') demo_cfg ''tmp'' (\<lambda>_. (0, ''r'', ''t'')) 0
     [demo_turn 2 demo_finished] (\<lambda>_. True) (Some [''c'']) 3 demo_finished empty_db"

lemma demo_chaos_report:
  obtains out rep where "demo_chaos = Inr (Some out)" "co_report out = Inr rep" "\<not> cr_timed_out rep"
    "report_passed rep" "cr_run_ids rep = [''r'']"
proof -
  obtain s' where sup: "supervise demo_host demo_cfg 0 [''r''] [demo_turn 2 demo_finished]
      (start_supervisor demo_host demo_cfg ''tmp'' [demo_fault (5 / 4), demo_fault (5 / 2)]) = (s', Inr All_terminal)"
    using demo_chaos_ends by (metis prod.collapse)
  have subs: "submit_specs (\<lambda>_. (0, ''r'', ''t'')) 0 [agent_spec] empty_db = Inr (demo_submitted, [''r''])"
    using demo_chaos_submits by (simp add: demo_plan)
  obtain ij c where sh: "shutdown (\<lambda>_. True) (Some [''c'']) (sv_ij s') = (ij, c)" by fastforce
  obtain out where out: "demo_chaos = Inr (Some out)"
    "co_report out = chaos_report (\<lambda>_. ''0'') demo_cfg 3 [demo_fault (5 / 4), demo_fault (5 / 2)] s' False [''r''] demo_finished"
    using subs by (simp add: run_chaos_def demo_plan sup Let_def sh del: supervise.simps submit_specs.simps)
  have rows: "rows_of demo_finished [''r''] = [demo_run Succeeded (35 / 100000) (Some 3)]"
    by (simp add: rows_of_def demo_facts)
  obtain invs where invs: "check_all (\<lambda>_. ''0'') demo_finished [''r''] = Inr invs" "list_all ir_passed invs"
    using checks_pass [OF demo_reachable demo_facts(1), of "[''r'']" "\<lambda>_. ''0''"] demo_costs
    by (auto simp: demo_facts(2) rows TERMINAL_def)
  have "\<exists>rep. co_report out = Inr rep \<and> \<not> cr_timed_out rep \<and> report_passed rep \<and> cr_run_ids rep = [''r'']"
    using invs by (simp add: out(2) chaos_report_def report_passed_def)
  with out(1) that show ?thesis by blast
qed

theorem chaos_run_passes_witness:
  "\<exists>out rep. demo_chaos = Inr (Some out) \<and> co_report out = Inr rep \<and> report_passed rep
     \<and> length (rows_of demo_finished [''r'']) = 1"
proof -
  obtain out rep where out: "demo_chaos = Inr (Some out)" "co_report out = Inr rep" "\<not> cr_timed_out rep"
    by (rule demo_chaos_report)
  have init: "reachable demo_config init_sys" "sy_db init_sys = empty_db" by (simp_all add: reachable_def init_sys_def)
  have path: "db_path demo_config (init_sys\<lparr>sy_db := demo_submitted\<rparr>) (map tn_db [demo_turn 2 demo_finished] @ [demo_finished])"
    using path_read [OF demo_finishes path_read [OF rtranclp.rtrancl_refl path_end]]
    by (simp add: init_sys_def demo_turn_def demo_facts)
  from chaos_run_passes [OF init(1) demo_facts(1) demo_rng_ok demo_lease _ demo_chaos_submits [folded init(2)] path demo_costs
      out(1) [folded init(2)]] out
  show ?thesis by (auto simp: demo_config_def demo_cfg_def)
qed

section \<open>What a pass means\<close>

lemma termination_passed:
  assumes "ir_passed (termination_check d run_ids)" and "distinct (map r_id (runs d))" and "distinct run_ids"
    and "rid \<in> set run_ids"
  shows "\<exists>x \<in> set (runs d). r_id x = rid \<and> r_status x \<in> set TERMINAL"
proof -
  let ?rows = "filter (\<lambda>r. r_id r \<in> set run_ids) (runs d)"
  have p: "\<forall>r \<in> set ?rows. r_status r \<in> set TERMINAL" "length ?rows = length run_ids"
    using assms(1) by (auto simp: termination_check_def Let_def filter_empty_conv)
  have "card (set (map r_id ?rows)) = length ?rows"
    using assms(2) by (metis distinct_card distinct_map_filter length_map)
  then have "card (set (map r_id ?rows)) = card (set run_ids)"
    using p(2) assms(3) by (simp only: distinct_card)
  moreover have "set (map r_id ?rows) \<subseteq> set run_ids" by auto
  ultimately have "set (map r_id ?rows) = set run_ids" by (intro card_subset_eq) simp_all
  with assms(4) have "rid \<in> set (map r_id ?rows)" by simp
  with p(1) show ?thesis by auto
qed

lemma billing_passed:
  assumes "ir_passed (no_double_billing d run_ids)" and "rid \<in> set run_ids"
  shows "distinct (map pc_attempt (filter (\<lambda>c. pc_run_id c = rid \<and> pc_step_index c = i) (provider_calls d)))"
proof -
  let ?g = "filter (\<lambda>c. pc_run_id c = rid \<and> pc_step_index c = i) (provider_calls d)"
  have g: "filter (\<lambda>c. pc_run_id c = rid \<and> pc_step_index c = i) (calls_of d run_ids) = ?g"
    using assms(2) by (auto simp: calls_of_def intro: filter_cong)
  show ?thesis
  proof (cases "?g = []")
    case False
    then obtain c where "c \<in> set ?g" by (cases ?g) auto
    then have "(rid, i) \<in> (\<lambda>c. (pc_run_id c, pc_step_index c)) ` set (calls_of d run_ids)"
      using assms(2) by (force simp: calls_of_def)
    then have "((rid, i), map pc_attempt (sort_key pc_id ?g)) \<in> set (billing_groups d run_ids)"
      unfolding g [symmetric] by (force simp: billing_groups_def)
    moreover have "distinct attempts" if "(k, attempts) \<in> set (billing_groups d run_ids)" for k attempts
    proof (cases "length attempts = 1")
      case True
      then show ?thesis by (cases attempts) auto
    next
      case False
      with assms(1) that have "card (set attempts) = length attempts"
        unfolding no_double_billing_def Let_def InvariantResult.select_convs map_is_Nil_conv filter_empty_conv by (cases k) auto
      then show ?thesis by (rule card_distinct)
    qed
    ultimately have "distinct (map pc_attempt (sort_key pc_id ?g))" by blast
    then show ?thesis by (simp only: distinct_map distinct_sort set_sort)
  qed simp
qed

lemma spend_passed:
  assumes "spend_consistency dec_text d run_ids = Inr res" and "ir_passed res" and "x \<in> set (runs d)"
    and "r_id x \<in> set run_ids"
  shows "spent_from_events (run_events d (r_id x)) = Inr (r_spent_usd x)"
proof -
  obtain totals where t: "map_result (\<lambda>r. bind_result (spend_total d r) (\<lambda>t. Inr (r, t))) run_ids = Inr totals"
    using assms(1) by (auto simp: spend_consistency_def bind_result_Inr_iff)
  then have all: "list_all2 (\<lambda>r p. \<exists>t. spend_total d r = Inr t \<and> p = (r, t)) run_ids totals"
    by (auto dest!: map_result_InrD simp: bind_result_Inr_iff elim!: list_all2_mono)
  have look: "\<exists>t. spend_total d r = Inr t \<and> map_of totals r = Some t" if "r \<in> set run_ids" for r
    using all that by (induction rule: list_all2_induct) auto
  then obtain t' where "spend_total d (r_id x) = Inr t'" "map_of totals (r_id x) = Some t'"
    using assms(4) by blast
  moreover from this have "r_spent_usd x = t'"
    using assms by (auto simp: spend_consistency_def t Let_def filter_empty_conv)
  ultimately show ?thesis by (simp add: spend_total_def spent_from_events_def)
qed

text \<open>
  C20. A pass is earned, with no assumption on how the database came about beyond its primary key: when
  the report passes, every submitted run is terminal, its log is contiguous with writers in order and
  nothing after a final event, its \<open>spent_usd\<close> is exactly the sum of its events' costs, and no attempt
  called the provider twice for a step.
\<close>

theorem chaos_pass_means:
  assumes "run_chaos rg h dec_text cfg tmp ids started turns removable labelled stopped d_end d = Inr (Some out)"
    and "co_report out = Inr rep" and "report_passed rep" and "distinct (map r_id (runs d_end))"
    and "rid \<in> set (cr_run_ids rep)"
  shows "(\<exists>x \<in> set (runs d_end). r_id x = rid \<and> r_status x \<in> set TERMINAL
        \<and> spent_from_events (run_events d_end rid) = Inr (r_spent_usd x))
    \<and> contiguous rid (read_events d_end rid) \<and> writers_ok (read_events d_end rid)
    \<and> distinct (map pc_attempt (filter (\<lambda>c. pc_run_id c = rid \<and> pc_step_index c = i) (provider_calls d_end)))"
proof -
  from assms(1) obtain specs schedule d1 run_ids s r where sub: "submit_specs ids 0 specs d = Inr (d1, run_ids)"
    and rep: "co_report out = bind_result r (\<lambda>ending. chaos_report dec_text cfg (stopped - started) schedule s
      (ending = Timed_out) run_ids d_end)"
    by (rule run_chaos_SomeE)
  from rep assms(2) obtain t where
    run: "chaos_report dec_text cfg (stopped - started) schedule s t run_ids d_end = Inr rep"
    by (cases r) auto
  note f = chaos_report_fields [OF run]
  from f have rid: "rid \<in> set run_ids" "distinct run_ids"
    using assms(5) submit_specs_ok [OF sub] by simp_all
  from f obtain res where res: "spend_consistency dec_text d_end run_ids = Inr res"
    "cr_invariants rep = [termination_check d_end run_ids, log_integrity d_end run_ids, no_double_billing d_end run_ids, res]"
    by (auto simp: check_all_def bind_result_Inr_iff)
  with assms(3) have p: "ir_passed (termination_check d_end run_ids)" "ir_passed (log_integrity d_end run_ids)"
    "ir_passed (no_double_billing d_end run_ids)" "ir_passed res"
    by (simp_all add: report_passed_def)
  obtain x where x: "x \<in> set (runs d_end)" "r_id x = rid" "r_status x \<in> set TERMINAL"
    using termination_passed [OF p(1) assms(4) rid(2,1)] by blast
  with spend_passed [OF res(1) p(4) x(1)] rid(1) p(2) billing_passed [OF p(3) rid(1)] show ?thesis
    by (auto simp: log_integrity_passes_iff)
qed

theorem chaos_pass_means_witness:
  "\<exists>out rep x. demo_chaos = Inr (Some out) \<and> co_report out = Inr rep \<and> report_passed rep
     \<and> x \<in> set (runs demo_finished) \<and> r_status x \<in> set TERMINAL
     \<and> spent_from_events (run_events demo_finished ''r'') = Inr (r_spent_usd x)"
proof -
  obtain out rep where out: "demo_chaos = Inr (Some out)" "co_report out = Inr rep" "report_passed rep"
    "cr_run_ids rep = [''r'']"
    by (rule demo_chaos_report)
  have key: "distinct (map r_id (runs demo_finished))" "''r'' \<in> set (cr_run_ids rep)"
    by (simp_all add: demo_facts out(4))
  from chaos_pass_means [OF out(1-3) key] out(1-3) show ?thesis by blast
qed

text \<open>
  Whatever happens, once the scenario is over no worker process is alive, and no sandbox container is left
  when Docker answers and removes them; the report fails only if a check raises.
\<close>

theorem chaos_leaves_nothing:
  assumes "run_chaos rg h dec_text cfg tmp ids started turns removable labelled stopped d_end d = Inr (Some out)"
  shows "(\<forall>w \<in> set (ij_workers (co_injector out)). \<not> alive w)
    \<and> (\<forall>cs. labelled = Some cs \<and> (\<forall>c \<in> set cs. removable c) \<longrightarrow> co_containers out = Some [])"
  using assms by (rule run_chaos_SomeE) (auto simp: shutdown_def stop_worker_def alive_def remove_all)

end
