(* ===== verification/Cli.thy ===== *)
theory Cli
  imports CommandLine Report ChaosRun EvalRun Timeline Envfile Worker
begin

text \<open>
  The commands of \<open>__main__.py\<close>: what each prints, does to the database and returns as its exit code, and
  \<open>main\<close>, which loads the \<open>.env\<close> file, reads the command line and runs the command. A command that meets
  the outside world (the chaos scenario, the evals, a worker) gets the function that plays it as a
  parameter; the theorems put in the model's own.
\<close>

section \<open>What a command is run with and what it leaves\<close>

record cli_world =
  cw_dotenv :: "string option"
  cw_environ :: environ
  cw_pid :: nat
  cw_read_uuid :: "string \<Rightarrow> uuid option"
  cw_argparse :: "string list \<Rightarrow> nat + command"
  cw_exec :: "string \<Rightarrow> db \<Rightarrow> db result"
  cw_migrations :: "(string \<times> string) list"
  cw_ids :: "nat \<Rightarrow> time \<times> uuid \<times> uuid"
  cw_formats :: formats
  cw_host :: host
  cw_path :: "string \<Rightarrow> path"
  cw_chaos :: "ChaosConfig \<Rightarrow> db \<Rightarrow> chaos_outcome option result"
  cw_evals :: "environ \<Rightarrow> eval_args \<Rightarrow> db \<Rightarrow> eval_outcome"
  cw_round :: "nat \<Rightarrow> money \<Rightarrow> money"
  cw_num :: "money \<Rightarrow> string"
  cw_summary_text :: "eval_summary \<Rightarrow> string"
  cw_file_text :: "eval_summary \<Rightarrow> TaskResult list \<Rightarrow> string"
  cw_worker :: "environ \<Rightarrow> worker_params \<Rightarrow> EngineContext \<Rightarrow> db \<Rightarrow> (worker_turn list \<times> agent_state world) result option"
  cw_exc_repr :: "error \<Rightarrow> string"
  cw_serve :: "environ \<Rightarrow> string \<Rightarrow> int \<Rightarrow> unit result option"

text \<open>The process exits with a code, dies with a traceback, or still runs.\<close>

datatype cli_end = Exit nat | Uncaught error | Still_running

record cli_outcome =
  cx_out :: "string list"
  cx_err :: "string list"
  cx_end :: cli_end
  cx_file :: "(string \<times> string) option"
  cx_schema :: "db schema_state"

definition finish_with :: "db schema_state \<Rightarrow> string list \<Rightarrow> cli_end \<Rightarrow> cli_outcome" where
  "finish_with st out e = \<lparr>cx_out = out, cx_err = [], cx_end = e, cx_file = None, cx_schema = st\<rparr>"

definition dsn_of :: "environ \<Rightarrow> string result" where
  "dsn_of env = (case env ''DATABASE_URL'' of None \<Rightarrow> Inl (KeyError ''DATABASE_URL'') | Some u \<Rightarrow> Inr u)"

section \<open>migrate, submit, status, timeline\<close>

definition migrate_line :: "string list \<Rightarrow> string" where
  "migrate_line applied = ''applied: '' @ (if applied \<noteq> [] then join_str '', '' applied else ''nothing (up to date)'')"

definition cmd_migrate :: "cli_world \<Rightarrow> environ \<Rightarrow> db schema_state \<Rightarrow> cli_outcome" where
  "cmd_migrate cw env st = (case dsn_of env of
       Inl e \<Rightarrow> finish_with st [] (Uncaught e)
     | Inr _ \<Rightarrow> (case apply_migrations (cw_exec cw) (cw_migrations cw) st of
           (st', Inl e) \<Rightarrow> finish_with st' [] (Uncaught e)
         | (st', Inr applied) \<Rightarrow> finish_with st' [migrate_line applied] (Exit 0)))"

text \<open>Every submission is a transaction of its own, under the default budget of 1; its run id is printed at once.\<close>

fun submit_loop :: "(nat \<Rightarrow> time \<times> uuid \<times> uuid) \<Rightarrow> dict \<Rightarrow> nat \<Rightarrow> nat \<Rightarrow> db \<Rightarrow> db \<times> string list \<times> error option" where
  "submit_loop ids spec k 0 d = (d, [], None)"
| "submit_loop ids spec k (Suc n) d = (case ids k of (now, rid, tid) \<Rightarrow>
     (case submit_run now rid tid spec 1 d of
        Inl e \<Rightarrow> (d, [], Some e)
      | Inr (d1, r) \<Rightarrow> (case submit_loop ids spec (Suc k) n d1 of (d2, lines, e) \<Rightarrow> (d2, r # lines, e))))"

definition cmd_submit :: "cli_world \<Rightarrow> environ \<Rightarrow> int \<Rightarrow> money \<Rightarrow> int \<Rightarrow> db schema_state \<Rightarrow> cli_outcome" where
  "cmd_submit cw env steps step_delay count st = (case dsn_of env of
       Inl e \<Rightarrow> finish_with st [] (Uncaught e)
     | Inr _ \<Rightarrow> (case submit_loop (cw_ids cw) (toy_spec steps step_delay) 0 (nat count) (schema_db st) of (d, lines, e) \<Rightarrow>
         finish_with (st\<lparr>schema_db := d\<rparr>) lines (case e of None \<Rightarrow> Exit 0 | Some e \<Rightarrow> Uncaught e)))"

definition status_line :: "formats \<Rightarrow> uuid \<Rightarrow> db \<Rightarrow> string" where
  "status_line fm rid d = (case find_run rid d of
       None \<Rightarrow> ''not found''
     | Some r \<Rightarrow> status_text (r_status r) @ '' events='' @ str_nat (length (run_events d rid))
         @ '' spent='' @ fm_numeric fm 6 (r_spent_usd r))"

definition cmd_status :: "cli_world \<Rightarrow> environ \<Rightarrow> uuid \<Rightarrow> db schema_state \<Rightarrow> cli_outcome" where
  "cmd_status cw env rid st = (case dsn_of env of
       Inl e \<Rightarrow> finish_with st [] (Uncaught e)
     | Inr _ \<Rightarrow> finish_with st [status_line (cw_formats cw) rid (schema_db st)] (Exit 0))"

definition cmd_timeline :: "cli_world \<Rightarrow> environ \<Rightarrow> uuid \<Rightarrow> db schema_state \<Rightarrow> cli_outcome" where
  "cmd_timeline cw env rid st = (case bind_result (dsn_of env) (\<lambda>_. build_timeline (cw_formats cw) rid (schema_db st)) of
       Inl e \<Rightarrow> finish_with st [] (Uncaught e)
     | Inr t \<Rightarrow> finish_with st [t] (Exit 0))"

section \<open>chaos\<close>

definition chaos_config :: "chaos_args \<Rightarrow> string \<Rightarrow> ChaosConfig" where
  "chaos_config a dsn = \<lparr>cc_seed = ca_seed a, cc_runs = ca_runs a, cc_workers = ca_workers a, cc_lease_seconds = ca_lease a,
     cc_workload = ca_workload a, cc_faults = ca_faults a, cc_timeout_seconds = ca_timeout a,
     cc_unsafe_no_fencing = ca_unsafe_no_fencing a, cc_database_url = dsn\<rparr>"

text \<open>The database is migrated first; the scenario then runs on the migrated one.\<close>

definition cmd_chaos :: "cli_world \<Rightarrow> environ \<Rightarrow> chaos_args \<Rightarrow> db schema_state \<Rightarrow> cli_outcome" where
  "cmd_chaos cw env a st = (case dsn_of env of
       Inl e \<Rightarrow> finish_with st [] (Uncaught e)
     | Inr dsn \<Rightarrow> (case apply_migrations (cw_exec cw) (cw_migrations cw) st of
           (st', Inl e) \<Rightarrow> finish_with st' [] (Uncaught e)
         | (st', Inr _) \<Rightarrow> (case cw_chaos cw (chaos_config a dsn) (schema_db st') of
               Inl e \<Rightarrow> finish_with st' [] (Uncaught e)
             | Inr None \<Rightarrow> finish_with st' [] Still_running
             | Inr (Some out) \<Rightarrow> (case co_report out of
                   Inl e \<Rightarrow> finish_with st' [] (Uncaught e)
                 | Inr rep \<Rightarrow> finish_with st' [render (cw_host cw) rep] (Exit (if report_passed rep then 0 else 1))))))"

section \<open>eval\<close>

definition eval_args_of :: "eval_options_given \<Rightarrow> string \<Rightarrow> eval_args result" where
  "eval_args_of eo dsn =
     bind_result (py_Decimal_str (JStr (eo_budget eo))) (\<lambda>per_run.
     bind_result (py_Decimal_str (JStr (eo_max_total_usd eo))) (\<lambda>cap.
       Inr \<lparr>ea_real = eo_real eo, ea_workers = eo_workers eo, ea_per_run_usd = per_run, ea_cap_usd = cap,
            ea_timeout = eo_timeout eo, ea_only = eo_only eo, ea_suite = eo_suite eo, ea_database_url = dsn\<rparr>))"

definition incomplete_message :: "eval_summary \<Rightarrow> string" where
  "incomplete_message s = [CHR 0x0A] @ ''INCOMPLETE: '' @ str_nat (sm_unfinished s) @ '' of '' @ str_nat (sm_tasks s)
     @ '' tasks hit a timeout or a platform/provider error (e.g. a quota), so the pass rate above is NOT a result. ''
     @ ''Nothing was written to --out.''"

definition eval_done :: "cli_world \<Rightarrow> environ \<Rightarrow> eval_options_given \<Rightarrow> db schema_state \<Rightarrow> TaskResult list \<Rightarrow> cli_outcome" where
  "eval_done cw env eo st results = (case model_name env (eo_real eo) of
       Inl e \<Rightarrow> finish_with st [] (Uncaught e)
     | Inr model \<Rightarrow>
         (let summary = summarize (cw_round cw) results (if eo_real eo then ''real'' else ''mock'') model;
              printed = finish_with st [render_table (cw_num cw) results, [], cw_summary_text cw summary] (Exit (eval_exit_code summary))
          in if sm_unfinished summary \<noteq> 0 then printed\<lparr>cx_err := [incomplete_message summary]\<rparr>
             else printed\<lparr>cx_file := (case eo_out eo of
                 None \<Rightarrow> None | Some p \<Rightarrow> if p = [] then None else Some (p, cw_file_text cw summary results @ [CHR 0x0A]))\<rparr>))"

definition cmd_eval :: "cli_world \<Rightarrow> environ \<Rightarrow> eval_options_given \<Rightarrow> db schema_state \<Rightarrow> cli_outcome" where
  "cmd_eval cw env eo st = (case dsn_of env of
       Inl e \<Rightarrow> finish_with st [] (Uncaught e)
     | Inr dsn \<Rightarrow> (case apply_migrations (cw_exec cw) (cw_migrations cw) st of
           (st', Inl e) \<Rightarrow> finish_with st' [] (Uncaught e)
         | (st', Inr _) \<Rightarrow> (case eval_args_of eo dsn of
               Inl e \<Rightarrow> finish_with st' [] (Uncaught e)
             | Inr args \<Rightarrow> (case cw_evals cw env args (schema_db st') of
                   Refused msg \<Rightarrow> (finish_with st' [] (Exit 2))\<lparr>cx_err := [''eval refused: '' @ msg]\<rparr>
                 | Eval_raised e \<Rightarrow> finish_with st' [] (Uncaught e)
                 | Still_waiting \<Rightarrow> finish_with st' [] Still_running
                 | Eval_done (Inl e) _ \<Rightarrow> finish_with st' [] (Uncaught e)
                 | Eval_done (Inr results) _ \<Rightarrow> eval_done cw env eo st' results))))"

section \<open>worker, api\<close>

definition microseconds :: "money \<Rightarrow> time" where
  "microseconds s = round_half_even (s * 1000000)"

definition worker_context :: "(string \<Rightarrow> path) \<Rightarrow> environ \<Rightarrow> EngineContext" where
  "worker_context path_of env =
     \<lparr>ec_provider = None, ec_workspace_root = path_of (case env ''PHOENIX_WORKSPACE_ROOT'' of None \<Rightarrow> ''workspaces'' | Some p \<Rightarrow> p)\<rparr>"

text \<open>
  A worker only ends by an exception or by \<open>KeyboardInterrupt\<close>, which \<open>main\<close> swallows; the turns of the
  parameter are those before the interrupt.
\<close>

definition cmd_worker :: "cli_world \<Rightarrow> environ \<Rightarrow> string \<Rightarrow> money \<Rightarrow> db schema_state \<Rightarrow> cli_outcome" where
  "cmd_worker cw env wid lease st = (case dsn_of env of
       Inl e \<Rightarrow> finish_with st [] (Uncaught e)
     | Inr _ \<Rightarrow> (case cw_worker cw env
           \<lparr>wp_worker_id = wid, wp_lease = microseconds lease, wp_max_attempts = 5, wp_backoff = microseconds (1 / 2)\<rparr>
           (worker_context (cw_path cw) env) (schema_db st) of
         None \<Rightarrow> finish_with st [] Still_running
       | Some (Inl e) \<Rightarrow> finish_with st [] (Uncaught e)
       | Some (Inr (turns, w)) \<Rightarrow>
           (finish_with (st\<lparr>schema_db := w_db w\<rparr>) [] (Exit 0))\<lparr>cx_err := concat (map (turn_lines (cw_exc_repr cw)) turns)\<rparr>))"

definition cmd_serve :: "cli_world \<Rightarrow> environ \<Rightarrow> string \<Rightarrow> int \<Rightarrow> db schema_state \<Rightarrow> cli_outcome" where
  "cmd_serve cw env h port st = finish_with st [] (case cw_serve cw env h port of
       None \<Rightarrow> Still_running | Some (Inl e) \<Rightarrow> Uncaught e | Some (Inr _) \<Rightarrow> Exit 0)"

section \<open>main\<close>

definition run_command :: "cli_world \<Rightarrow> environ \<Rightarrow> command \<Rightarrow> db schema_state \<Rightarrow> cli_outcome" where
  "run_command cw env cmd st = (case cmd of
       Migrate \<Rightarrow> cmd_migrate cw env st
     | Submit steps step_delay count \<Rightarrow> cmd_submit cw env steps step_delay count st
     | Status rid \<Rightarrow> cmd_status cw env rid st
     | Serve h port \<Rightarrow> cmd_serve cw env h port st
     | Timeline_of rid \<Rightarrow> cmd_timeline cw env rid st
     | Eval_run eo \<Rightarrow> cmd_eval cw env eo st
     | Chaos_run a \<Rightarrow> cmd_chaos cw env a st
     | Work wid lease poll \<Rightarrow> cmd_worker cw env wid lease st)"

definition main :: "cli_world \<Rightarrow> string list \<Rightarrow> db schema_state \<Rightarrow> cli_outcome" where
  "main cw argv st = (case load_dotenv (cw_dotenv cw) (cw_environ cw) of
       (env, Inl e) \<Rightarrow> finish_with st [] (Uncaught e)
     | (env, Inr _) \<Rightarrow> (case parse_args (cw_read_uuid cw) (cw_pid cw) (cw_argparse cw) argv of
           Inl code \<Rightarrow> finish_with st [] (Exit code)
         | Inr cmd \<Rightarrow> run_command cw env cmd st))"

section \<open>Lemmas\<close>

lemma finish_with_fields [simp]:
  "cx_out (finish_with st out e) = out" "cx_err (finish_with st out e) = []" "cx_end (finish_with st out e) = e"
  "cx_file (finish_with st out e) = None" "cx_schema (finish_with st out e) = st"
  by (simp_all add: finish_with_def)

text \<open>An up-to-date schema: every migration has been applied.\<close>

definition migrated :: "cli_world \<Rightarrow> db schema_state \<Rightarrow> bool" where
  "migrated cw st \<longleftrightarrow> apply_migrations (cw_exec cw) (cw_migrations cw) st = (st, Inr [])"

text \<open>A command that \<open>main\<close> gets to run: the \<open>.env\<close> file loads and the line is read.\<close>

definition runs_command :: "cli_world \<Rightarrow> string list \<Rightarrow> environ \<Rightarrow> command \<Rightarrow> bool" where
  "runs_command cw argv env cmd \<longleftrightarrow> (\<exists>loaded. load_dotenv (cw_dotenv cw) (cw_environ cw) = (env, Inr loaded))
     \<and> parse_args (cw_read_uuid cw) (cw_pid cw) (cw_argparse cw) argv = Inr cmd"

lemma main_runs: "runs_command cw argv env cmd \<Longrightarrow> main cw argv st = run_command cw env cmd st"
  by (auto simp: runs_command_def main_def)

text \<open>After one \<open>migrate\<close> that succeeds, the schema is up to date: a second one prints that there is nothing to do.\<close>

lemma migrate_twice:
  assumes "cx_end (cmd_migrate cw env st) = Exit 0"
  shows "migrated cw (cx_schema (cmd_migrate cw env st))
    \<and> cx_out (cmd_migrate cw env (cx_schema (cmd_migrate cw env st))) = [''applied: nothing (up to date)'']"
proof -
  obtain st' r where m: "apply_migrations (cw_exec cw) (cw_migrations cw) st = (st', r)" by fastforce
  from assms obtain u applied where "dsn_of env = Inr u" "r = Inr applied"
    by (auto simp: cmd_migrate_def m split: sum.splits)
  with m migrations_applied_once [of "cw_exec cw" "cw_migrations cw" st st' applied] show ?thesis
    by (simp add: cmd_migrate_def migrated_def migrate_line_def)
qed

lemma submit_loop_ok:
  assumes "submit_loop ids spec k n d = (d', lines, e)"
  shows "distinct lines \<and> set lines \<inter> r_id ` set (runs d) = {} \<and> (e = None \<longrightarrow> length lines = n) \<and> length lines \<le> n
    \<and> events d' = events d
    \<and> (\<exists>new. runs d' = runs d @ new \<and> map r_id new = lines
        \<and> (\<forall>r \<in> set new. r_status r = Pending \<and> r_spent_usd r = 0 \<and> r_task_spec r = spec))"
  using assms
proof (induction n arbitrary: k d lines)
  case (Suc n)
  obtain now rid tid where k: "ids k = (now, rid, tid)" by (cases "ids k") auto
  show ?case
  proof (cases "submit_run now rid tid spec 1 d")
    case (Inl x)
    with Suc.prems show ?thesis by (auto simp: k)
  next
    case (Inr dr)
    obtain d1 r where s: "submit_run now rid tid spec 1 d = Inr (d1, r)" using Inr by (cases dr) auto
    obtain rest where rest: "submit_loop ids spec (Suc k) n d1 = (d', rest, e)" "lines = r # rest"
      using Suc.prems by (auto simp: k s split: prod.splits)
    from s obtain row where row: "runs d1 = runs d @ [row]" "r_id row = r" "r \<notin> r_id ` set (runs d)" "events d1 = events d"
      "r_status row = Pending" "r_spent_usd row = 0" "r_task_spec row = spec"
      by (rule submit_run_InrE) auto
    from Suc.IH [OF rest(1)] obtain new where IH: "distinct rest" "set rest \<inter> r_id ` set (runs d1) = {}"
      "e = None \<longrightarrow> length rest = n" "length rest \<le> n" "events d' = events d1" "runs d' = runs d1 @ new" "map r_id new = rest"
      "\<forall>r \<in> set new. r_status r = Pending \<and> r_spent_usd r = 0 \<and> r_task_spec r = spec" by auto
    show ?thesis
    proof (intro conjI exI [of _ "row # new"])
      show "distinct lines" using IH(1,2) row(1,2) rest(2) by auto
      show "set lines \<inter> r_id ` set (runs d) = {}" using IH(2) row(1,3) rest(2) by auto
    qed (use IH row rest(2) in auto)
  qed
qed simp


text \<open>
  C19. The chaos command is a test that a correct platform passes: run with fencing on, on an up-to-date
  schema that holds any reachable state, and with any line that asks for the configuration, it prints
  the report of the scenario and exits with 0 once the scenario ends before its timeout; the runs it
  submitted are then all terminal. (Costs have at most six decimals.)
\<close>

theorem chaos_command_passes:
  assumes "runs_command cw argv env (Chaos_run a)" and "dsn_of env = Inr dsn" and "migrated cw st" and "cfg = chaos_config a dsn"
    and "cw_chaos cw = (\<lambda>cfg d. run_chaos rg h dec_text cfg tmp ids started turns removable labelled stopped d_end d)"
    and "reachable cf s" and "sy_db s = schema_db st" and "fencing_enabled (cf_env cf)" and "rng_ok rg" and "0 \<le> ca_lease a"
    and "\<forall>spec \<in> set (fst (plan rg cfg)). cf_spec cf spec"
    and "submit_specs ids 0 (fst (plan rg cfg)) (schema_db st) = Inr (d1, run_ids)"
    and "db_path cf (s\<lparr>sy_db := d1\<rparr>) (map tn_db turns @ [d_end])"
    and "\<forall>r \<in> set run_ids. \<forall>e \<in> set (run_events d_end r). fits_scale 6 (cost_of (ev_payload e))"
    and "run_chaos rg h dec_text cfg tmp ids started turns removable labelled stopped d_end (schema_db st) = Inr (Some out)"
  shows "\<exists>rep. co_report out = Inr rep \<and> cx_out (main cw argv st) = [render (cw_host cw) rep]
    \<and> (\<not> cr_timed_out rep \<longrightarrow> cx_end (main cw argv st) = Exit 0
        \<and> (\<forall>x \<in> set (rows_of d_end run_ids). r_status x \<in> set TERMINAL)
        \<and> length (rows_of d_end run_ids) = nat (ca_runs a))"
proof -
  have lease: "0 \<le> cc_lease_seconds cfg" and runs: "cc_runs cfg = ca_runs a" using assms(4,10) by (simp_all add: chaos_config_def)
  from chaos_run_passes [OF assms(6,8,9) lease assms(11) _ assms(13,14)] assms(7,12,15)
  obtain rep where rep: "co_report out = Inr rep" "\<not> cr_timed_out rep \<longrightarrow> report_passed rep
      \<and> (\<forall>x \<in> set (rows_of d_end run_ids). r_status x \<in> set TERMINAL) \<and> length (rows_of d_end run_ids) = nat (cc_runs cfg)"
    by fastforce
  have "main cw argv st = finish_with st [render (cw_host cw) rep] (Exit (if report_passed rep then 0 else 1))"
    using main_runs [OF assms(1)] assms(2,3,4,5,15) rep(1) by (simp add: run_command_def cmd_chaos_def migrated_def)
  with rep runs show ?thesis by auto
qed

text \<open>
  The exit code of \<open>phoenix eval\<close> and what it writes are those of \<open>eval_command\<close>, so its verdicts are those
  shown there. The report is written only with a file name, and with exit code 0 only.
\<close>

theorem eval_main_agrees:
  assumes "runs_command cw argv env (Eval_run eo)" and "dsn_of env = Inr dsn" and "migrated cw st"
    and "eval_args_of eo dsn = Inr args" and "hs_environ (ew_host ew) = env"
    and "cw_evals cw = (\<lambda>env args d. run_evals ew args tmp tmp_path d)" and "eo_out eo = Some p" and "p \<noteq> []"
  shows "eval_command (cw_round cw) (cw_file_text cw) ew args True tmp tmp_path (schema_db st) = Some (Inr (code, content))
    \<longleftrightarrow> cx_end (main cw argv st) = Exit code
      \<and> cx_file (main cw argv st) = map_option (\<lambda>t. (p, t @ [CHR 0x0A])) content"
proof -
  have same: "ea_real args = eo_real eo" using assms(4) by (auto simp: eval_args_of_def bind_result_Inr_iff)
  have m: "main cw argv st = cmd_eval cw env eo st" using main_runs [OF assms(1)] by (simp add: run_command_def)
  note defs = m cmd_eval_def assms(2,4,6) assms(3) [unfolded migrated_def] eval_command_def
  show ?thesis
  proof (cases "run_evals ew args tmp tmp_path (schema_db st)")
    case (Eval_done r ij)
    then show ?thesis
      by (cases r; cases "model_name env (eo_real eo)"; cases content)
        (auto simp: defs eval_done_def same assms(5,7,8) Let_def eval_exit_code_def)
  qed (auto simp: defs)
qed

section \<open>Witnesses\<close>

definition demo_cli :: cli_world where
  "demo_cli = \<lparr>cw_dotenv = None, cw_environ = [''DATABASE_URL'' \<mapsto> ''db''], cw_pid = 1, cw_read_uuid = Some, cw_argparse = \<lambda>_. Inl 2,
     cw_exec = \<lambda>_. Inr, cw_migrations = [], cw_ids = \<lambda>_. (0, ''r'', ''t''), cw_formats = demo_formats, cw_host = demo_host,
     cw_path = \<lambda>p. [p],
     cw_chaos = \<lambda>cfg d. run_chaos demo_rng demo_host (\<lambda>_. ''0'') cfg ''tmp'' (\<lambda>_. (0, ''r'', ''t'')) 0
       [demo_turn 2 demo_finished] (\<lambda>_. True) (Some [''c'']) 3 demo_finished d,
     cw_evals = \<lambda>env args d. run_evals demo_world args ''tmp'' [] d, cw_round = \<lambda>_ q. q, cw_num = \<lambda>_. ''0'',
     cw_summary_text = \<lambda>_. ''{}'', cw_file_text = \<lambda>_ _. ''json'', cw_worker = \<lambda>_ _ _ _. None, cw_exc_repr = \<lambda>_. ''e'',
     cw_serve = \<lambda>_ _ _. None\<rparr>"

lemma demo_env: "load_dotenv (cw_dotenv demo_cli) (cw_environ demo_cli) = ([''DATABASE_URL'' \<mapsto> ''db''], Inr [])"
  by (simp add: demo_cli_def load_dotenv_def)

lemma demo_runs: "ordinary_command Some 1 argv = Read cmd \<Longrightarrow> runs_command demo_cli argv [''DATABASE_URL'' \<mapsto> ''db''] cmd"
  using demo_env by (auto simp: runs_command_def parse_args_def demo_cli_def)

abbreviation demo_schema :: "db schema_state" where
  "demo_schema \<equiv> \<lparr>schema_migrations = [], schema_db = empty_db\<rparr>"


text \<open>The configuration of the example in \<open>ChaosRun\<close>, asked for on a command line.\<close>

definition demo_chaos_args :: chaos_args where
  "demo_chaos_args = \<lparr>ca_seed = 7, ca_runs = 1, ca_workers = 2, ca_lease = 2, ca_workload = ''agent'', ca_faults = Some 2,
     ca_timeout = 300, ca_unsafe_no_fencing = False\<rparr>"

definition demo_chaos_line :: "string list" where
  "demo_chaos_line = [''chaos'', ''--seed'', ''7'', ''--runs'', ''1'', ''--workers'', ''2'', ''--workload'', ''agent'', ''--faults'', ''2'']"

theorem chaos_command_passes_witness:
  "cx_end (main demo_cli demo_chaos_line demo_schema) = Exit 0 \<and> length (rows_of demo_finished [''r'']) = 1"
proof -
  let ?env = "[''DATABASE_URL'' \<mapsto> ''db'']"
  have line: "runs_command demo_cli demo_chaos_line ?env (Chaos_run demo_chaos_args)"
    by (rule demo_runs) code_simp
  obtain out rep where out: "demo_chaos = Inr (Some out)" "co_report out = Inr rep" "\<not> cr_timed_out rep"
    by (rule demo_chaos_report)
  have init: "reachable demo_config init_sys" "sy_db init_sys = empty_db" by (simp_all add: reachable_def init_sys_def)
  have path: "db_path demo_config (init_sys\<lparr>sy_db := demo_submitted\<rparr>) (map tn_db [demo_turn 2 demo_finished] @ [demo_finished])"
    using path_read [OF demo_finishes path_read [OF rtranclp.rtrancl_refl path_end]]
    by (simp add: init_sys_def demo_turn_def demo_facts)
  have cfg: "demo_cfg = chaos_config demo_chaos_args ''db''" by (simp add: demo_cfg_def chaos_config_def demo_chaos_args_def)
  have up: "migrated demo_cli demo_schema" by (simp add: migrated_def apply_migrations_def demo_cli_def)
  have dsn: "dsn_of ?env = Inr ''db''" by (simp add: dsn_of_def)
  have db: "sy_db init_sys = schema_db demo_schema" using init(2) by simp
  have chaos: "cw_chaos demo_cli = (\<lambda>cfg d. run_chaos demo_rng demo_host (\<lambda>_. ''0'') cfg ''tmp'' (\<lambda>_. (0, ''r'', ''t'')) 0
       [demo_turn 2 demo_finished] (\<lambda>_. True) (Some [''c'']) 3 demo_finished d)" by (simp add: demo_cli_def)
  have subs: "submit_specs (\<lambda>_. (0, ''r'', ''t'')) 0 (fst (plan demo_rng demo_cfg)) (schema_db demo_schema) = Inr (demo_submitted, [''r''])"
    using demo_chaos_submits by simp
  have ran: "run_chaos demo_rng demo_host (\<lambda>_. ''0'') demo_cfg ''tmp'' (\<lambda>_. (0, ''r'', ''t'')) 0
     [demo_turn 2 demo_finished] (\<lambda>_. True) (Some [''c'']) 3 demo_finished (schema_db demo_schema) = Inr (Some out)"
    using out(1) by simp
  have lease: "0 \<le> ca_lease demo_chaos_args" by (simp add: demo_chaos_args_def)
  have specs: "\<forall>spec \<in> set (fst (plan demo_rng demo_cfg)). cf_spec demo_config spec" by (simp add: demo_config_def)
  from chaos_command_passes [OF line dsn up cfg chaos init(1) db demo_facts(1) demo_rng_ok lease specs subs path demo_costs ran]
    out(2,3) show ?thesis by (auto simp: demo_chaos_args_def)
qed

end
