(* ===== verification/Bench.thy ===== *)
theory Bench
  imports Cli Billing
begin

text \<open>
  The benchmark scripts (\<open>bench/\<close>): the percentile, the recovery trial, the aggregation over chaos seeds,
  the sandbox timing, the demo and the eval script. What they wait for and measure is given: the databases
  their queries read one after the other, clock readings, and the text JSON is written as.
\<close>

section \<open>common.py\<close>

text \<open>\<open>sys.exit\<close> with a message is an error here; \<open>load_dotenv\<close> fills the environment first.\<close>

definition database_url :: "string option \<Rightarrow> environ \<Rightarrow> string result" where
  "database_url dotenv env = (case load_dotenv dotenv env of
       (env', Inl e) \<Rightarrow> Inl e
     | (env', Inr _) \<Rightarrow> (case env' ''DATABASE_URL'' of
           Some url \<Rightarrow> if url = [] then Inl (RuntimeError ''set DATABASE_URL (see .env.example)'') else Inr url
         | None \<Rightarrow> Inl (RuntimeError ''set DATABASE_URL (see .env.example)'')))"

text \<open>The saved file: its name, and the text that is also printed.\<close>

definition save_result :: "(json \<Rightarrow> string) \<Rightarrow> dict \<Rightarrow> string \<Rightarrow> dict \<Rightarrow> string \<times> string" where
  "save_result dumps environment name data =
     (name @ ''.json'', dumps (JObj (foldl (\<lambda>d (k, v). AList.update k v d) [(''environment'', JObj environment)] data)) @ [CHR 0x0A])"

definition percentile :: "money list \<Rightarrow> money \<Rightarrow> money result" where
  "percentile values q =
     (let n = int (length values);
          idx = max 0 (min (n - 1) (round_half_even (q * of_int n + 1 / 2) - 1))
      in if values = [] then Inl IndexError else Inr (values ! nat idx))"

definition round_to :: "nat \<Rightarrow> money \<Rightarrow> money" where
  "round_to k q = of_int (round_half_even (q * 10 ^ k)) / 10 ^ k"

section \<open>recovery\_bench.py\<close>

definition LEASE :: money where "LEASE = 2"
definition STEPS :: nat where "STEPS = 20"

text \<open>
  Polling: the first reading that satisfies the condition, and the readings after it. \<open>None\<close>: still
  waiting when the readings are used up.
\<close>

fun poll_until :: "('r \<Rightarrow> bool) \<Rightarrow> 'r list \<Rightarrow> ('r \<times> 'r list) option" where
  "poll_until p [] = None"
| "poll_until p (r # rs) = (if p r then Some (r, rs) else poll_until p rs)"

text \<open>Waiting for the end of the run: a reading is the clock and the database; past the deadline it raises.\<close>

fun await_success :: "money \<Rightarrow> uuid \<Rightarrow> (money \<times> db) list \<Rightarrow> unit result option" where
  "await_success deadline rid [] = None"
| "await_success deadline rid ((now, d) # readings) =
     (if map_option r_status (find_run rid d) = Some Succeeded then Some (Inr ())
      else if deadline < now then Some (Inl (RuntimeError ''run did not finish within 60s of the kill''))
      else await_success deadline rid readings)"

definition commit_times :: "db \<Rightarrow> uuid \<Rightarrow> int \<Rightarrow> time list" where
  "commit_times d rid attempt =
     map er_created_at (filter (\<lambda>e. ev_run_id (er_event e) = rid \<and> meta_attempt (ev_payload (er_event e)) = attempt) (events d))"

text \<open>The first commit of attempt 2 minus the last of attempt 1, in seconds; NULL when one has none.\<close>

definition recovery_gap :: "db \<Rightarrow> uuid \<Rightarrow> money option" where
  "recovery_gap d rid = (let first = commit_times d rid 1; second = commit_times d rid 2 in
     if first = [] \<or> second = [] then None else Some (of_int (Min (set second) - Max (set first)) / 1000000))"

record trial_world =
  tw_ids :: "time \<times> uuid \<times> uuid"
  tw_progress :: "db list"
  tw_holder :: db
  tw_killed_at :: money
  tw_finish :: "(money \<times> db) list"
  tw_end :: db

text \<open>
  \<open>one_trial\<close> with the injector it leaves: \<open>next\<close> on an exhausted generator and \<open>float(None)\<close> raise.
  The shutdown of the \<open>finally\<close> block runs on every way out.
\<close>

definition trial_body :: "trial_world \<Rightarrow> Injector \<Rightarrow> db \<Rightarrow> (Injector \<times> (money \<times> bool) result) option" where
  "trial_body tw ij d = (case tw_ids tw of (now, rid0, tid) \<Rightarrow>
     (case submit_run now rid0 tid (toy_spec (int STEPS) (1 / 5)) 1 d of
        Inl e \<Rightarrow> Some (ij, Inl e)
      | Inr (_, rid) \<Rightarrow>
          if poll_until (\<lambda>d. 5 \<le> length (run_events d rid)) (tw_progress tw) = None then None
          else (let holder = Option.bind (List.find (\<lambda>t. t_run_id t = rid) (tasks (tw_holder tw))) t_lease_owner in
            case List.find (\<lambda>w. Some (wk_name w) = holder) (ij_workers ij) of
              None \<Rightarrow> Some (ij, Inl (RuntimeError ''coroutine raised StopIteration''))
            | Some victim \<Rightarrow>
                (let ij1 = kill victim ij in
                 case await_success (tw_killed_at tw + 60) rid (tw_finish tw) of
                   None \<Rightarrow> None
                 | Some (Inl e) \<Rightarrow> Some (ij1, Inl e)
                 | Some (Inr _) \<Rightarrow> Some (ij1, case recovery_gap (tw_end tw) rid of
                       None \<Rightarrow> Inl TypeError
                     | Some gap \<Rightarrow> Inr (gap, ir_passed (log_integrity (tw_end tw) [rid])
                         \<and> length (run_events (tw_end tw) rid) = STEPS))))))"

definition one_trial :: "host \<Rightarrow> string \<Rightarrow> string \<Rightarrow> trial_world \<Rightarrow> db \<Rightarrow> (string \<Rightarrow> bool) \<Rightarrow> string list option \<Rightarrow>
    (Injector \<times> (money \<times> bool) result) option" where
  "one_trial h dsn tmp tw d removable labelled =
     map_option (\<lambda>(ij, r). (fst (shutdown removable labelled ij), r))
       (trial_body tw (spawn_worker h (spawn_worker h (new_injector dsn (tmp @ ''/logs'') LEASE (tmp @ ''/ws'') False False))) d)"

text \<open>The result of all trials; \<open>gaps[0]\<close> raises when there were none.\<close>

definition recovery_result :: "(money \<times> bool) list \<Rightarrow> dict result" where
  "recovery_result results =
     (let gaps = sort (map fst results) in
      if gaps = [] then Inl IndexError
      else bind_result (percentile gaps (95 / 100)) (\<lambda>p95. Inr
        [(''config'', JObj [(''lease_seconds'', JFloat LEASE), (''steps'', JInt (int STEPS)),
            (''trials'', JInt (int (length results))), (''workers'', JInt 2)]),
         (''all_clean'', JBool (list_all snd results)),
         (''recovery_gap_s'', JObj [(''min'', JFloat (round_to 2 (hd gaps))), (''median'', JFloat (round_to 2 (median gaps))),
            (''p95'', JFloat (round_to 2 p95)), (''max'', JFloat (round_to 2 (last gaps)))]),
         (''trials_detail'', JList (map (JFloat \<circ> round_to 2) gaps))]))"

section \<open>chaos\_bench.py\<close>

definition call_count :: "db \<Rightarrow> uuid list \<Rightarrow> nat" where
  "call_count d run_ids = length (calls_of d run_ids)"

definition distinct_call_count :: "db \<Rightarrow> uuid list \<Rightarrow> nat" where
  "distinct_call_count d run_ids = card (set (map (\<lambda>k. (pc_run_id k, pc_step_index k)) (calls_of d run_ids)))"

record seed_row =
  se_seed :: int
  se_passed :: bool
  se_duration_s :: money
  se_statuses :: "(string \<times> nat) list"
  se_faults_scheduled :: nat
  se_faults_hit :: nat
  se_kill_9 :: nat
  se_suspend :: nat
  se_docker_kill :: nat
  se_takeovers :: nat
  se_provider_calls :: int
  se_duplicate_llm_calls :: int
  se_invariants :: "(string \<times> bool) list"

definition seed_row_of :: "int \<Rightarrow> ChaosReport \<Rightarrow> db \<Rightarrow> seed_row" where
  "seed_row_of seed rep d =
     \<lparr>se_seed = seed, se_passed = report_passed rep, se_duration_s = round_to 1 (cr_duration_s rep), se_statuses = cr_statuses rep,
      se_faults_scheduled = length (cr_schedule rep), se_faults_hit = cr_fired rep,
      se_kill_9 = count_where (contains ''kill -9'') (cr_applied rep),
      se_suspend = count_where (contains '' suspend '') (cr_applied rep),
      se_docker_kill = count_where (contains ''docker kill phoenix-sbx'') (cr_applied rep),
      se_takeovers = cr_takeovers rep, se_provider_calls = int (call_count d (cr_run_ids rep)),
      se_duplicate_llm_calls = int (call_count d (cr_run_ids rep)) - int (distinct_call_count d (cr_run_ids rep)),
      se_invariants = map (\<lambda>i. (ir_name i, ir_passed i)) (cr_invariants rep)\<rparr>"

definition seed_line :: "seed_row \<Rightarrow> string" where
  "seed_line s = ''seed '' @ str_int (se_seed s) @ '': '' @ (if se_passed s then ''PASS'' else ''FAIL'')"

text \<open>One scenario per seed, with the defaults of the other settings; a scenario that raises ends the script.\<close>

definition bench_config :: "int \<Rightarrow> int \<Rightarrow> string \<Rightarrow> ChaosConfig" where
  "bench_config seed n_runs dsn = \<lparr>cc_seed = seed, cc_runs = n_runs, cc_workers = 3, cc_lease_seconds = 2, cc_workload = ''mixed'',
     cc_faults = None, cc_timeout_seconds = 300, cc_unsafe_no_fencing = False, cc_database_url = dsn\<rparr>"

definition bench_seeds :: "(ChaosConfig \<Rightarrow> (ChaosReport \<times> db) result) \<Rightarrow> int \<Rightarrow> string \<Rightarrow> int list \<Rightarrow> seed_row list result" where
  "bench_seeds scenario n_runs dsn seeds =
     map_result (\<lambda>seed. bind_result (scenario (bench_config seed n_runs dsn)) (\<lambda>(rep, d). Inr (seed_row_of seed rep d))) seeds"

definition chaos_result :: "(seed_row \<Rightarrow> json) \<Rightarrow> int list \<Rightarrow> int \<Rightarrow> seed_row list \<Rightarrow> dict" where
  "chaos_result row_json seeds n_runs per_seed =
     [(''config'', JObj [(''seeds'', JList (map JInt seeds)), (''runs_per_seed'', JInt n_runs), (''workload'', JStr ''mixed''), (''workers'', JInt 3)]),
      (''seeds_passed'', JInt (int (count_where se_passed per_seed))),
      (''total_runs'', JInt (n_runs * int (length seeds))),
      (''faults_hit'', JInt (\<Sum>s\<leftarrow>per_seed. int (se_faults_hit s))),
      (''kill_9'', JInt (\<Sum>s\<leftarrow>per_seed. int (se_kill_9 s))),
      (''suspend'', JInt (\<Sum>s\<leftarrow>per_seed. int (se_suspend s))),
      (''docker_kill'', JInt (\<Sum>s\<leftarrow>per_seed. int (se_docker_kill s))),
      (''takeovers'', JInt (\<Sum>s\<leftarrow>per_seed. int (se_takeovers s))),
      (''provider_calls'', JInt (\<Sum>s\<leftarrow>per_seed. se_provider_calls s)),
      (''duplicate_llm_calls'', JInt (\<Sum>s\<leftarrow>per_seed. se_duplicate_llm_calls s)),
      (''per_seed'', JList (map row_json per_seed))]"

section \<open>sandbox\_bench.py\<close>

text \<open>The measured runs: the wall time in milliseconds and the result; the assertion ends the script.\<close>

fun timed_runs :: "(money \<times> SandboxResult) list \<Rightarrow> (money list \<times> money list) result" where
  "timed_runs [] = Inr ([], [])"
| "timed_runs ((wall_ms, res) # rest) =
     (if sr_exit_code res \<noteq> 0 \<or> py_strip (sr_stdout res) \<noteq> ''1'' then Inl (RuntimeError ''AssertionError'')
      else bind_result (timed_runs rest) (\<lambda>(wall, inner). Inr (wall_ms # wall, of_int (sr_duration_ms res) # inner)))"

definition sandbox_result :: "(money \<times> SandboxResult) list \<Rightarrow> dict result" where
  "sandbox_result measured =
     bind_result (timed_runs measured) (\<lambda>(ws, ins).
       let wall = sort ws; inner = sort ins; ms = \<lambda>q. JInt (round_half_even q) in
       if wall = [] then Inl (RuntimeError ''no median for empty data'')
       else bind_result (percentile wall (95 / 100)) (\<lambda>p. bind_result (percentile inner (95 / 100)) (\<lambda>p'. Inr
         [(''config'', JObj [(''trials'', JInt (int (length measured))), (''image'', JStr (sp_image default_policy)),
             (''command'', JStr ''python main.py'')]),
          (''wall_ms'', JObj [(''median'', ms (median wall)), (''p95'', ms p), (''max'', ms (last wall))]),
          (''container_start_to_exit_ms'', JObj [(''median'', ms (median inner)), (''p95'', ms p')])])))"

section \<open>demo.py\<close>

text \<open>The tasks some worker holds with two or more steps committed; the loop waits for one.\<close>

definition held_tasks :: "db \<Rightarrow> uuid list \<Rightarrow> task_row list" where
  "held_tasks d run_ids =
     filter (\<lambda>t. t_status t = Leased \<and> t_run_id t \<in> set run_ids \<and> 2 \<le> length (run_events d (t_run_id t))) (tasks d)"

text \<open>
  Waiting for the end or the deadline: the rows of the last query, which are undefined before the first.
\<close>

fun last_rows :: "money \<Rightarrow> uuid list \<Rightarrow> run_row list result \<Rightarrow> (money \<times> db) list \<Rightarrow> run_row list result option" where
  "last_rows deadline run_ids rows [] = None"
| "last_rows deadline run_ids rows ((now, d) # readings) =
     (if \<not> now < deadline then Some rows
      else if \<forall>r \<in> set (rows_of d run_ids). r_status r \<in> set TERMINAL then Some (Inr (rows_of d run_ids))
      else last_rows deadline run_ids (Inr (rows_of d run_ids)) readings)"

definition taken_runs :: "db \<Rightarrow> uuid list \<Rightarrow> uuid list" where
  "taken_runs d run_ids = map t_run_id (filter (\<lambda>t. t_run_id t \<in> set run_ids \<and> 1 < t_attempt t) (tasks d))"

definition demo_lines :: "string \<Rightarrow> run_row list \<Rightarrow> (uuid \<Rightarrow> string result) \<Rightarrow> db \<Rightarrow> uuid list \<Rightarrow> string list result" where
  "demo_lines victim rows timeline d run_ids =
     (let taken = taken_runs d run_ids;
          calls = int (call_count d run_ids); distinct_calls = int (distinct_call_count d run_ids)
      in bind_result (case taken of [] \<Rightarrow> Inr [] | r # _ \<Rightarrow>
             bind_result (timeline r) (\<lambda>t. Inr [[CHR 0x0A] @ t @ [CHR 0x0A]])) (\<lambda>shown. Inr
        ([''1. starting 2 workers, submitting 10 runs'',
          ''2. kill -9 '' @ victim @ '' while it holds a lease'',
          ''   runs: '' @ str_nat (count_where (\<lambda>r. r_status r = Succeeded) rows) @ ''/10 succeeded'',
          ''   runs that needed a takeover: '' @ str_nat (length taken)] @ shown
         @ [''3. LLM calls: '' @ str_int calls @ '', distinct (run, step): '' @ str_int distinct_calls
            @ '', repeated: '' @ str_int (calls - distinct_calls)])))"

text \<open>
  The whole demo: two workers, ten submissions, the wait for a worker mid-run, its kill, a replacement, the
  wait for the end, and the lines. \<open>None\<close>: still waiting.
\<close>

record demo_input =
  dw_ids :: "nat \<Rightarrow> time \<times> uuid \<times> uuid"
  dw_progress :: "db list"
  dw_killed_at :: money
  dw_finish :: "(money \<times> db) list"
  dw_end :: db

definition DEMO_SPEC :: dict where
  "DEMO_SPEC = [(''kind'', JStr ''agent''), (''prompt'', JStr ''print hello''), (''mock_scenario'', JStr ''fail_twice_then_fix'')]"

definition demo_main :: "host \<Rightarrow> string \<Rightarrow> string \<Rightarrow> demo_input \<Rightarrow> (uuid \<Rightarrow> string result) \<Rightarrow> db \<Rightarrow> (Injector \<times> string list result) option" where
  "demo_main h dsn tmp dw timeline d =
     (let ij = spawn_worker h (spawn_worker h (new_injector dsn (tmp @ ''/logs'') 2 (tmp @ ''/ws'') False False)) in
      case submit_specs (dw_ids dw) 0 (replicate 10 DEMO_SPEC) d of
        Inl e \<Rightarrow> Some (ij, Inl e)
      | Inr (_, run_ids) \<Rightarrow> (case poll_until (\<lambda>d. held_tasks d run_ids \<noteq> []) (dw_progress dw) of
          None \<Rightarrow> None
        | Some (d1, _) \<Rightarrow> (case List.find (\<lambda>w. Some (wk_name w) = t_lease_owner (hd (held_tasks d1 run_ids))) (ij_workers ij) of
              None \<Rightarrow> Some (ij, Inl (RuntimeError ''coroutine raised StopIteration''))
            | Some victim \<Rightarrow>
                (let ij1 = spawn_worker h (kill victim ij) in
                 map_option (\<lambda>rows. (ij1, bind_result rows (\<lambda>rows.
                     demo_lines (wk_name victim) rows timeline (dw_end dw) run_ids)))
                   (last_rows (dw_killed_at dw + 120) run_ids (Inl (RuntimeError ''NameError'')) (dw_finish dw))))))"

section \<open>eval\_bench.py\<close>

fun index_of :: "'a \<Rightarrow> 'a list \<Rightarrow> nat" where
  "index_of x [] = 0"
| "index_of x (y # ys) = (if x = y then 0 else Suc (index_of x ys))"

definition eval_result_name :: "string list \<Rightarrow> string result" where
  "eval_result_name args =
     bind_result (if ''--suite'' \<in> set args
                  then (let i = Suc (index_of ''--suite'' args) in if i < length args then Inr (args ! i) else Inl IndexError)
                  else Inr ''standard'') (\<lambda>suite.
       Inr (''eval-'' @ (if ''--real'' \<in> set args then ''gemini'' else ''mock'')
         @ (if suite = ''standard'' then [] else ''-'' @ suite)))"

definition eval_bench_line :: "string \<Rightarrow> string list \<Rightarrow> string list result" where
  "eval_bench_line results args =
     bind_result (eval_result_name args) (\<lambda>name. Inr ([''eval'', ''--out'', results @ ''/'' @ name @ ''.json''] @ args))"

section \<open>Lemmas\<close>

lemma round_up_half:
  "round_half_even (x + 1 / 2) = (if x = of_int \<lfloor>x\<rfloor> \<and> odd \<lfloor>x\<rfloor> then \<lceil>x\<rceil> + 1 else \<lceil>x\<rceil>)"
proof (cases "x = of_int \<lfloor>x\<rfloor>")
  case True
  then obtain k where k: "x = of_int k" by blast
  have "\<lfloor>of_int k + 1 / (2 :: rat)\<rfloor> = k" by (intro floor_unique) simp_all
  then show ?thesis by (simp add: k round_half_even_def Let_def)
next
  case False
  have c: "\<lceil>x\<rceil> = \<lfloor>x\<rfloor> + 1" using False by (metis ceiling_altdef)
  have f: "of_int \<lfloor>x\<rfloor> < x" "x < of_int \<lfloor>x\<rfloor> + 1"
    using False of_int_floor_le [of x] floor_less_iff [of x "\<lfloor>x\<rfloor> + 1"] by (auto simp: less_le)
  show ?thesis
  proof (cases "x - of_int \<lfloor>x\<rfloor> < 1 / 2")
    case True
    have "\<lfloor>x + 1 / 2\<rfloor> = \<lfloor>x\<rfloor>" using f True by (intro floor_unique) auto
    with f True False c show ?thesis by (simp add: round_half_even_def Let_def)
  next
    case high: False
    have "\<lfloor>x + 1 / 2\<rfloor> = \<lfloor>x\<rfloor> + 1" using f high by (intro floor_unique) auto
    with f high False c show ?thesis by (simp add: round_half_even_def Let_def)
  qed
qed



text \<open>The default of 20 sandbox trials: the reported 95th percentile is the maximum.\<close>

lemma p95_of_twenty:
  assumes "length xs = 20"
  shows "percentile xs (95 / 100) = Inr (last xs)"
proof -
  have "xs \<noteq> []" using assms by auto
  moreover have "\<lfloor>39 / 2 :: rat\<rfloor> = 19" by (intro floor_unique) simp_all
  ultimately show ?thesis using assms
    by (simp add: percentile_def Let_def round_half_even_def last_conv_nth)
qed

text \<open>
  The duplicate LLM calls the chaos benchmark reports are never negative on a platform, and they are zero
  unless a later attempt called again for a step: no first attempt pays twice.
\<close>

theorem duplicates_are_retries:
  assumes "reachable cf s"
  shows "distinct_call_count (sy_db s) run_ids \<le> call_count (sy_db s) run_ids
    \<and> ((\<forall>k \<in> set (calls_of (sy_db s) run_ids). pc_attempt k = 1)
        \<longrightarrow> se_duplicate_llm_calls (seed_row_of seed (rep\<lparr>cr_run_ids := run_ids\<rparr>) (sy_db s)) = 0)"
proof -
  let ?calls = "calls_of (sy_db s) run_ids" and ?key = "\<lambda>k. (pc_run_id k, pc_step_index k)"
  have "distinct (map call_key ?calls)"
    using reachable_calls_distinct [OF assms] by (simp add: calls_of_def distinct_map_filter)
  then have "(\<forall>k \<in> set ?calls. pc_attempt k = 1) \<Longrightarrow> distinct (map ?key ?calls)"
    by (auto simp: distinct_map inj_on_def call_key_def)
  then have "(\<forall>k \<in> set ?calls. pc_attempt k = 1) \<Longrightarrow> distinct_call_count (sy_db s) run_ids = call_count (sy_db s) run_ids"
    unfolding distinct_call_count_def call_count_def by (metis distinct_card length_map)
  moreover have "distinct_call_count (sy_db s) run_ids \<le> call_count (sy_db s) run_ids"
    unfolding distinct_call_count_def call_count_def by (metis card_length length_map)
  ultimately show ?thesis by (simp add: seed_row_of_def)
qed

text \<open>A finished recovery trial on the fenced platform is reported clean exactly if its log has all its steps.\<close>

lemma trial_clean:
  assumes "reachable cf s" and "fencing_enabled (cf_env cf)" and "tw_end tw = sy_db s" and "trial_body tw ij d = Some (ij', Inr (gap, clean))"
  shows "\<exists>rid. recovery_gap (sy_db s) rid = Some gap \<and> (clean \<longleftrightarrow> length (run_events (sy_db s) rid) = STEPS)"
proof -
  have "ir_passed (log_integrity (sy_db s) [rid])" for rid
    using reachable_writers_ok [OF assms(1,2)] reachable_db_core [OF assms(1)]
    by (simp add: log_integrity_passes_iff reachable_read [OF assms(1)] db_core_def)
  with assms(3,4) show ?thesis
    by (auto simp: trial_body_def Let_def split: prod.splits sum.splits option.splits if_splits)
qed

text \<open>
  The file a line of the eval script saves to, and the command it runs. Only \<open>--suite NAME\<close> as two words
  counts for the name: \<open>--suite=challenge\<close> runs the challenge suite and saves it as the standard one's result.
\<close>

lemma eval_bench_names:
  "eval_result_name [] = Inr ''eval-mock''" "eval_result_name [''--suite'', ''challenge''] = Inr ''eval-mock-challenge''"
  "eval_result_name [''--real'', ''--workers'', ''1''] = Inr ''eval-gemini''" "eval_result_name [''--suite''] = Inl IndexError"
  "eval_result_name [''--suite=challenge''] = Inr ''eval-mock''"
  by code_simp+

lemma eval_bench_command:
  "bind_result (eval_bench_line ''results'' [''--suite'', ''challenge'']) (\<lambda>line. Inr (ordinary_command Some 1 line))
    = Inr (Read (Eval_run \<lparr>eo_real = False, eo_workers = 3, eo_budget = ''0.05'', eo_max_total_usd = ''1.00'',
        eo_suite = ''challenge'', eo_timeout = 900, eo_only = None, eo_out = Some ''results/eval-mock-challenge.json''\<rparr>))"
  by code_simp

end
