(* ===== verification/Pacing.thy ===== *)
theory Pacing
  imports Providers
begin

text \<open>
  What the two adapters send besides the conversation (\<open>llm/anthropic.py\<close>, \<open>llm/openai_compat.py\<close>): the
  tools the model is offered, and when: the pacing of requests.
\<close>

section \<open>Tools\<close>

definition tool_spec :: "string \<Rightarrow> string \<Rightarrow> string list \<Rightarrow> dict" where
  "tool_spec name descr args =
     [(''name'', JStr name), (''description'', JStr descr),
      (''input_schema'', JObj [(''type'', JStr ''object''),
         (''properties'', JObj (map (\<lambda>a. (a, JObj [(''type'', JStr ''string'')])) args)),
         (''required'', JList (map JStr args))])]"

definition TOOL_SPECS :: "dict list" where
  "TOOL_SPECS =
     [tool_spec ''write_file'' ''Create or overwrite a file in the workspace.'' [''path'', ''content''],
      tool_spec ''run_code'' ''Run a Python file from the workspace in the sandbox.'' [''path''],
      tool_spec ''finish'' ''Declare the task complete.'' [''summary'']]"

text \<open>The same tools in the other notation; \<open>t[k]\<close> of a missing key would raise.\<close>

definition openai_tool :: "dict \<Rightarrow> dict result" where
  "openai_tool t =
     bind_result (dict_item t ''name'') (\<lambda>n. bind_result (dict_item t ''description'') (\<lambda>descr.
     bind_result (dict_item t ''input_schema'') (\<lambda>schema.
       Inr [(''type'', JStr ''function''),
            (''function'', JObj [(''name'', n), (''description'', descr), (''parameters'', schema)])])))"

definition TOOLS :: "dict list result" where
  "TOOLS = map_result openai_tool TOOL_SPECS"

section \<open>Pacing\<close>

text \<open>
  \<open>_pace\<close> under its lock: \<open>now\<close> and \<open>after\<close> are the two readings of the monotonic clock. The result is
  the sleep in between and the new \<open>_next_ok\<close>.
\<close>

definition pace :: "money \<Rightarrow> money \<Rightarrow> money \<Rightarrow> money \<Rightarrow> money option \<times> money" where
  "pace min_interval next_ok now after =
     (if min_interval \<le> 0 then (None, next_ok)
      else (let wait = next_ok - now in (if wait > 0 then Some wait else None, after + min_interval)))"

text \<open>The lock admits the calls one after the other; a request leaves when its call returns.\<close>

fun released :: "money \<Rightarrow> money \<Rightarrow> (money \<times> money) list \<Rightarrow> money list" where
  "released min_interval next_ok [] = []"
| "released min_interval next_ok ((now, after) # calls) =
     after # released min_interval (snd (pace min_interval next_ok now after)) calls"

text \<open>The clock does not run backwards, and a sleep lasts at least as long as asked.\<close>

fun clock_ok :: "money \<Rightarrow> money \<Rightarrow> (money \<times> money) list \<Rightarrow> bool" where
  "clock_ok min_interval next_ok [] = True"
| "clock_ok min_interval next_ok ((now, after) # calls) =
     (case pace min_interval next_ok now after of (wait, next_ok') \<Rightarrow>
        now + (case wait of None \<Rightarrow> 0 | Some s \<Rightarrow> s) \<le> after \<and> clock_ok min_interval next_ok' calls)"

section \<open>Lemmas\<close>

text \<open>Every tool offered to a model is one the agent has, in both notations.\<close>

lemma offered_tools:
  "map (\<lambda>t. map_of t ''name'') TOOL_SPECS = [Some (JStr ''write_file''), Some (JStr ''run_code''), Some (JStr ''finish'')]"
  "\<exists>ts. TOOLS = Inr ts \<and> length ts = 3"
  by (simp_all add: TOOL_SPECS_def tool_spec_def TOOLS_def openai_tool_def dict_item_def)

lemma released_spaced:
  "0 < m \<Longrightarrow> clock_ok m next calls \<Longrightarrow> sorted_wrt (\<lambda>a b. a + m \<le> b) (released m next calls) \<and> (\<forall>x \<in> set (released m next calls). next \<le> x)"
proof (induction calls arbitrary: "next")
  case (Cons c calls)
  obtain now after where c: "c = (now, after)" by fastforce
  have "next \<le> after" using Cons.prems by (auto simp: c pace_def Let_def split: if_splits)
  moreover from Cons have "sorted_wrt (\<lambda>a b. a + m \<le> b) (released m (after + m) calls) \<and> (\<forall>x \<in> set (released m (after + m) calls). after + m \<le> x)"
    by (simp add: c pace_def Let_def)
  ultimately show ?case using Cons.prems(1) by (force simp: c pace_def Let_def)
qed simp

lemma spaced_span:
  "0 < (m :: money) \<Longrightarrow> sorted_wrt (\<lambda>a b. a + m \<le> b) (x # xs) \<Longrightarrow> of_nat (length xs) * m \<le> last (x # xs) - x"
proof (induction xs arbitrary: x)
  case (Cons y xs)
  from Cons.prems have "x + m \<le> y" by simp
  with Cons.IH [of y] Cons.prems show ?case by (auto simp: algebra_simps)
qed simp



end
