(* ===== verification/Evaluate.thy ===== *)
theory Evaluate
  imports Text
begin

text \<open>
  Task 12 of the eval suite (\<open>evals/tasks/12_evaluate_expression\<close>): the recursive-descent evaluator of
  the reference solution, the wrong one without precedence, and what the first computes. Arithmetic on
  floats is a parameter: a record of the operations the code uses.
\<close>

section \<open>Tokens\<close>

text \<open>\<open>re.findall(r"\d+\.?\d*|[-+*/()]", expr)\<close>: everything else is skipped.\<close>

definition number_token :: "string \<Rightarrow> string" where
  "number_token s = takeWhile is_digit s @
     (case dropWhile is_digit s of c # r \<Rightarrow> if c = CHR ''.'' then c # takeWhile is_digit r else [] | [] \<Rightarrow> [])"

function tokens :: "string \<Rightarrow> string list" where
  "tokens [] = []"
| "tokens (c # s) =
     (if is_digit c then number_token (c # s) # tokens (drop (length (number_token (c # s))) (c # s))
      else if c \<in> set ''-+*/()'' then [c] # tokens s
      else tokens s)"
  by pat_completeness auto
termination by (relation "measure length") (auto simp: number_token_def)

section \<open>Float operations\<close>

text \<open>\<open>float(tok)\<close> of a number, the four operations and the unary minus; only division may raise.\<close>

record 'f float_ops =
  fo_lit :: "string \<Rightarrow> 'f"
  fo_add :: "'f \<Rightarrow> 'f \<Rightarrow> 'f"
  fo_sub :: "'f \<Rightarrow> 'f \<Rightarrow> 'f"
  fo_mul :: "'f \<Rightarrow> 'f \<Rightarrow> 'f"
  fo_div :: "'f \<Rightarrow> 'f \<Rightarrow> 'f result"
  fo_neg :: "'f \<Rightarrow> 'f"

text \<open>\<open>float(tok)\<close> of any token: an operator or a closing bracket is not a number.\<close>

definition py_float_token :: "'f float_ops \<Rightarrow> string \<Rightarrow> 'f result" where
  "py_float_token fo tok = (if list_ex is_digit tok then Inr (fo_lit fo tok) else Inl (ValueError tok))"

section \<open>The reference solution\<close>

text \<open>
  The position in the token list is the list of the tokens not yet taken: \<open>peek\<close> looks at its head,
  \<open>take\<close> removes it and raises \<open>IndexError\<close> when there is none. The three nested functions and their two
  loops are one recursive function; a loop carries the value it has so far. \<open>None\<close> would be a parse that
  does not return.
\<close>

datatype 'f parsing = Expr | Expr_while 'f | Term | Term_while 'f | Factor

definition peek :: "string list \<Rightarrow> string option" where
  "peek ts = (case ts of [] \<Rightarrow> None | t # _ \<Rightarrow> Some t)"

abbreviation and_then ::
    "('f \<times> string list) result option \<Rightarrow> ('f \<Rightarrow> string list \<Rightarrow> ('f \<times> string list) result option)
      \<Rightarrow> ('f \<times> string list) result option" where
  "and_then m f \<equiv> Option.bind m (\<lambda>r. case r of Inl e \<Rightarrow> Some (Inl e) | Inr (v, ts) \<Rightarrow> f v ts)"

partial_function (option) parse :: "'f float_ops \<Rightarrow> 'f parsing \<Rightarrow> string list \<Rightarrow> ('f \<times> string list) result option" where
  "parse fo p ts = (case p of
      Expr \<Rightarrow> and_then (parse fo Term ts) (\<lambda>v. parse fo (Expr_while v))
    | Expr_while v \<Rightarrow>
        (if peek ts = Some ''+'' then and_then (parse fo Term (tl ts)) (\<lambda>w. parse fo (Expr_while (fo_add fo v w)))
         else if peek ts = Some ''-'' then and_then (parse fo Term (tl ts)) (\<lambda>w. parse fo (Expr_while (fo_sub fo v w)))
         else Some (Inr (v, ts)))
    | Term \<Rightarrow> and_then (parse fo Factor ts) (\<lambda>v. parse fo (Term_while v))
    | Term_while v \<Rightarrow>
        (if peek ts = Some ''*'' then and_then (parse fo Factor (tl ts)) (\<lambda>w. parse fo (Term_while (fo_mul fo v w)))
         else if peek ts = Some ''/'' then and_then (parse fo Factor (tl ts)) (\<lambda>w ts'.
           case fo_div fo v w of Inl e \<Rightarrow> Some (Inl e) | Inr x \<Rightarrow> parse fo (Term_while x) ts')
         else Some (Inr (v, ts)))
    | Factor \<Rightarrow> (case ts of
        [] \<Rightarrow> Some (Inl IndexError)
      | tok # ts \<Rightarrow>
          if tok = ''-'' then and_then (parse fo Factor ts) (\<lambda>v ts'. Some (Inr (fo_neg fo v, ts')))
          else if tok = ''('' then and_then (parse fo Expr ts) (\<lambda>v ts'.
            if ts' = [] then Some (Inl IndexError) else Some (Inr (v, tl ts')))
          else Some (map_sum id (\<lambda>v. (v, ts)) (py_float_token fo tok))))"

declare parse.simps [code]

text \<open>Whatever is left after the expression is ignored, as in the code.\<close>

definition evaluate :: "'f float_ops \<Rightarrow> string \<Rightarrow> 'f result option" where
  "evaluate fo expr = map_option (map_sum id fst) (parse fo Expr (tokens expr))"

section \<open>The wrong solution\<close>

text \<open>
  All four operators at one level. The dict display computes all four results before one is chosen, so a
  zero on the right raises whatever the operator is.
\<close>

definition apply_all :: "'f float_ops \<Rightarrow> string \<Rightarrow> 'f \<Rightarrow> 'f \<Rightarrow> 'f result" where
  "apply_all fo op v w = bind_result (fo_div fo v w) (\<lambda>q. Inr
     (if op = ''+'' then fo_add fo v w else if op = ''-'' then fo_sub fo v w else if op = ''*'' then fo_mul fo v w else q))"

datatype 'f flat_parsing = Flat_expr | Flat_while 'f | Flat_factor

partial_function (option) flat_parse :: "'f float_ops \<Rightarrow> 'f flat_parsing \<Rightarrow> string list \<Rightarrow> ('f \<times> string list) result option" where
  "flat_parse fo p ts = (case p of
      Flat_expr \<Rightarrow> and_then (flat_parse fo Flat_factor ts) (\<lambda>v. flat_parse fo (Flat_while v))
    | Flat_while v \<Rightarrow>
        (case ts of
           op # ts1 \<Rightarrow>
             if op \<in> {''+'', ''-'', ''*'', ''/''} then and_then (flat_parse fo Flat_factor ts1) (\<lambda>w ts'.
               case apply_all fo op v w of Inl e \<Rightarrow> Some (Inl e) | Inr x \<Rightarrow> flat_parse fo (Flat_while x) ts')
             else Some (Inr (v, ts))
         | [] \<Rightarrow> Some (Inr (v, ts)))
    | Flat_factor \<Rightarrow> (case ts of
        [] \<Rightarrow> Some (Inl IndexError)
      | tok # ts \<Rightarrow>
          if tok = ''-'' then and_then (flat_parse fo Flat_factor ts) (\<lambda>v ts'. Some (Inr (fo_neg fo v, ts')))
          else if tok = ''('' then and_then (flat_parse fo Flat_expr ts) (\<lambda>v ts'.
            if ts' = [] then Some (Inl IndexError) else Some (Inr (v, tl ts')))
          else Some (map_sum id (\<lambda>v. (v, ts)) (py_float_token fo tok))))"

declare flat_parse.simps [code]

definition wrong_evaluate :: "'f float_ops \<Rightarrow> string \<Rightarrow> 'f result option" where
  "wrong_evaluate fo expr = map_option (map_sum id fst) (flat_parse fo Flat_expr (tokens expr))"

section \<open>Every evaluation returns\<close>

lemmas parse_Expr = parse.simps [where p = Expr, unfolded parsing.case]
lemmas parse_Term = parse.simps [where p = Term, unfolded parsing.case]
lemmas parse_Expr_while = parse.simps [where p = "Expr_while v" for v, unfolded parsing.case]
lemmas parse_Term_while = parse.simps [where p = "Term_while v" for v, unfolded parsing.case]
lemmas parse_Factor = parse.simps [where p = Factor, unfolded parsing.case]

fun rank :: "'f parsing \<Rightarrow> nat" where
  "rank Expr = 2" | "rank Term = 1" | "rank (Expr_while v) = 0" | "rank (Term_while v) = 0" | "rank Factor = 0"

text \<open>A parse returns and takes tokens: at least one, except that a loop may stop at once.\<close>

definition takes :: "'f parsing \<Rightarrow> string list \<Rightarrow> ('f \<times> string list) result option \<Rightarrow> bool" where
  "takes p ts m \<longleftrightarrow> (case m of None \<Rightarrow> False | Some (Inl e) \<Rightarrow> True | Some (Inr (v, ts')) \<Rightarrow>
     length ts' \<le> length ts \<and> (case p of Expr_while _ \<Rightarrow> True | Term_while _ \<Rightarrow> True | _ \<Rightarrow> length ts' < length ts))"

lemma takesI:
  "takes p ts (Some (Inl e))" "length ts' < length ts \<Longrightarrow> takes p ts (Some (Inr (v, ts')))"
  "takes (Expr_while x) ts (Some (Inr (v, ts)))" "takes (Term_while x) ts (Some (Inr (v, ts)))"
  by (auto simp: takes_def split: parsing.splits)

lemma takes_then:
  assumes "takes q ts1 m" and "\<And>v ts2. takes q ts1 (Some (Inr (v, ts2))) \<Longrightarrow> takes p ts (f v ts2)"
  shows "takes p ts (and_then m f)"
proof -
  from assms(1) obtain r where m: "m = Some r" by (cases m) (auto simp: takes_def)
  with assms show ?thesis by (cases r) (auto simp: takesI)
qed

lemma takes_shorter:
  "takes q ts2 m \<Longrightarrow> length ts2 < length ts \<Longrightarrow> takes p ts m"
  by (auto simp: takes_def split: option.splits sum.splits prod.splits parsing.splits)

lemma parse_takes: "takes p ts (parse fo p ts)"
proof (induction "3 * length ts + rank p" arbitrary: p ts rule: less_induct)
  case less
  have IH: "takes q ts' (parse fo q ts')" if "length ts' < length ts \<or> length ts' = length ts \<and> rank q < rank p" for q ts'
    by (rule less) (use that in \<open>cases q; cases p; auto\<close>)
  have after: "takes q ts (parse fo r ts')" if "takes s ts (Some (Inr (v, ts')))" "s = Factor \<or> s = Term" for q r s v ts'
    by (rule takes_shorter [OF IH]) (use that in \<open>auto simp: takes_def\<close>)
  have go: "takes p (t # rest) (and_then (parse fo q rest) f)"
    if "ts = t # rest" and "\<And>w ts'. length ts' < Suc (length rest) \<Longrightarrow> takes p (t # rest) (f w ts')" for q t rest f
    by (rule takes_then [of q rest], rule IH) (use that in \<open>auto simp: takes_def\<close>)
  have loop: "takes p (t # rest) (parse fo q ts')" if "ts = t # rest" and "length ts' < Suc (length rest)" for q t rest ts'
    by (rule takes_shorter [OF IH]) (use that in auto)
  show ?case
  proof (cases p)
    case Expr
    have first: "takes Term ts (parse fo Term ts)" by (rule IH) (simp add: Expr)
    from first show ?thesis unfolding Expr parse_Expr
      by (rule takes_then) (auto intro: after)
  next
    case Term
    have first: "takes Factor ts (parse fo Factor ts)" by (rule IH) (simp add: Term)
    from first show ?thesis unfolding Term parse_Term
      by (rule takes_then) (auto intro: after)
  next
    case (Expr_while v)
    show ?thesis unfolding parse_Expr_while [of fo v ts] Expr_while
      by (cases ts) (auto simp: peek_def takesI intro!: go [unfolded Expr_while] loop [unfolded Expr_while])
  next
    case (Term_while v)
    show ?thesis unfolding parse_Term_while [of fo v ts] Term_while
      by (cases ts) (auto simp: peek_def takesI intro!: go [unfolded Term_while] loop [unfolded Term_while] split: sum.splits)
  next
    case Factor
    show ?thesis unfolding parse_Factor [of fo ts] Factor
      by (cases ts) (auto simp: takesI py_float_token_def intro!: go [unfolded Factor])
  qed
qed

text \<open>
  The evaluator returns on every text: a value, or one of the errors of the code.
\<close>

theorem evaluate_returns: "\<exists>res. evaluate fo expr = Some res"
  using parse_takes [of Expr "tokens expr" fo] by (auto simp: evaluate_def takes_def split: option.splits)

section \<open>The evaluator reads expressions as they are meant\<close>

datatype expression = Number string | Minus expression | Op char expression expression

text \<open>The meaning: left to right, an error ends the evaluation.\<close>

fun meaning :: "'f float_ops \<Rightarrow> expression \<Rightarrow> 'f result" where
  "meaning fo (Number n) = Inr (fo_lit fo n)"
| "meaning fo (Minus a) = bind_result (meaning fo a) (\<lambda>v. Inr (fo_neg fo v))"
| "meaning fo (Op c a b) = bind_result (meaning fo a) (\<lambda>v. bind_result (meaning fo b) (\<lambda>w.
     if c = CHR ''+'' then Inr (fo_add fo v w) else if c = CHR ''-'' then Inr (fo_sub fo v w)
     else if c = CHR ''*'' then Inr (fo_mul fo v w) else fo_div fo v w))"

text \<open>
  Writing with as few brackets as precedence and left association allow: level 0 is a sum, 1 a product,
  2 a factor.
\<close>

abbreviation sum_op :: "char \<Rightarrow> bool" where
  "sum_op c \<equiv> c = CHR ''+'' \<or> c = CHR ''-''"

fun written :: "nat \<Rightarrow> expression \<Rightarrow> string list" where
  "written k (Number n) = [n]"
| "written k (Minus a) = ''-'' # written 2 a"
| "written k (Op c a b) =
     (let ts = (if sum_op c then written 0 a @ [[c]] @ written 1 b else written 1 a @ [[c]] @ written 2 b) in
      if (if sum_op c then 0 else 1) < k then [''(''] @ ts @ ['')''] else ts)"

definition number :: "string \<Rightarrow> bool" where
  "number n \<longleftrightarrow> n \<noteq> [] \<and> is_digit (hd n) \<and> number_token n = n"

fun proper :: "expression \<Rightarrow> bool" where
  "proper (Number n) = number n"
| "proper (Minus a) = proper a"
| "proper (Op c a b) = (c \<in> set ''+-*/'' \<and> proper a \<and> proper b)"

abbreviation yields :: "'f result \<Rightarrow> ('f \<Rightarrow> ('f \<times> string list) result option) \<Rightarrow> ('f \<times> string list) result option" where
  "yields m f \<equiv> (case m of Inl e \<Rightarrow> Some (Inl e) | Inr v \<Rightarrow> f v)"

text \<open>What the three functions make of a written expression, whatever follows it.\<close>

definition reads_factor :: "'f float_ops \<Rightarrow> expression \<Rightarrow> bool" where
  "reads_factor fo a \<longleftrightarrow> (\<forall>rest. parse fo Factor (written 2 a @ rest) = yields (meaning fo a) (\<lambda>v. Some (Inr (v, rest))))"

definition reads_term :: "'f float_ops \<Rightarrow> expression \<Rightarrow> bool" where
  "reads_term fo a \<longleftrightarrow> (\<forall>rest. parse fo Term (written 1 a @ rest) = yields (meaning fo a) (\<lambda>v. parse fo (Term_while v) rest))"

definition reads_expr :: "'f float_ops \<Rightarrow> expression \<Rightarrow> bool" where
  "reads_expr fo a \<longleftrightarrow> (\<forall>rest. peek rest \<notin> {Some ''*'', Some ''/''} \<longrightarrow>
     parse fo Expr (written 0 a @ rest) = yields (meaning fo a) (\<lambda>v. parse fo (Expr_while v) rest))"

lemma Expr_while_stops: "peek ts \<notin> {Some ''+'', Some ''-''} \<Longrightarrow> parse fo (Expr_while v) ts = Some (Inr (v, ts))"
  by (simp add: parse_Expr_while)

lemma Term_while_stops: "peek ts \<notin> {Some ''*'', Some ''/''} \<Longrightarrow> parse fo (Term_while v) ts = Some (Inr (v, ts))"
  by (simp add: parse_Term_while)

lemma peek_simps [simp]: "peek [] = None" "peek (t # ts) = Some t"
  by (simp_all add: peek_def)

lemma reads_term_if: "reads_factor fo a \<Longrightarrow> written 1 a = written 2 a \<Longrightarrow> reads_term fo a"
  by (simp add: reads_term_def reads_factor_def parse_Term split: sum.split)

lemma reads_expr_if: "reads_term fo a \<Longrightarrow> written 0 a = written 1 a \<Longrightarrow> reads_expr fo a"
  by (simp add: reads_expr_def reads_term_def parse_Expr Term_while_stops split: sum.split)

lemma reads_bracket:
  assumes "reads_expr fo a" and "written 2 a = [''(''] @ written 0 a @ ['')'']"
  shows "reads_factor fo a"
  using assms by (simp add: reads_factor_def reads_expr_def parse_Factor Expr_while_stops split: sum.split)

lemma reads_written: "proper a \<Longrightarrow> reads_factor fo a \<and> reads_term fo a \<and> reads_expr fo a"
proof (induction a)
  case (Number n)
  then have "n \<noteq> ''-''" "n \<noteq> ''(''" "list_ex is_digit n"
    by (auto simp: number_def is_digit_def list_ex_iff hd_in_set)
  then have "reads_factor fo (Number n)" by (simp add: reads_factor_def parse_Factor py_float_token_def)
  then show ?case by (simp add: reads_term_if reads_expr_if)
next
  case (Minus a)
  then have "reads_factor fo (Minus a)" by (simp add: reads_factor_def parse_Factor split: sum.split)
  then show ?case by (simp add: reads_term_if reads_expr_if)
next
  case (Op c a b)
  then have IH: "reads_expr fo a" "reads_term fo a" "reads_term fo b" "reads_factor fo b" by auto
  show ?case
  proof (cases "sum_op c")
    case True
    have "reads_expr fo (Op c a b)"
      unfolding reads_expr_def
    proof (intro allI impI)
      fix rest :: "string list"
      assume r: "peek rest \<notin> {Some ''*'', Some ''/''}"
      show "parse fo Expr (written 0 (Op c a b) @ rest) = yields (meaning fo (Op c a b)) (\<lambda>v. parse fo (Expr_while v) rest)"
        using True IH(1,3) r
        by (auto simp: reads_expr_def reads_term_def parse_Expr_while [of fo _ "_ # _"] Term_while_stops [OF r] split: sum.split)
    qed
    moreover from this have "reads_factor fo (Op c a b)" by (rule reads_bracket) (use True in simp)
    moreover from this have "reads_term fo (Op c a b)" by (rule reads_term_if) (use True in simp)
    ultimately show ?thesis by blast
  next
    case False
    then have "c = CHR ''*'' \<or> c = CHR ''/''" using Op.prems by auto
    then have t: "reads_term fo (Op c a b)"
      using IH(2,4) by (auto simp: reads_term_def reads_factor_def parse_Term_while [of fo _ "_ # _"] split: sum.split)
    moreover from t have e: "reads_expr fo (Op c a b)" by (rule reads_expr_if) (use False in simp)
    moreover from e have "reads_factor fo (Op c a b)" by (rule reads_bracket) (use False in simp)
    ultimately show ?thesis by blast
  qed
qed

text \<open>The text of an expression: its tokens with a space after each.\<close>

definition expression_text :: "expression \<Rightarrow> string" where
  "expression_text a = concat (map (\<lambda>t. t @ '' '') (written 0 a))"

lemma number_token_space: "number n \<Longrightarrow> number_token (n @ CHR '' '' # s) = n"
proof -
  assume "number n"
  then have n: "takeWhile is_digit n @ (case dropWhile is_digit n of c # r \<Rightarrow> if c = CHR ''.'' then c # takeWhile is_digit r else [] | [] \<Rightarrow> []) = n"
    by (simp add: number_def number_token_def)
  have sp: "\<not> is_digit (CHR '' '')" by (simp add: is_digit_def)
  show ?thesis
  proof (cases "dropWhile is_digit n")
    case Nil
    then have "\<forall>c \<in> set n. is_digit c" by (simp add: dropWhile_eq_Nil_conv)
    with sp show ?thesis by (simp add: number_token_def takeWhile_append2 dropWhile_append2)
  next
    case (Cons c r)
    from n Cons have "takeWhile is_digit n @ (if c = CHR ''.'' then c # takeWhile is_digit r else []) = n" by simp
    also have "n = takeWhile is_digit n @ c # r" using takeWhile_dropWhile_id [of is_digit n] Cons by simp
    finally have "(if c = CHR ''.'' then c # takeWhile is_digit r else []) = c # r" by (simp only: same_append_eq)
    then have c: "c = CHR ''.''" and r: "takeWhile is_digit r = r" by (auto split: if_splits)
    have "\<forall>x \<in> set r. is_digit x" using r by (metis set_takeWhileD)
    then have "takeWhile is_digit (r @ CHR '' '' # s) = r" using sp by (simp add: takeWhile_append2)
    moreover have "\<not> (\<forall>x \<in> set n. is_digit x)" using Cons dropWhile_eq_Nil_conv [of is_digit n] by auto
    then have "takeWhile is_digit (n @ CHR '' '' # s) = takeWhile is_digit n"
      "dropWhile is_digit (n @ CHR '' '' # s) = dropWhile is_digit n @ CHR '' '' # s"
      by (auto simp: takeWhile_append1 dropWhile_append1)
    ultimately show ?thesis using n Cons c r by (simp add: number_token_def)
  qed
qed

lemma tokens_space: "tokens (CHR '' '' # s) = tokens s"
  by (simp add: is_digit_def)

lemma tokens_number: "number n \<Longrightarrow> tokens (n @ CHR '' '' # s) = n # tokens s"
proof -
  assume n: "number n"
  then obtain c m where m: "n = c # m" "is_digit c" by (cases n) (auto simp: number_def)
  from number_token_space [OF n, of s] m have "tokens (n @ CHR '' '' # s) = n # tokens (CHR '' '' # s)" by simp
  then show ?thesis by (simp only: tokens_space)
qed

lemma tokens_op: "c \<in> set ''-+*/()'' \<Longrightarrow> tokens ([c] @ CHR '' '' # s) = [c] # tokens s"
  by (auto simp: is_digit_def)

lemma tokens_written: "list_all (\<lambda>t. number t \<or> (\<exists>c \<in> set ''-+*/()''. t = [c])) ts \<Longrightarrow> tokens (concat (map (\<lambda>t. t @ '' '') ts)) = ts"
proof (induction ts)
  case (Cons t ts)
  then show ?case using tokens_number [of t] tokens_op by (auto simp del: tokens.simps)
qed simp

lemma written_tokens: "proper a \<Longrightarrow> list_all (\<lambda>t. number t \<or> (\<exists>c \<in> set ''-+*/()''. t = [c])) (written k a)"
  by (induction a arbitrary: k) (auto simp: Let_def)

text \<open>
  C39. Task 12's evaluator reads expressions as they are meant: an expression tree with numbers, unary
  minus and the four operations, written with only the brackets that precedence and left association
  require, evaluates to its value, or to the error that the first failing division raises.
\<close>

theorem evaluate_means:
  assumes "proper a"
  shows "evaluate fo (expression_text a) = Some (meaning fo a)"
proof -
  have "tokens (expression_text a) = written 0 a"
    unfolding expression_text_def by (rule tokens_written [OF written_tokens [OF assms]])
  moreover have "reads_expr fo a" using reads_written [OF assms] by blast
  then have "parse fo Expr (written 0 a @ []) = yields (meaning fo a) (\<lambda>v. parse fo (Expr_while v) [])"
    unfolding reads_expr_def by (elim allE [of _ "[]"] mp) simp
  ultimately show ?thesis by (simp add: evaluate_def Expr_while_stops split: sum.split)
qed

section \<open>The hidden test\<close>

text \<open>Exact arithmetic on fractions; the numbers of the test are dyadic, where floats are exact too.\<close>

definition exact_ops :: "rat float_ops" where
  "exact_ops = \<lparr>fo_lit = (\<lambda>s. of_nat (int_of_str (filter is_digit s)) / 10 ^ length (filter is_digit (dropWhile is_digit s))),
     fo_add = (+), fo_sub = (-), fo_mul = (*),
     fo_div = (\<lambda>x y. if y = 0 then Inl ZeroDivisionError else Inr (x / y)), fo_neg = uminus\<rparr>"

definition test_evaluate :: "(string \<Rightarrow> rat result option) \<Rightarrow> bool" where
  "test_evaluate f \<longleftrightarrow> f ''1 + 2 * 3'' = Some (Inr 7) \<and> f ''(1+2)*3'' = Some (Inr 9) \<and> f ''-2 * -3'' = Some (Inr 6)
     \<and> f ''10 / 4'' = Some (Inr (5 / 2)) \<and> f ''2 * (3 + 4) - 5 / (1 + 1)'' = Some (Inr (23 / 2))
     \<and> f ''-(2+3)'' = Some (Inr (-5)) \<and> f ''1 - 2 - 3'' = Some (Inr (-4)) \<and> f ''8 / 2 / 2'' = Some (Inr 2)"

lemma evaluate_tested: "test_evaluate (evaluate exact_ops)"
  by code_simp

text \<open>The wrong solution gives 9 for the first expression.\<close>

lemma wrong_evaluate_rejected: "wrong_evaluate exact_ops ''1 + 2 * 3'' = Some (Inr 9)" "\<not> test_evaluate (wrong_evaluate exact_ops)"
  by code_simp+

text \<open>Errors of the code: nothing to take, a closing bracket missing, an operator where a number should be, division by zero.\<close>

lemma evaluate_errors:
  "evaluate exact_ops '''' = Some (Inl IndexError)" "evaluate exact_ops ''(1 + 2'' = Some (Inl IndexError)"
  "evaluate exact_ops ''1 + * 2'' = Some (Inl (ValueError ''*''))" "evaluate exact_ops ''1 / (2 - 2)'' = Some (Inl ZeroDivisionError)"
  by code_simp+

text \<open>What stands after the expression is ignored, and any token closes a bracket.\<close>

lemma evaluate_lenient: "evaluate exact_ops ''1 2'' = Some (Inr 1)" "evaluate exact_ops ''(1 + 2 7'' = Some (Inr 3)"
  by code_simp+

theorem evaluate_means_witness:
  "evaluate exact_ops ''( 1 + 2.5 ) * - 3 '' = Some (Inr (-21 / 2))"
proof -
  let ?e = "Op CHR ''*'' (Op CHR ''+'' (Number ''1'') (Number ''2.5'')) (Minus (Number ''3''))"
  have "proper ?e" "expression_text ?e = ''( 1 + 2.5 ) * - 3 ''" "meaning exact_ops ?e = Inr (-21 / 2)" by code_simp+
  with evaluate_means [of ?e exact_ops] show ?thesis by simp
qed

end
