(* ===== verification/Solutions.thy ===== *)
theory Solutions
  imports Text "HOL-Library.Multiset" "HOL-Library.Product_Lexorder"
begin

text \<open>
  The reference solutions of the standard eval tasks (\<open>evals/tasks/*/solution.py\<close>): the programs the eval
  suite holds a submission's tests against. One section per task, with what makes the
  solution right, and the deterministic checks of the task's hidden test. Integers are unbounded,
  a Python dict keeps the order of insertion and is an association list.
\<close>

section \<open>01 fizzbuzz\<close>

definition fizz_word :: "int \<Rightarrow> string" where
  "fizz_word i = (if i mod 15 = 0 then ''FizzBuzz'' else if i mod 3 = 0 then ''Fizz''
     else if i mod 5 = 0 then ''Buzz'' else str_int i)"

definition fizzbuzz :: "int \<Rightarrow> string list" where
  "fizzbuzz n = map fizz_word [1..n]"

text \<open>The words say which of 3 and 5 divide the number.\<close>

lemma fizz_word_cases:
  "fizz_word i = (if 3 dvd i then ''Fizz'' else '''') @ (if 5 dvd i then ''Buzz'' else '''')
     @ (if 3 dvd i \<or> 5 dvd i then '''' else str_int i)"
proof -
  have "15 dvd i \<longleftrightarrow> 3 dvd i \<and> 5 dvd i" by presburger
  then show ?thesis by (auto simp: fizz_word_def dvd_eq_mod_eq_0)
qed

lemma length_fizzbuzz: "length (fizzbuzz n) = nat n"
  by (simp add: fizzbuzz_def)

lemma fizzbuzz_nth: "0 \<le> k \<Longrightarrow> k < n \<Longrightarrow> fizzbuzz n ! nat k = fizz_word (k + 1)"
  by (simp add: fizzbuzz_def nth_upto add.commute)

section \<open>02 palindrome\<close>

definition is_palindrome :: "string \<Rightarrow> bool" where
  "is_palindrome s = (let t = map lower_char (filter is_alnum s) in t = rev t)"

section \<open>03 sum of evens, 04 reversed words\<close>

definition sum_evens :: "int list \<Rightarrow> int" where
  "sum_evens nums = sum_list (filter (\<lambda>n. n mod 2 = 0) nums)"

definition reverse_words :: "string \<Rightarrow> string" where
  "reverse_words s = join_str '' '' (rev (split_words s))"

text \<open>Reversing twice only normalises the spaces.\<close>

lemma reverse_words_twice: "reverse_words (reverse_words s) = join_str '' '' (split_words s)"
proof -
  have "split_words (join_str '' '' (rev (split_words s))) = rev (split_words s)"
    by (rule split_join_words) (use split_words_ok in auto)
  then show ?thesis by (simp add: reverse_words_def)
qed

section \<open>05 word count\<close>

text \<open>\<open>counts[w] = counts.get(w, 0) + 1\<close>, which is also what \<open>Counter\<close> does.\<close>

definition count_up :: "('a \<times> int) list \<Rightarrow> 'a \<Rightarrow> ('a \<times> int) list" where
  "count_up counts w = AList.update w ((case map_of counts w of None \<Rightarrow> 0 | Some n \<Rightarrow> n) + 1) counts"

definition is_lower_ascii :: "char \<Rightarrow> bool" where
  "is_lower_ascii c \<longleftrightarrow> 97 \<le> (of_char c :: nat) \<and> (of_char c :: nat) \<le> 122"

definition word_count :: "string \<Rightarrow> (string \<times> int) list" where
  "word_count t = foldl count_up [] (runs_of is_lower_ascii (map lower_char t))"

lemma map_of_count_up:
  "map_of (count_up counts w) = (map_of counts)(w \<mapsto> (case map_of counts w of None \<Rightarrow> 0 | Some n \<Rightarrow> n) + 1)"
  by (simp add: count_up_def update_conv')

lemma distinct_count_up: "distinct (map fst counts) \<Longrightarrow> distinct (map fst (count_up counts w))"
  by (simp add: count_up_def distinct_update)

lemma count_up_all:
  "map_of (foldl count_up counts ws) w =
     (if w \<in> set ws then Some ((case map_of counts w of None \<Rightarrow> 0 | Some n \<Rightarrow> n) + int (count_list ws w))
      else map_of counts w)"
  by (induction ws arbitrary: counts) (auto simp: map_of_count_up split: option.splits)

lemma distinct_count_ups: "distinct (map fst counts) \<Longrightarrow> distinct (map fst (foldl count_up counts ws))"
  by (induction ws arbitrary: counts) (auto simp: distinct_count_up)

lemma word_count_counts:
  "map_of (word_count t) w = (let ws = runs_of is_lower_ascii (map lower_char t) in
     if w \<in> set ws then Some (int (count_list ws w)) else None)"
  by (simp add: word_count_def count_up_all Let_def)

section \<open>06 two sum\<close>

definition two_sum :: "int list \<Rightarrow> int \<Rightarrow> (nat \<times> nat) option" where
  "two_sum nums target = List.find (\<lambda>(i, j). nums ! i + nums ! j = target)
     (concat (map (\<lambda>i. map (Pair i) [Suc i..<length nums]) [0..<length nums]))"

lemma two_sum_Some: "two_sum nums target = Some (i, j) \<Longrightarrow> i < j \<and> j < length nums \<and> nums ! i + nums ! j = target"
  unfolding two_sum_def by (drule find_SomeD) auto

lemma two_sum_None:
  assumes "two_sum nums target = None" and "i < j" and "j < length nums"
  shows "nums ! i + nums ! j \<noteq> target"
proof -
  have "(i, j) \<in> set (concat (map (\<lambda>i. map (Pair i) [Suc i..<length nums]) [0..<length nums]))"
    using assms(2,3) by (auto intro!: bexI [of _ i])
  with assms(1) show ?thesis unfolding two_sum_def find_None_iff by blast
qed

section \<open>07 roman numerals\<close>

definition ROMAN :: "(int \<times> string) list" where
  "ROMAN = [(1000, ''M''), (900, ''CM''), (500, ''D''), (400, ''CD''), (100, ''C''), (90, ''XC''), (50, ''L''),
     (40, ''XL''), (10, ''X''), (9, ''IX''), (5, ''V''), (4, ''IV''), (1, ''I'')]"

text \<open>The inner loop ends because the listed values are positive.\<close>

function roman_go :: "(int \<times> string) list \<Rightarrow> int \<Rightarrow> string" where
  "roman_go [] n = ''''"
| "roman_go ((v, s) # vs) n =
     (if 0 < v \<and> v \<le> n then s @ roman_go ((v, s) # vs) (n - v) else roman_go vs n)"
  by pat_completeness auto
termination by (relation "measures [\<lambda>(vs, n). length vs, \<lambda>(vs, n). nat n]") auto

declare roman_go.simps(2) [simp del]

definition to_roman :: "int \<Rightarrow> string" where
  "to_roman n = roman_go ROMAN n"

text \<open>Reading a numeral: a letter in front of a larger one counts negatively.\<close>

definition letter_value :: "char \<Rightarrow> int" where
  "letter_value c = (if c = CHR ''M'' then 1000 else if c = CHR ''D'' then 500 else if c = CHR ''C'' then 100
     else if c = CHR ''L'' then 50 else if c = CHR ''X'' then 10 else if c = CHR ''V'' then 5 else 1)"

fun roman_value :: "string \<Rightarrow> int" where
  "roman_value [] = 0"
| "roman_value [c] = letter_value c"
| "roman_value (c # d # s) =
     (if letter_value c < letter_value d then - letter_value c else letter_value c) + roman_value (d # s)"

lemma roman_value_append:
  "s \<noteq> [] \<Longrightarrow> t = [] \<or> letter_value (hd t) \<le> letter_value (last s) \<Longrightarrow>
     roman_value (s @ t) = roman_value s + roman_value t"
proof (induction s rule: roman_value.induct)
  case (2 c)
  then show ?case by (cases t) auto
qed auto

fun symbols_ok :: "(int \<times> string) list \<Rightarrow> bool" where
  "symbols_ok [] = True"
| "symbols_ok ((v, s) # vs) = (0 < v \<and> s \<noteq> [] \<and> roman_value s = v \<and> letter_value (hd s) \<le> letter_value (last s)
     \<and> list_all (\<lambda>(v', s'). letter_value (hd s') \<le> letter_value (last s)) vs \<and> symbols_ok vs)"

lemma roman_go_head:
  "symbols_ok vs \<Longrightarrow> roman_go vs n = [] \<or> (\<exists>(v, s) \<in> set vs. hd (roman_go vs n) = hd s)"
proof (induction vs n rule: roman_go.induct)
  case (2 v s vs n)
  then show ?case by (cases "0 < v \<and> v \<le> n") (auto simp: roman_go.simps(2) hd_append)
qed simp

lemma roman_go_value:
  "symbols_ok vs \<Longrightarrow> 0 \<le> n \<Longrightarrow> \<exists>rest. roman_value (roman_go vs n) = n - rest \<and> 0 \<le> rest
     \<and> rest \<le> n \<and> (1 \<in> fst ` set vs \<longrightarrow> rest = 0)"
proof (induction vs n rule: roman_go.induct)
  case (2 v s vs n)
  show ?case
  proof (cases "v \<le> n")
    case True
    have pos: "0 < v" using 2(3) by simp
    with 2(1) 2(3) True obtain rest where rest: "roman_value (roman_go ((v, s) # vs) (n - v)) = n - v - rest"
      "0 \<le> rest" "rest \<le> n - v" "1 \<in> fst ` set ((v, s) # vs) \<longrightarrow> rest = 0" by auto
    have "roman_value (s @ roman_go ((v, s) # vs) (n - v)) = v + (n - v - rest)"
      using roman_go_head [OF 2(3), of "n - v"] 2(3) rest(1)
      by (subst roman_value_append) (auto simp: list_all_iff)
    with rest pos True show ?thesis by (auto simp: roman_go.simps(2))
  next
    case False
    with 2 show ?thesis by (auto simp: roman_go.simps(2))
  qed
qed auto

lemma ROMAN_ok: "symbols_ok ROMAN"
  by (simp add: ROMAN_def letter_value_def)

text \<open>
  The reference solution of the roman numerals task is right for every number, not only for the
  tested ones: read back by the rules of the notation, its text denotes the number it was given.
\<close>

theorem to_roman_denotes:
  assumes "0 \<le> n"
  shows "roman_value (to_roman n) = n"
  using roman_go_value [OF ROMAN_ok assms] by (auto simp: to_roman_def ROMAN_def)

theorem to_roman_denotes_witness: "roman_value (to_roman 1994) = 1994"
  by (rule to_roman_denotes) simp

section \<open>08 balanced brackets\<close>

definition BRACKETS :: "(char \<times> char) list" where
  "BRACKETS = [(CHR '')'', CHR ''(''), (CHR '']'', CHR ''[''), (CHR ''}'', CHR ''{'')]"

fun balance_from :: "string \<Rightarrow> string \<Rightarrow> bool" where
  "balance_from st [] = (st = [])"
| "balance_from st (c # s) =
     (if c \<in> set ''([{'' then balance_from (c # st) s
      else (case map_of BRACKETS c of
              None \<Rightarrow> balance_from st s
            | Some bra \<Rightarrow> (case st of [] \<Rightarrow> False | o1 # st' \<Rightarrow> if o1 \<noteq> bra then False else balance_from st' s)))"

definition is_balanced :: "string \<Rightarrow> bool" where
  "is_balanced s = balance_from [] s"

text \<open>What a balanced text is, as a grammar.\<close>

inductive balanced :: "string \<Rightarrow> bool" where
  empty: "balanced []"
| plain: "c \<notin> set ''([{)]}'' \<Longrightarrow> balanced s \<Longrightarrow> balanced (c # s)"
| nested: "(ket, bra) \<in> set BRACKETS \<Longrightarrow> balanced s \<Longrightarrow> balanced t \<Longrightarrow> balanced (bra # s @ ket # t)"

lemma balanced_append: "balanced s \<Longrightarrow> balanced t \<Longrightarrow> balanced (s @ t)"
proof (induction rule: balanced.induct)
  case (nested ket bra s u)
  then show ?case using balanced.nested [of ket bra s "u @ t"] by simp
qed (auto intro: balanced.intros)

text \<open>A text that closes the brackets of a stack, innermost first.\<close>

fun closes :: "string \<Rightarrow> string \<Rightarrow> bool" where
  "closes [] s = balanced s"
| "closes (bra # st) s = (\<exists>a ket b. s = a @ ket # b \<and> balanced a \<and> (ket, bra) \<in> set BRACKETS \<and> closes st b)"

lemma closes_prepend: "balanced x \<Longrightarrow> closes st s \<Longrightarrow> closes st (x @ s)"
proof (cases st)
  case (Cons bra st')
  moreover assume "balanced x" "closes st s"
  ultimately obtain a ket b where "x @ s = (x @ a) @ ket # b" "balanced (x @ a)" "(ket, bra) \<in> set BRACKETS" "closes st' b"
    by (auto intro: balanced_append)
  then show ?thesis unfolding Cons closes.simps by blast
qed (auto intro: balanced_append)

lemma bracket_cases:
  "map_of BRACKETS c = Some bra \<longleftrightarrow> (c, bra) \<in> set BRACKETS"
  "map_of BRACKETS c = None \<longleftrightarrow> c \<notin> set '')]}''"
  "(ket, c) \<in> set BRACKETS \<Longrightarrow> c \<in> set ''([{''"
  "(c, bra) \<in> set BRACKETS \<Longrightarrow> c \<notin> set ''([{''"
  by (auto simp: BRACKETS_def)

lemma balance_from_closes: "balance_from st s \<Longrightarrow> closes st s"
proof (induction st s rule: balance_from.induct)
  case (1 st)
  then show ?case by (simp add: balanced.empty)
next
  case (2 st c s)
  show ?case
  proof (cases "c \<in> set ''([{''")
    case True
    with 2 have "closes (c # st) s" by simp
    then obtain a ket b where s: "s = a @ ket # b" "balanced a" "(ket, c) \<in> set BRACKETS" "closes st b" by auto
    then have "balanced ((c # a) @ [ket])" using balanced.nested [of ket c a "[]"] balanced.empty by simp
    from closes_prepend [OF this s(4)] s(1) show ?thesis by simp
  next
    case False
    show ?thesis
    proof (cases "map_of BRACKETS c")
      case None
      with False have "balanced [c]" using balanced.plain [of c "[]"] balanced.empty by (simp add: BRACKETS_def split: if_splits)
      moreover have "closes st s" using 2 False None by simp
      ultimately show ?thesis using closes_prepend [of "[c]"] by simp
    next
      case (Some bra)
      with 2 False obtain st' where st: "st = bra # st'" "closes st' s" by (auto split: list.splits if_splits)
      from Some have "(c, bra) \<in> set BRACKETS" by (simp only: bracket_cases)
      then have "c # s = [] @ c # s \<and> balanced [] \<and> (c, bra) \<in> set BRACKETS \<and> closes st' s"
        using st balanced.empty by simp
      with st show ?thesis by (metis closes.simps(2))
    qed
  qed
qed

lemma balanced_skips: "balanced s \<Longrightarrow> balance_from st (s @ t) = balance_from st t"
proof (induction arbitrary: st t rule: balanced.induct)
  case (plain c s)
  then have "c \<notin> set ''([{''" "map_of BRACKETS c = None" by (auto simp: BRACKETS_def)
  with plain show ?case by simp
next
  case (nested ket bra s u)
  then have "map_of BRACKETS ket = Some bra" "ket \<notin> set ''([{''" "bra \<in> set ''([{''"
    using bracket_cases(1,3,4) by blast+
  with nested(4,5) show ?case by simp
qed simp

text \<open>The bracket checker accepts exactly the balanced texts, as the grammar defines them.\<close>

theorem is_balanced_iff: "is_balanced s \<longleftrightarrow> balanced s"
  using balance_from_closes [of "[]" s] balanced_skips [of s "[]" "[]"] by (auto simp: is_balanced_def)

section \<open>09 flatten\<close>

fun flatten :: "json list \<Rightarrow> json list" where
  "flatten [] = []"
| "flatten (JList ys # xs) = flatten ys @ flatten xs"
| "flatten (x # xs) = x # flatten xs"

definition is_list :: "json \<Rightarrow> bool" where
  "is_list v = (case v of JList _ \<Rightarrow> True | _ \<Rightarrow> False)"

lemma flatten_flat: "v \<in> set (flatten xs) \<Longrightarrow> \<not> is_list v"
  by (induction xs rule: flatten.induct) (auto simp: is_list_def)

lemma flatten_id: "(\<And>v. v \<in> set xs \<Longrightarrow> \<not> is_list v) \<Longrightarrow> flatten xs = xs"
proof (induction xs rule: flatten.induct)
  case (2 ys xs)
  then have "\<not> is_list (JList ys)" by simp
  then show ?case by (simp add: is_list_def)
qed auto

lemma flatten_append: "flatten (xs @ ys) = flatten xs @ flatten ys"
  by (induction xs rule: flatten.induct) auto

lemma flatten_idempotent: "flatten (flatten xs) = flatten xs"
  using flatten_flat by (intro flatten_id) auto

section \<open>10 anagram groups\<close>

text \<open>\<open>groups.setdefault(key, []).append(w)\<close>\<close>

definition group_add :: "(string \<times> string list) list \<Rightarrow> string \<Rightarrow> (string \<times> string list) list" where
  "group_add groups w =
     (let key = sort w in AList.update key ((case map_of groups key of None \<Rightarrow> [] | Some g \<Rightarrow> g) @ [w]) groups)"

definition group_anagrams :: "string list \<Rightarrow> string list list" where
  "group_anagrams words = sort (map (sort \<circ> snd) (foldl group_add [] words))"

lemma map_of_group_adds:
  "map_of (foldl group_add groups words) k =
     (if filter (\<lambda>w. sort w = k) words = [] then map_of groups k
      else Some ((case map_of groups k of None \<Rightarrow> [] | Some g \<Rightarrow> g) @ filter (\<lambda>w. sort w = k) words))"
  by (induction words arbitrary: groups)
    (auto simp: group_add_def Let_def update_conv' split: option.splits)

lemma distinct_group_adds:
  "distinct (map fst groups) \<Longrightarrow> distinct (map fst (foldl group_add groups words))"
  by (induction words arbitrary: groups) (auto simp: group_add_def Let_def distinct_update)

lemma sort_eq_iff: "sort v = sort w \<longleftrightarrow> mset v = mset (w :: string)"
  by (metis mset_sort properties_for_sort sorted_sort)

text \<open>
  The groups of the anagram task are the classes of words with the same letters: every group is
  sorted and consists of all occurrences of the words that are anagrams of each other, and every
  word is in a group.
\<close>

theorem anagram_classes:
  "(\<forall>g \<in> set (group_anagrams words). \<exists>w \<in> set words. g = sort (filter (\<lambda>v. mset v = mset w) words))
   \<and> set words = (\<Union>g \<in> set (group_anagrams words). set g) \<and> sorted (group_anagrams words)"
proof -
  let ?gs = "foldl group_add [] words" and ?of = "\<lambda>w. filter (\<lambda>v. mset v = mset w) words"
  have d: "distinct (map fst ?gs)" by (simp add: distinct_group_adds)
  have g: "(k, ws) \<in> set ?gs \<longleftrightarrow> (\<exists>w \<in> set words. k = sort w \<and> ws = ?of w)" for k ws
  proof -
    have "(k, ws) \<in> set ?gs \<longleftrightarrow> filter (\<lambda>w. sort w = k) words \<noteq> [] \<and> ws = filter (\<lambda>w. sort w = k) words"
      unfolding map_of_eq_Some_iff [OF d, symmetric] map_of_group_adds by auto
    also have "\<dots> \<longleftrightarrow> (\<exists>w \<in> set words. k = sort w \<and> ws = ?of w)"
      unfolding sort_eq_iff [symmetric] filter_empty_conv by auto
    finally show ?thesis .
  qed
  have snds: "snd ` set ?gs = ?of ` set words"
  proof (intro set_eqI iffI)
    fix ws
    assume "ws \<in> snd ` set ?gs"
    then show "ws \<in> ?of ` set words" using g by auto
  next
    fix ws
    assume "ws \<in> ?of ` set words"
    then obtain w where "w \<in> set words" "ws = ?of w" by blast
    then have "(sort w, ws) \<in> set ?gs" using g by blast
    then show "ws \<in> snd ` set ?gs" by force
  qed
  have "set (group_anagrams words) = sort ` snd ` set ?gs" by (simp add: group_anagrams_def image_image)
  then have sets: "set (group_anagrams words) = (\<lambda>w. sort (?of w)) ` set words" unfolding snds by (simp add: image_image)
  then show ?thesis unfolding sets by (auto simp: group_anagrams_def)
qed

section \<open>11 LRU cache\<close>

text \<open>The \<open>OrderedDict\<close> is an association list, least recently used first.\<close>

record 'k lru_cache =
  lru_capacity :: int
  lru_data :: "('k \<times> int) list"

definition lru_init :: "int \<Rightarrow> 'k lru_cache" where
  "lru_init capacity = \<lparr>lru_capacity = capacity, lru_data = []\<rparr>"

definition move_to_end :: "'k \<Rightarrow> ('k \<times> int) list \<Rightarrow> ('k \<times> int) list" where
  "move_to_end key d = AList.delete key d @ filter (\<lambda>p. fst p = key) d"

definition lru_get :: "'k \<Rightarrow> 'k lru_cache \<Rightarrow> int \<times> 'k lru_cache" where
  "lru_get key c = (case map_of (lru_data c) key of
       None \<Rightarrow> (-1, c)
     | Some v \<Rightarrow> (v, c\<lparr>lru_data := move_to_end key (lru_data c)\<rparr>))"

definition lru_put :: "'k \<Rightarrow> int \<Rightarrow> 'k lru_cache \<Rightarrow> 'k lru_cache" where
  "lru_put key value c =
     (let d1 = (if key \<in> fst ` set (lru_data c) then move_to_end key (lru_data c) else lru_data c);
          d2 = AList.update key value d1
      in c\<lparr>lru_data := (if lru_capacity c < int (length d2) then drop 1 d2 else d2)\<rparr>)"

text \<open>
  The contract: a list of everything ever put, most recently used first, of which the cache knows the
  first \<open>n\<close> entries.
\<close>

datatype 'k cache_op = Get 'k | Put 'k int

fun recent_step :: "nat \<Rightarrow> 'k cache_op \<Rightarrow> ('k \<times> int) list \<Rightarrow> int list \<times> ('k \<times> int) list" where
  "recent_step n (Get k) L = (case map_of (take n L) k of
       None \<Rightarrow> ([-1], L) | Some v \<Rightarrow> ([v], (k, v) # AList.delete k L))"
| "recent_step n (Put k v) L = ([], (k, v) # AList.delete k L)"

fun lru_step :: "'k cache_op \<Rightarrow> 'k lru_cache \<Rightarrow> int list \<times> 'k lru_cache" where
  "lru_step (Get k) c = (case lru_get k c of (v, c') \<Rightarrow> ([v], c'))"
| "lru_step (Put k v) c = ([], lru_put k v c)"

fun run_ops :: "('o \<Rightarrow> 's \<Rightarrow> int list \<times> 's) \<Rightarrow> 'o list \<Rightarrow> 's \<Rightarrow> int list \<times> 's" where
  "run_ops step [] s = ([], s)"
| "run_ops step (x # xs) s = (case step x s of (out, s') \<Rightarrow> map_prod ((@) out) id (run_ops step xs s'))"

lemma take_delete_in:
  "distinct (map fst L) \<Longrightarrow> k \<in> fst ` set (take n L) \<Longrightarrow> AList.delete k (take n L) = take (n - 1) (AList.delete k L)"
proof (induction L arbitrary: n)
  case (Cons p L)
  show ?case
  proof (cases "fst p = k")
    case True
    with Cons.prems have "k \<notin> fst ` set L" "k \<notin> fst ` set (take (n - 1) L)"
      by (auto dest: in_set_takeD)
    with True show ?thesis by (cases n) (auto simp: delete_id)
  next
    case False
    with Cons.prems obtain m where "n = Suc m" "k \<in> fst ` set (take m L)" by (cases n) auto
    moreover then obtain l where "m = Suc l" by (cases m) auto
    ultimately show ?thesis using Cons False by auto
  qed
qed simp

lemma take_delete_out: "k \<notin> fst ` set (take m L) \<Longrightarrow> take m (AList.delete k L) = take m L"
  by (induction L arbitrary: m) (auto simp: take_Cons split: nat.splits)

definition lru_shows :: "nat \<Rightarrow> 'k lru_cache \<Rightarrow> ('k \<times> int) list \<Rightarrow> bool" where
  "lru_shows n c L \<longleftrightarrow> 0 < n \<and> lru_capacity c = int n \<and> distinct (map fst L) \<and> rev (lru_data c) = take n L"

lemma delete_rev: "AList.delete k (rev d) = rev (AList.delete k d)"
  by (simp add: AList.delete_eq rev_filter)

lemma filter_key: "distinct (map fst d) \<Longrightarrow> map_of d k = Some v \<Longrightarrow> filter (\<lambda>p. fst p = k) d = [(k, v)]"
proof (induction d)
  case (Cons p d)
  show ?case
  proof (cases "fst p = k")
    case True
    with Cons.prems have "filter (\<lambda>p. fst p = k) d = []" by (auto simp: filter_empty_conv image_iff)
    with True Cons.prems show ?thesis by (cases p) auto
  qed (use Cons in auto)
qed simp

lemma move_to_end_rev:
  assumes "distinct (map fst d)" and "map_of d k = Some v"
  shows "rev (move_to_end k d) = (k, v) # AList.delete k (rev d)"
  using filter_key [OF assms] by (simp add: move_to_end_def delete_rev)

lemma map_of_rev_distinct: "distinct (map fst d) \<Longrightarrow> map_of (rev d) = map_of d"
  by (rule map_of_inject_set [THEN iffD2]) (simp_all add: rev_map [symmetric])

lemma update_at_end: "k \<notin> fst ` set d \<Longrightarrow> AList.update k v (d @ [(k, w)]) = d @ [(k, v)]"
  "k \<notin> fst ` set d \<Longrightarrow> AList.update k v d = d @ [(k, v)]"
  by (induction d) auto

lemma lru_step_shows:
  assumes "lru_shows n c L"
  shows "fst (lru_step x c) = fst (recent_step n x L) \<and> lru_shows n (snd (lru_step x c)) (snd (recent_step n x L))"
proof -
  let ?d = "lru_data c"
  have n: "0 < n" "lru_capacity c = int n" and dL: "distinct (map fst L)" and rd: "rev ?d = take n L"
    using assms by (simp_all add: lru_shows_def)
  have "distinct (map fst (take n L))" using dL by (simp add: take_map [symmetric] distinct_take)
  then have dd: "distinct (map fst ?d)" by (metis rd distinct_rev rev_map rev_rev_ident)
  have dL': "distinct (map fst ((k, v) # AList.delete k L))" for k v
    using dL by (simp add: distinct_delete delete_notin_dom)
  have look: "map_of (take n L) k = map_of ?d k" for k
    by (metis rd map_of_rev_distinct [OF dd])
  have front: "(k, v) # AList.delete k (rev ?d) = take n ((k, v) # AList.delete k L)" if "map_of ?d k = Some w" for k v w
  proof -
    have "k \<in> fst ` set (take n L)" using that look by (metis domI dom_map_of_conv_image_fst)
    from take_delete_in [OF dL this] n(1) show ?thesis by (cases n) (simp_all add: rd)
  qed
  show ?thesis
  proof (cases x)
    case (Get k)
    then show ?thesis
      using n dL dL' rd look [of k] front [of k] move_to_end_rev [OF dd, of k]
      by (auto simp: lru_get_def lru_shows_def split: option.splits)
  next
    case (Put k v)
    show ?thesis
    proof (cases "map_of ?d k")
      case None
      then have out: "k \<notin> fst ` set ?d" by (simp add: map_of_eq_None_iff)
      then have "k \<notin> fst ` set (take (n - 1) L)" using rd by (metis diff_le_self set_rev set_take_subset_set_take subsetD image_mono)
      note tk = take_delete_out [OF this]
      have len: "length ?d \<le> n" using rd by (metis length_rev length_take min.cobounded2)
      have "rev (lru_data (lru_put k v c)) = take n ((k, v) # rev ?d)"
      proof (cases "length ?d < n")
        case True
        with out n(2) show ?thesis by (simp add: lru_put_def Let_def update_at_end)
      next
        case False
        with len have "length ?d = n" by simp
        with out n show ?thesis by (cases ?d) (auto simp: lru_put_def Let_def update_at_end)
      qed
      also have "\<dots> = (k, v) # take (n - 1) L" using n(1) rd by (cases n) simp_all
      finally have "rev (lru_data (lru_put k v c)) = take n ((k, v) # AList.delete k L)" using n(1) tk by (cases n) simp_all
      with Put n dL' show ?thesis by (simp add: lru_shows_def lru_put_def Let_def)
    next
      case (Some w)
      have nin: "k \<notin> fst ` set (AList.delete k ?d)" by (rule delete_notin_dom)
      have kin: "k \<in> fst ` set ?d" using Some by (metis domI dom_map_of_conv_image_fst)
      have up: "AList.update k v (move_to_end k ?d) = AList.delete k ?d @ [(k, v)]"
        using update_at_end(1) [OF nin, of v w] filter_key [OF dd Some] by (simp add: move_to_end_def)
      have r: "rev (AList.delete k ?d @ [(k, v)]) = take n ((k, v) # AList.delete k L)"
        using front [OF Some, of v] by (simp add: delete_rev)
      then have "length (AList.delete k ?d @ [(k, v)]) \<le> n" by (metis length_rev length_take min.cobounded2)
      with up r kin Put n dL' show ?thesis by (simp add: lru_shows_def lru_put_def Let_def)
    qed
  qed
qed

text \<open>
  The LRU cache keeps exactly the most recently used keys: for every sequence of operations it
  answers like a list of everything ever put, kept in the order of last use, of which only the first
  \<open>capacity\<close> entries are visible; and these entries are what it holds.
\<close>

theorem lru_keeps_most_recent:
  assumes "0 < n"
  shows "\<exists>L c outs. run_ops (recent_step n) ops [] = (outs, L) \<and> run_ops lru_step ops (lru_init (int n)) = (outs, c)
    \<and> rev (lru_data c) = take n L \<and> distinct (map fst L)"
proof -
  have "lru_shows n c L \<Longrightarrow> fst (run_ops lru_step ops c) = fst (run_ops (recent_step n) ops L)
      \<and> lru_shows n (snd (run_ops lru_step ops c)) (snd (run_ops (recent_step n) ops L))" for c :: "'a lru_cache" and L
  proof (induction ops arbitrary: c L)
    case (Cons x ops)
    obtain o1 c1 o2 L1 where "lru_step x c = (o1, c1)" "recent_step n x L = (o2, L1)" by fastforce
    with lru_step_shows [OF Cons.prems, of x] Cons.IH [of c1 L1] show ?case by (auto simp: map_prod_def split: prod.splits)
  qed simp
  from this [of "lru_init (int n)" "[]"] assms show ?thesis
    by (cases "run_ops lru_step ops (lru_init (int n) :: 'a lru_cache)"; cases "run_ops (recent_step n) ops []")
      (auto simp: lru_shows_def lru_init_def)
qed

theorem lru_keeps_most_recent_witness:
  "let ops = [Put ''a'' 1, Put ''b'' 2, Get ''a'', Put ''c'' 3]
   in \<exists>L c outs. run_ops (recent_step 2) ops [] = (outs, L) \<and> run_ops lru_step ops (lru_init 2) = (outs, c)
      \<and> rev (lru_data c) = take 2 L"
  using lru_keeps_most_recent [of 2 "[Put ''a'' 1, Put ''b'' 2, Get ''a'', Put ''c'' 3]"] by auto

section \<open>13 fewest coins\<close>

text \<open>Amounts and coins are natural numbers, as the task states; \<open>c <= a\<close> keeps the index in range.\<close>

definition coin_step :: "nat \<Rightarrow> nat \<Rightarrow> nat list \<Rightarrow> nat list" where
  "coin_step a c best =
     (if c \<le> a \<and> best ! (a - c) + 1 < best ! a then best[a := best ! (a - c) + 1] else best)"

definition coin_table :: "nat list \<Rightarrow> nat \<Rightarrow> nat list" where
  "coin_table coins amount = foldl (\<lambda>best a. foldl (\<lambda>best c. coin_step a c best) best coins)
     (0 # replicate amount (amount + 1)) [1..<Suc amount]"

definition min_coins :: "nat list \<Rightarrow> nat \<Rightarrow> int" where
  "min_coins coins amount = (let b = coin_table coins amount ! amount in
     if b \<noteq> amount + 1 then int b else -1)"

text \<open>\<open>k\<close> coins of the given kinds pay \<open>a\<close>.\<close>

definition pays :: "nat list \<Rightarrow> nat \<Rightarrow> nat \<Rightarrow> bool" where
  "pays coins a k \<longleftrightarrow> (\<exists>cs. set cs \<subseteq> set coins \<and> sum_list cs = a \<and> length cs = k)"

text \<open>The table entry of an amount: the fewest coins, or the bound \<open>inf\<close> when no payment exists.\<close>

definition fewest :: "nat list \<Rightarrow> nat \<Rightarrow> nat \<Rightarrow> nat \<Rightarrow> bool" where
  "fewest coins bnd a n \<longleftrightarrow> (pays coins a n \<and> n < bnd \<or> n = bnd) \<and> (\<forall>k. pays coins a k \<longrightarrow> n \<le> k)"

lemma pays_Suc: "pays coins a (Suc k) \<longleftrightarrow> (\<exists>c \<in> set coins. c \<le> a \<and> pays coins (a - c) k)"
proof
  assume "pays coins a (Suc k)"
  then obtain c cs where "set (c # cs) \<subseteq> set coins" "sum_list (c # cs) = a" "length cs = k"
    by (auto simp: pays_def length_Suc_conv)
  then show "\<exists>c \<in> set coins. c \<le> a \<and> pays coins (a - c) k"
    unfolding pays_def by (intro bexI [of _ c] conjI exI [of _ cs]) auto
next
  assume "\<exists>c \<in> set coins. c \<le> a \<and> pays coins (a - c) k"
  then obtain c cs where "c \<in> set coins" "c \<le> a" "set cs \<subseteq> set coins" "sum_list cs = a - c" "length cs = k"
    by (auto simp: pays_def)
  then show "pays coins a (Suc k)" unfolding pays_def by (intro exI [of _ "c # cs"]) auto
qed

lemma pays_0: "pays coins a 0 \<longleftrightarrow> a = 0"
  by (auto simp: pays_def)

text \<open>With positive coins no payment is longer than its amount, so \<open>inf\<close> is out of reach.\<close>

lemma pays_le: "0 \<notin> set coins \<Longrightarrow> pays coins a k \<Longrightarrow> k \<le> a"
proof (induction k arbitrary: a)
  case (Suc k)
  then obtain c where "c \<in> set coins" "c \<le> a" "pays coins (a - c) k" by (auto simp: pays_Suc)
  moreover have "0 < c" using \<open>c \<in> set coins\<close> Suc.prems(1) by (metis gr0I)
  ultimately show ?case using Suc.IH [OF Suc.prems(1), of "a - c"] by simp
qed simp

lemma coin_row:
  assumes "a < length best" and "0 \<notin> set done_coins"
  shows "let best' = foldl (\<lambda>best c. coin_step a c best) best done_coins in length best' = length best
    \<and> (\<forall>b. b \<noteq> a \<longrightarrow> best' ! b = best ! b) \<and> best' ! a \<le> best ! a
    \<and> (\<forall>c \<in> set done_coins. c \<le> a \<longrightarrow> best' ! a \<le> best ! (a - c) + 1)
    \<and> (best' ! a = best ! a \<or> (\<exists>c \<in> set done_coins. c \<le> a \<and> best' ! a = best ! (a - c) + 1))"
  using assms(2)
proof (induction done_coins rule: rev_induct)
  case (snoc c cs)
  have pos: "0 < c" using snoc.prems by (auto intro: gr0I)
  let ?b = "foldl (\<lambda>best c. coin_step a c best) best cs"
  have IH: "length ?b = length best" "\<And>b. b \<noteq> a \<Longrightarrow> ?b ! b = best ! b" "?b ! a \<le> best ! a"
    "\<And>c. c \<in> set cs \<Longrightarrow> c \<le> a \<Longrightarrow> ?b ! a \<le> best ! (a - c) + 1"
    "?b ! a = best ! a \<or> (\<exists>c \<in> set cs. c \<le> a \<and> ?b ! a = best ! (a - c) + 1)"
    using snoc by (auto simp: Let_def)
  show ?case
  proof (cases "c \<le> a \<and> ?b ! (a - c) + 1 < ?b ! a")
    case True
    define n where "n = best ! (a - c) + 1"
    have n: "?b ! (a - c) + 1 = n" using IH(2) [of "a - c"] True pos by (auto simp: n_def)
    then have new: "foldl (\<lambda>best c. coin_step a c best) best (cs @ [c]) = ?b[a := n]" and less: "n < ?b ! a"
      using True by (simp_all add: coin_step_def)
    have "n \<le> best ! (a - x) + 1" if "x \<in> set cs" "x \<le> a" for x using IH(4) [OF that] less by simp
    moreover have "n \<le> best ! a" using IH(3) less by simp
    moreover have "?b[a := n] ! a = n" using IH(1) assms(1) by simp
    ultimately show ?thesis using IH(1,2) True unfolding new by (auto simp: n_def Let_def)
  next
    case False
    then have new: "foldl (\<lambda>best c. coin_step a c best) best (cs @ [c]) = ?b" by (auto simp: coin_step_def)
    have "c \<le> a \<longrightarrow> ?b ! a \<le> best ! (a - c) + 1" using False IH(2) [of "a - c"] pos by auto
    with IH show ?thesis unfolding new by (auto simp: Let_def)
  qed
qed simp

lemma coin_entry:
  assumes "\<And>b. b < a \<Longrightarrow> fewest coins bnd b (best ! b)" and "0 \<notin> set coins" and "0 < a" and "a < bnd"
    and "best ! a = bnd" and "n \<le> best ! a" and "\<And>c. c \<in> set coins \<Longrightarrow> c \<le> a \<Longrightarrow> n \<le> best ! (a - c) + 1"
    and "n = best ! a \<or> (\<exists>c \<in> set coins. c \<le> a \<and> n = best ! (a - c) + 1)"
  shows "fewest coins bnd a n"
proof -
  have pos: "0 < c" if "c \<in> set coins" for c using that assms(2) by (metis gr0I)
  have "n \<le> k" if "pays coins a k" for k
  proof (cases k)
    case 0
    with that assms(3) show ?thesis by (simp add: pays_0)
  next
    case (Suc k')
    with that obtain c where c: "c \<in> set coins" "c \<le> a" "pays coins (a - c) k'" by (auto simp: pays_Suc)
    with assms(1) [of "a - c"] pos [OF c(1)] assms(3) have "best ! (a - c) \<le> k'" by (auto simp: fewest_def)
    with assms(7) [OF c(1,2)] Suc show ?thesis by simp
  qed
  moreover have "pays coins a n \<and> n < bnd \<or> n = bnd"
  proof (cases "n = bnd")
    case False
    with assms(5,8) obtain c where c: "c \<in> set coins" "c \<le> a" "n = best ! (a - c) + 1" by auto
    with assms(1) [of "a - c"] assms(3,5,6) pos [OF c(1)] have "pays coins (a - c) (best ! (a - c))"
      by (auto simp: fewest_def)
    with c have p: "pays coins a n" by (auto simp: pays_Suc)
    with pays_le [OF assms(2) p] assms(4) show ?thesis by simp
  qed simp
  ultimately show ?thesis by (simp add: fewest_def)
qed

lemma coin_table_ok:
  assumes "0 \<notin> set coins"
  shows "a \<le> amount \<Longrightarrow> fewest coins (amount + 1) a (coin_table coins amount ! a)"
proof -
  let ?row = "\<lambda>best a. foldl (\<lambda>best c. coin_step a c best) best coins"
  let ?t = "\<lambda>m. foldl ?row (0 # replicate amount (amount + 1)) [1..<Suc m]"
  have "m \<le> amount \<Longrightarrow> length (?t m) = amount + 1 \<and> (\<forall>b \<le> m. fewest coins (amount + 1) b (?t m ! b))
      \<and> (\<forall>b. m < b \<longrightarrow> b \<le> amount \<longrightarrow> ?t m ! b = amount + 1)" for m
  proof (induction m)
    case 0
    then show ?case by (auto simp: fewest_def pays_0 nth_Cons')
  next
    case (Suc m)
    define T R where "T = ?t m" and "R = ?row T (Suc m)"
    have IH: "length T = amount + 1" "\<And>b. b \<le> m \<Longrightarrow> fewest coins (amount + 1) b (T ! b)"
      "\<And>b. m < b \<Longrightarrow> b \<le> amount \<Longrightarrow> T ! b = amount + 1" using Suc by (simp_all add: T_def)
    have step: "?t (Suc m) = R" by (simp add: R_def T_def)
    have len: "Suc m < length T" using Suc.prems IH(1) by simp
    have row: "length R = length T" "\<And>b. b \<noteq> Suc m \<Longrightarrow> R ! b = T ! b" "R ! Suc m \<le> T ! Suc m"
      "\<And>c. c \<in> set coins \<Longrightarrow> c \<le> Suc m \<Longrightarrow> R ! Suc m \<le> T ! (Suc m - c) + 1"
      "R ! Suc m = T ! Suc m \<or> (\<exists>c \<in> set coins. c \<le> Suc m \<and> R ! Suc m = T ! (Suc m - c) + 1)"
      using coin_row [OF len assms] unfolding R_def Let_def by blast+
    have "fewest coins (amount + 1) (Suc m) (R ! Suc m)"
    proof (rule coin_entry [OF _ assms _ _ _ row(3-5)])
      show "b < Suc m \<Longrightarrow> fewest coins (amount + 1) b (T ! b)" for b using IH(2) by simp
      show "T ! Suc m = amount + 1" using IH(3) Suc.prems by simp
    qed (use Suc.prems in simp_all)
    then show ?case unfolding step using row(1,2) IH Suc.prems by (metis le_Suc_eq Suc_lessD less_irrefl)
  qed
  from this [of amount] show "a \<le> amount \<Longrightarrow> fewest coins (amount + 1) a (coin_table coins amount ! a)"
    by (simp add: coin_table_def)
qed

text \<open>
  The coin task's dynamic program is optimal: with positive coins it returns the fewest coins that
  pay the amount, and \<open>-1\<close> exactly when no selection of coins pays it.
\<close>

theorem min_coins_optimal:
  assumes "0 \<notin> set coins"
  shows "min_coins coins amount =
    (if \<exists>k. pays coins amount k then int (LEAST k. pays coins amount k) else -1)"
proof -
  let ?n = "coin_table coins amount ! amount"
  have f: "fewest coins (amount + 1) amount ?n" using coin_table_ok [OF assms] by simp
  show ?thesis
  proof (cases "?n = amount + 1")
    case True
    with f have "\<not> pays coins amount k" for k using pays_le [OF assms, of amount k] by (fastforce simp: fewest_def)
    with True show ?thesis by (simp add: min_coins_def)
  next
    case False
    with f have p: "pays coins amount ?n" "\<forall>k. pays coins amount k \<longrightarrow> ?n \<le> k" by (auto simp: fewest_def)
    then have "(LEAST k. pays coins amount k) = ?n" by (blast intro: Least_equality)
    with p(1) False show ?thesis by (auto simp: min_coins_def Let_def)
  qed
qed

theorem min_coins_optimal_witness:
  "min_coins [1, 3, 4] 6 = (if \<exists>k. pays [1, 3, 4] 6 k then int (LEAST k. pays [1, 3, 4] 6 k) else -1)"
  by (rule min_coins_optimal) simp

section \<open>14 merged intervals\<close>

text \<open>\<open>out\<close> is kept in reverse, so that its last interval is the head.\<close>

definition merge_step :: "(int \<times> int) list \<Rightarrow> int \<times> int \<Rightarrow> (int \<times> int) list" where
  "merge_step out p = (case p of (s, e) \<Rightarrow> (case out of
       (s0, e0) # rest \<Rightarrow> if s \<le> e0 then (s0, max e0 e) # rest else (s, e) # out
     | [] \<Rightarrow> [(s, e)]))"

definition merge_intervals :: "(int \<times> int) list \<Rightarrow> (int \<times> int) list" where
  "merge_intervals intervals = rev (foldl merge_step [] (sort intervals))"

definition covered :: "(int \<times> int) list \<Rightarrow> int set" where
  "covered ivs = (\<Union>(s, e) \<in> set ivs. {s..e})"

lemma merge_step_simps:
  "merge_step [] (s, e) = [(s, e)]"
  "merge_step ((s0, e0) # rest) (s, e) = (if s \<le> e0 then (s0, max e0 e) # rest else (s, e) # (s0, e0) # rest)"
  by (simp_all add: merge_step_def)

definition apart :: "(int \<times> int) list \<Rightarrow> bool" where
  "apart ivs \<longleftrightarrow> sorted_wrt (\<lambda>(s, e) (s', e'). e < s') ivs"

lemma merge_steps:
  assumes "\<And>s e. (s, e) \<in> set ivs \<Longrightarrow> s \<le> e" and "sorted (map fst ivs)" and "apart (rev out)"
    and "out = [] \<or> (fst (hd out) \<le> snd (hd out) \<and> (\<forall>s \<in> fst ` set ivs. fst (hd out) \<le> s))"
  shows "covered (foldl merge_step out ivs) = covered out \<union> covered ivs \<and> apart (rev (foldl merge_step out ivs))"
  using assms
proof (induction ivs arbitrary: out)
  case (Cons p ivs)
  obtain s e where p: "p = (s, e)" by fastforce
  have se: "s \<le> e" using Cons.prems(1) p by auto
  have srt: "sorted (map fst ivs)" "\<forall>x \<in> fst ` set ivs. s \<le> x" using Cons.prems(2) p by auto
  have IH: "covered (foldl merge_step o1 ivs) = covered o1 \<union> covered ivs \<and> apart (rev (foldl merge_step o1 ivs))"
    if "apart (rev o1)" "o1 = (s1, e1) # o2" "s1 \<le> e1" "s1 \<le> s" for o1 s1 e1 o2
    using Cons.IH [of o1] Cons.prems(1) srt that by force
  show ?case
  proof (cases out)
    case Nil
    then show ?thesis using IH [of "[(s, e)]" s e] se p by (auto simp: merge_step_simps apart_def covered_def)
  next
    case (Cons q rest)
    then obtain s0 e0 where q: "q = (s0, e0)" by fastforce
    have h: "s0 \<le> e0" "s0 \<le> s" "apart (rev ((s0, e0) # rest))" using Cons.prems Cons p q by auto
    show ?thesis
    proof (cases "s \<le> e0")
      case True
      have "apart (rev ((s0, max e0 e) # rest))" using h(3) by (auto simp: apart_def sorted_wrt_append)
      moreover have "{s0..max e0 e} = {s0..e0} \<union> {s..e}" using True h se by auto
      ultimately show ?thesis
        using IH [of "(s0, max e0 e) # rest" s0 "max e0 e" rest] True h Cons p q
        by (auto simp: merge_step_simps covered_def)
    next
      case False
      then have "apart (rev ((s, e) # (s0, e0) # rest))"
        using h by (force simp: apart_def sorted_wrt_append)
      then show ?thesis
        using IH [of "(s, e) # (s0, e0) # rest" s e] False se Cons p q
        by (auto simp: merge_step_simps covered_def)
    qed
  qed
qed (simp add: covered_def)

text \<open>
  Merging intervals loses and adds nothing and leaves nothing to merge: the merged intervals cover
  exactly the numbers the given ones cover, in increasing order and with a gap after each.
\<close>

theorem merge_intervals_correct:
  assumes "list_all (\<lambda>(s, e). s \<le> e) ivs"
  shows "covered (merge_intervals ivs) = covered ivs \<and> apart (merge_intervals ivs)"
proof -
  have "sorted (map fst (sort ivs))"
    unfolding sorted_map by (rule sorted_wrt_mono_rel [OF _ sorted_sort]) (auto simp: less_eq_prod_def)
  with merge_steps [of "sort ivs" "[]"] assms show ?thesis
    by (auto simp: merge_intervals_def list_all_iff apart_def covered_def)
qed

theorem merge_intervals_correct_witness:
  "covered (merge_intervals [(8, 10), (1, 3), (2, 6)]) = covered [(8, 10), (1, 3), (2, 6)]"
  using merge_intervals_correct [of "[(8, 10), (1, 3), (2, 6)]"] by simp

section \<open>15 top k\<close>

text \<open>\<open>xs[:k]\<close>: a negative \<open>k\<close> counts from the end.\<close>

definition py_prefix :: "int \<Rightarrow> 'a list \<Rightarrow> 'a list" where
  "py_prefix k xs = (if 0 \<le> k then take (nat k) xs else take (length xs - nat (- k)) xs)"

definition top_k_frequent :: "string list \<Rightarrow> int \<Rightarrow> string list" where
  "top_k_frequent words k =
     (let counts = foldl count_up [] words in
      py_prefix k (sort_key (\<lambda>w. (- the (map_of counts w), w)) (map fst counts)))"

lemma counts_keys: "set (map fst (foldl count_up [] words)) = set words"
proof -
  have "map_of (foldl count_up [] words) w = None \<longleftrightarrow> w \<notin> set words" for w
    using count_up_all [of "[]" words w] by auto
  then have "w \<in> fst ` set (foldl count_up [] words) \<longleftrightarrow> w \<in> set words" for w
    unfolding map_of_eq_None_iff by blast
  then show ?thesis by auto
qed

text \<open>
  The answer is a prefix of the distinct words in the order of falling frequency, equally frequent ones
  alphabetically.
\<close>

lemma top_k_ranked:
  "\<exists>ranked. top_k_frequent words k = py_prefix k ranked \<and> set ranked = set words \<and> distinct ranked
     \<and> sorted_wrt (\<lambda>v w. count_list words v > count_list words w \<or> count_list words v = count_list words w \<and> v < w) ranked"
proof -
  let ?counts = "foldl count_up [] words"
  let ?key = "\<lambda>w. (- the (map_of ?counts w), w)"
  let ?ranked = "sort_key ?key (map fst ?counts)"
  have s: "set ?ranked = set words" using counts_keys by simp
  have d: "distinct ?ranked" by (simp add: distinct_count_ups)
  have "sorted_wrt (\<lambda>v w. ?key v \<le> ?key w) ?ranked" using sorted_sort_key [of ?key "map fst ?counts"] by (simp only: sorted_map)
  then have "sorted_wrt (\<lambda>v w. ?key v \<le> ?key w \<and> v \<noteq> w) ?ranked"
    using d by (auto simp: sorted_wrt_iff_nth_less distinct_conv_nth)
  then have "sorted_wrt (\<lambda>v w. count_list words v > count_list words w \<or> count_list words v = count_list words w \<and> v < w) ?ranked"
  proof (rule sorted_wrt_mono_rel [rotated])
    fix v w
    assume "v \<in> set ?ranked" "w \<in> set ?ranked" and le: "?key v \<le> ?key w \<and> v \<noteq> w"
    then have "v \<in> set words" "w \<in> set words" using s by simp_all
    then show "count_list words v > count_list words w \<or> count_list words v = count_list words w \<and> v < w"
      using le by (auto simp: count_up_all less_eq_prod_def)
  qed
  with s d show ?thesis by (auto simp: top_k_frequent_def Let_def)
qed

text \<open>A concrete input of the anagram task.\<close>

theorem anagram_classes_witness:
  "set [''tea'', ''tan'', ''ate''] = (\<Union>g \<in> set (group_anagrams [''tea'', ''tan'', ''ate'']). set g)
   \<and> sorted (group_anagrams [''tea'', ''tan'', ''ate''])"
  using anagram_classes [of "[''tea'', ''tan'', ''ate'']"] by blast

section \<open>The hidden tests\<close>

text \<open>
  The asserts of the tasks' \<open>test.py\<close>. Left out are the large instance of the coin task and the check
  that \<open>merge_intervals\<close> does not change its argument (a HOL function cannot).
\<close>

definition test_fizzbuzz :: bool where
  "test_fizzbuzz \<longleftrightarrow> fizzbuzz 0 = [] \<and> fizzbuzz 5 = [''1'', ''2'', ''Fizz'', ''4'', ''Buzz'']
     \<and> last (fizzbuzz 15) = ''FizzBuzz'' \<and> length (fizzbuzz 100) = 100"

definition test_palindrome :: bool where
  "test_palindrome \<longleftrightarrow> is_palindrome ''A man, a plan, a canal: Panama'' \<and> \<not> is_palindrome ''race a car''
     \<and> is_palindrome '''' \<and> is_palindrome (''No '' @ [CHR 0x27] @ ''x'' @ [CHR 0x27] @ '' in Nixon'') \<and> \<not> is_palindrome ''ab''"

definition test_sum_evens :: bool where
  "test_sum_evens \<longleftrightarrow> sum_evens [] = 0 \<and> sum_evens [1, 2, 3, 4] = 6 \<and> sum_evens [-2, -3] = -2 \<and> sum_evens [1, 3] = 0"

definition test_reverse_words :: bool where
  "test_reverse_words \<longleftrightarrow> reverse_words ''hello world'' = ''world hello'' \<and> reverse_words ''  a   b  c '' = ''c b a''
     \<and> reverse_words '''' = '''' \<and> reverse_words ''one'' = ''one''"

definition test_word_count :: bool where
  "test_word_count \<longleftrightarrow> map_of (word_count ''The cat and the hat.'') = map_of [(''the'', 2), (''cat'', 1), (''and'', 1), (''hat'', 1)]
     \<and> map_of (word_count (''It'' @ [CHR 0x27] @ ''s'')) = map_of [(''it'', 1), (''s'', 1)]
     \<and> word_count '''' = [] \<and> map_of (word_count ''a A a'') = map_of [(''a'', 3)]"

definition test_two_sum :: bool where
  "test_two_sum \<longleftrightarrow> two_sum [2, 7, 11, 15] 9 = Some (0, 1) \<and> two_sum [3, 2, 4] 6 = Some (1, 2)
     \<and> two_sum [3, 3] 6 = Some (0, 1) \<and> two_sum [1, 2] 10 = None \<and> two_sum [1, 2, 3, 4] 5 = Some (0, 3)"

definition test_roman :: bool where
  "test_roman \<longleftrightarrow> to_roman 1 = ''I'' \<and> to_roman 4 = ''IV'' \<and> to_roman 9 = ''IX'' \<and> to_roman 58 = ''LVIII''
     \<and> to_roman 1994 = ''MCMXCIV'' \<and> to_roman 3999 = ''MMMCMXCIX''"

definition test_balanced :: bool where
  "test_balanced \<longleftrightarrow> is_balanced '''' \<and> is_balanced ''()[]{}'' \<and> \<not> is_balanced ''(]'' \<and> is_balanced ''([{}])''
     \<and> \<not> is_balanced ''((('' \<and> is_balanced ''a(b)c'' \<and> \<not> is_balanced '')(''"

definition test_flatten :: bool where
  "test_flatten \<longleftrightarrow> flatten [JInt 1, JList [JInt 2, JList [JInt 3, JList [JInt 4]], JInt 5]] = [JInt 1, JInt 2, JInt 3, JInt 4, JInt 5]
     \<and> flatten [] = [] \<and> flatten [JList [], JList [JList []]] = []
     \<and> flatten [JStr ''ab'', JList [JStr ''c'']] = [JStr ''ab'', JStr ''c'']"

definition test_anagrams :: bool where
  "test_anagrams \<longleftrightarrow> group_anagrams [''eat'', ''tea'', ''tan'', ''ate'', ''nat'', ''bat'']
       = [[''ate'', ''eat'', ''tea''], [''bat''], [''nat'', ''tan'']]
     \<and> group_anagrams [] = [] \<and> group_anagrams [''''] = [['''']] \<and> group_anagrams [''a'', ''a''] = [[''a'', ''a'']]"

definition test_lru :: bool where
  "test_lru \<longleftrightarrow> fst (run_ops lru_step [Put 1 1, Put 2 2, Get (1::int), Put 3 3, Get 2, Put 4 4, Get 1, Get 3, Get 4] (lru_init 2))
       = [1, -1, -1, 3, 4]
     \<and> fst (run_ops lru_step [Put 1 1, Put 1 2, Get (1::int)] (lru_init 1)) = [2]
     \<and> fst (run_ops lru_step [Put 1 1, Put 2 2, Put 1 10, Put 3 3, Get (2::int), Get 1] (lru_init 2)) = [-1, 10]"

definition test_min_coins :: bool where
  "test_min_coins \<longleftrightarrow> min_coins [1, 2, 5] 11 = 3 \<and> min_coins [2] 3 = -1 \<and> min_coins [1] 0 = 0 \<and> min_coins [1, 3, 4] 6 = 2"

definition test_merge_intervals :: "((int \<times> int) list \<Rightarrow> (int \<times> int) list) \<Rightarrow> bool" where
  "test_merge_intervals f \<longleftrightarrow> f [(1, 3), (2, 6), (8, 10), (15, 18)] = [(1, 6), (8, 10), (15, 18)]
     \<and> f [(1, 4), (4, 5)] = [(1, 5)] \<and> f [] = []
     \<and> f [(5, 6), (1, 2)] = [(1, 2), (5, 6)] \<and> f [(1, 10), (2, 3)] = [(1, 10)]"

definition test_top_k :: bool where
  "test_top_k \<longleftrightarrow> top_k_frequent [''i'', ''love'', ''leetcode'', ''i'', ''love'', ''coding''] 2 = [''i'', ''love'']
     \<and> top_k_frequent [''the'', ''day'', ''is'', ''sunny'', ''the'', ''the'', ''the'', ''sunny'', ''is'', ''is''] 4
        = [''the'', ''is'', ''sunny'', ''day'']
     \<and> top_k_frequent [] 3 = [] \<and> top_k_frequent [''a'', ''b''] 5 = [''a'', ''b''] \<and> top_k_frequent [''b'', ''a''] 1 = [''a'']"

lemma tests_01_05: "test_fizzbuzz" "test_palindrome" "test_sum_evens" "test_reverse_words"
  by code_simp+

lemma tests_06_10: "test_two_sum" "test_roman" "test_balanced" "test_flatten" "test_anagrams"
  by code_simp+

lemma tests_11_15: "test_lru" "test_min_coins" "test_merge_intervals merge_intervals" "test_top_k"
  by code_simp+

lemma test_05: "test_word_count"
proof -
  have "word_count ''The cat and the hat.'' = [(''the'', 2), (''cat'', 1), (''and'', 1), (''hat'', 1)]"
    "word_count (''It'' @ [CHR 0x27] @ ''s'') = [(''it'', 1), (''s'', 1)]"
    "word_count '''' = []" "word_count ''a A a'' = [(''a'', 3)]"
    by code_simp+
  then show ?thesis by (simp only: test_word_count_def simp_thms)
qed

text \<open>
  The scripted agents of two tasks submit \<open>wrong_solution.py\<close>. That of the interval task compares with
  \<open><\<close>, so touching intervals stay apart; the hidden test rejects it.
\<close>

definition wrong_merge_step :: "(int \<times> int) list \<Rightarrow> int \<times> int \<Rightarrow> (int \<times> int) list" where
  "wrong_merge_step out p = (case p of (s, e) \<Rightarrow> (case out of
       (s0, e0) # rest \<Rightarrow> if s < e0 then (s0, max e0 e) # rest else (s, e) # out
     | [] \<Rightarrow> [(s, e)]))"

definition wrong_merge_intervals :: "(int \<times> int) list \<Rightarrow> (int \<times> int) list" where
  "wrong_merge_intervals intervals = rev (foldl wrong_merge_step [] (sort intervals))"

lemma wrong_merge_rejected: "\<not> test_merge_intervals wrong_merge_intervals"
  by code_simp

end
