(* ===== verification/ChallengeText.thy ===== *)
theory ChallengeText
  imports Solutions
begin

text \<open>
  The reference solutions of the challenge tasks on text, numbers and dates (\<open>C01_rle_chunked\<close>,
  \<open>C02_semver_sort\<close>, \<open>C03_nth_weekday\<close>, \<open>C04_wrap_text\<close>, \<open>C08_get_path\<close>, \<open>C09_convert_base\<close> under
  \<open>evals/challenge\<close>), each with what makes it right and the asserts of its hidden test.
\<close>

section \<open>C01 run-length encoding in chunks\<close>

text \<open>\<open>str.isdigit\<close> also accepts the superscript digits of Latin-1, which \<open>int\<close> refuses.\<close>

definition py_isdigit :: "char \<Rightarrow> bool" where
  "py_isdigit c \<longleftrightarrow> is_digit c \<or> (of_char c :: nat) \<in> {178, 179, 185}"

fun rle_chunks :: "char \<Rightarrow> nat \<Rightarrow> string" where
  "rle_chunks c n = (if n = 0 then ''''
     else (let k = min n 9 in (c # (if 1 < k then str_nat k else '''')) @ rle_chunks c (n - k)))"

declare rle_chunks.simps [simp del]

function rle_encode :: "string \<Rightarrow> string" where
  "rle_encode [] = ''''"
| "rle_encode (c # s) =
     rle_chunks c (Suc (length (takeWhile (\<lambda>x. x = c) s))) @ rle_encode (dropWhile (\<lambda>x. x = c) s)"
  by pat_completeness auto
termination by (relation "measure length") (auto simp: length_dropWhile_le less_Suc_eq_le)

fun rle_decode :: "string \<Rightarrow> string result" where
  "rle_decode [] = Inr ''''"
| "rle_decode [c] = Inr [c]"
| "rle_decode (c # d # t) =
     (if py_isdigit d then
        (if is_digit d then bind_result (rle_decode t) (\<lambda>r. Inr (replicate (digit_val d) c @ r))
         else Inl (ValueError ''invalid literal for int()''))
      else bind_result (rle_decode (d # t)) (\<lambda>r. Inr (c # r)))"

lemma decode_plain:
  "t = [] \<or> \<not> py_isdigit (hd t) \<Longrightarrow> rle_decode (c # t) = bind_result (rle_decode t) (\<lambda>r. Inr (c # r))"
  by (cases t) auto

lemma chunks_head: "0 < n \<Longrightarrow> rle_chunks c n \<noteq> [] \<and> hd (rle_chunks c n) = c"
  by (simp add: rle_chunks.simps [of c n] Let_def)

lemma chunks_0 [simp]: "rle_chunks c 0 = []"
  by (simp add: rle_chunks.simps)

lemma encode_head: "s \<noteq> [] \<Longrightarrow> rle_encode s \<noteq> [] \<and> hd (rle_encode s) = hd s"
  by (cases s) (auto simp: rle_chunks.simps [of _ "Suc _"] Let_def)

lemma encode_no_digit: "list_all (\<lambda>c. \<not> py_isdigit c) r \<Longrightarrow> rle_encode r = [] \<or> \<not> py_isdigit (hd (rle_encode r))"
  using encode_head [of r] by (cases "r = []") (auto simp: list_all_iff)

lemma decode_chunks:
  assumes "t = [] \<or> \<not> py_isdigit (hd t)" and "\<not> py_isdigit c" and "rle_decode t = Inr r"
  shows "rle_decode (rle_chunks c n @ t) = Inr (replicate n c @ r)"
proof (induction n rule: less_induct)
  case (less n)
  show ?case
  proof (cases "n = 0")
    case False
    let ?k = "min n 9"
    have IH: "rle_decode (rle_chunks c (n - ?k) @ t) = Inr (replicate (n - ?k) c @ r)"
      using less [of "n - ?k"] False by simp
    have rep: "replicate ?k c @ replicate (n - ?k) c = replicate n c" by (simp add: replicate_add [symmetric])
    show ?thesis
    proof (cases "1 < ?k")
      case True
      have "str_nat ?k = [digit_char ?k]" by (subst str_nat.simps) (simp add: min_def)
      with True False IH rep show ?thesis
        by (simp add: rle_chunks.simps [of c n] Let_def py_isdigit_def append_assoc [symmetric] del: append_assoc)
    next
      case one: False
      then have "n = 1" using False by (simp add: min_def split: if_splits)
      with assms(1,3) show ?thesis by (simp add: rle_chunks.simps [of c "Suc 0"] Let_def decode_plain)
    qed
  qed (simp add: rle_chunks.simps [of c 0] assms(3))
qed

lemma chunks_short: "length (rle_chunks c n) \<le> 2 * n"
proof (induction n rule: less_induct)
  case (less n)
  show ?case
  proof (cases "n = 0")
    case False
    let ?k = "min n 9"
    have "length (rle_chunks c (n - ?k)) \<le> 2 * (n - ?k)" using less [of "n - ?k"] False by simp
    moreover have "length (if 1 < ?k then str_nat ?k else '''') \<le> 1"
      by (subst str_nat.simps) (simp add: min_def)
    ultimately show ?thesis using False by (simp add: rle_chunks.simps [of c n] Let_def)
  qed (simp add: rle_chunks.simps [of c 0])
qed

text \<open>
  Decoding undoes encoding: a text without digits is restored exactly, whatever the lengths of its
  runs, and its code is never longer than twice the text.
\<close>

theorem rle_roundtrip:
  assumes "list_all (\<lambda>c. \<not> py_isdigit c) s"
  shows "rle_decode (rle_encode s) = Inr s \<and> length (rle_encode s) \<le> 2 * length s"
  using assms
proof (induction s rule: rle_encode.induct)
  case (2 c s)
  let ?n = "length (takeWhile (\<lambda>x. x = c) s)" and ?rest = "dropWhile (\<lambda>x. x = c) s"
  have run: "takeWhile (\<lambda>x. x = c) s = replicate ?n c"
    by (metis (mono_tags, lifting) replicate_length_same set_takeWhileD)
  have s: "replicate ?n c @ ?rest = s" using run takeWhile_dropWhile_id [of "\<lambda>x. x = c" s] by simp
  have rest: "list_all (\<lambda>c. \<not> py_isdigit c) ?rest" using 2(2) by (auto simp: list_all_iff dest: set_dropWhileD)
  from decode_chunks [OF encode_no_digit [OF rest], of c ?rest "Suc ?n"] 2(1) [OF rest] 2(2) s
  have "rle_decode (rle_encode (c # s)) = Inr (c # s)" by simp
  moreover have "length s = ?n + length ?rest" using arg_cong [OF s, of length] by simp
  ultimately show ?case using 2(1) [OF rest] chunks_short [of c "Suc ?n"] by simp
qed simp

theorem rle_roundtrip_witness: "rle_decode (rle_encode ''aaaaaaaaaaaab'') = Inr ''aaaaaaaaaaaab''"
  using rle_roundtrip [of "''aaaaaaaaaaaab''"] by (simp add: py_isdigit_def is_digit_def del: rle_encode.simps)

section \<open>C02 semantic versions\<close>

text \<open>\<open>int(x)\<close> of the digits of a number, with a sign; \<open>v.split("+", 1)[0]\<close> and \<open>v.partition("-")\<close> are \<open>partition_at\<close>.\<close>

definition text_int :: "string \<Rightarrow> int result" where
  "text_int s = (case parse_int s of None \<Rightarrow> Inl (ValueError s) | Some i \<Rightarrow> Inr i)"

type_synonym semver_order = "int list \<times> int \<times> (int \<times> int \<times> string) list"

definition semver_id :: "string \<Rightarrow> (int \<times> int \<times> string) result" where
  "semver_id p = (if p \<noteq> [] \<and> list_all py_isdigit p then bind_result (text_int p) (\<lambda>n. Inr (0, n, ''''))
     else Inr (1, 0, p))"

definition semver_key :: "string \<Rightarrow> semver_order result" where
  "semver_key v0 =
     (let v = fst (partition_at (CHR ''+'') v0); (core, pre) = partition_at (CHR ''-'') v in
      bind_result (map_result text_int (split_char (CHR ''.'') core)) (\<lambda>nums.
        if pre = [] then Inr (nums, 1, [])
        else bind_result (map_result semver_id (split_char (CHR ''.'') pre)) (\<lambda>ids. Inr (nums, 0, ids))))"

definition sort_versions :: "string list \<Rightarrow> string list result" where
  "sort_versions versions = bind_result (map_result semver_key versions) (\<lambda>keys.
     Inr (map fst (sort_key snd (zip versions keys))))"

text \<open>The result is the same versions in the order of their keys; equal ones keep their order.\<close>

lemma sort_versions_sorted:
  assumes "sort_versions vs = Inr res"
  shows "mset res = mset vs \<and> sorted (map (\<lambda>v. projr (semver_key v)) res)"
proof -
  let ?key = "\<lambda>v. projr (semver_key v)"
  obtain keys where keys: "map_result semver_key vs = Inr keys" "res = map fst (sort_key snd (zip vs keys))"
    using assms by (auto simp: sort_versions_def bind_result_Inr_iff)
  have all: "list_all2 (\<lambda>v k. semver_key v = Inr k) vs keys" by (rule map_result_InrD [OF keys(1)])
  then have len: "length vs = length keys" by (rule list_all2_lengthD)
  have key: "?key (fst p) = snd p" if "p \<in> set (zip vs keys)" for p
    using that all by (force simp: list_all2_iff)
  have "map ?key res = map snd (sort_key snd (zip vs keys))" using key by (auto simp: keys(2))
  then have "sorted (map ?key res)" by simp
  moreover have "mset res = mset (map fst (zip vs keys))" unfolding keys(2) mset_map by simp
  ultimately show ?thesis using len by simp
qed

text \<open>A pre-release comes before its release.\<close>

lemma prerelease_first:
  "semver_key v = Inr (nums, 0, ids) \<Longrightarrow> semver_key w = Inr (nums, 1, ids') \<Longrightarrow> (nums, 0, ids) < (nums, 1 :: int, ids')"
  by (simp add: less_prod_def)

definition test_semver :: bool where
  "test_semver \<longleftrightarrow>
     (let ordered = [''1.0.0-alpha'', ''1.0.0-alpha.1'', ''1.0.0-alpha.beta'', ''1.0.0-beta'', ''1.0.0-beta.2'',
        ''1.0.0-beta.11'', ''1.0.0-rc.1'', ''1.0.0''] in sort_versions (rev ordered) = Inr ordered)
   \<and> sort_versions [''1.10.0'', ''1.9.0'', ''1.2.10'', ''1.2.9''] = Inr [''1.2.9'', ''1.2.10'', ''1.9.0'', ''1.10.0'']
   \<and> sort_versions [''1.0.0+b'', ''1.0.0+a'', ''1.0.0''] = Inr [''1.0.0+b'', ''1.0.0+a'', ''1.0.0'']
   \<and> sort_versions [''2.0.0'', ''1.9.9+zzz'', ''1.9.9-rc.1+abc''] = Inr [''1.9.9-rc.1+abc'', ''1.9.9+zzz'', ''2.0.0'']
   \<and> sort_versions [''1.0.0-1'', ''1.0.0-a''] = Inr [''1.0.0-1'', ''1.0.0-a''] \<and> sort_versions [] = Inr []"

lemma test_semver: test_semver
  by code_simp

section \<open>C03 the n-th weekday of a month\<close>

text \<open>The calendar of the standard library: the proleptic Gregorian calendar, Monday is 0.\<close>

definition is_leap :: "int \<Rightarrow> bool" where
  "is_leap y \<longleftrightarrow> y mod 4 = 0 \<and> (y mod 100 \<noteq> 0 \<or> y mod 400 = 0)"

definition days_in_month :: "int \<Rightarrow> int \<Rightarrow> int" where
  "days_in_month y m = (if m = 2 then (if is_leap y then 29 else 28) else if m \<in> {4, 6, 9, 11} then 30 else 31)"

definition days_before :: "int \<Rightarrow> int \<Rightarrow> int" where
  "days_before y m = (y - 1) * 365 + (y - 1) div 4 - (y - 1) div 100 + (y - 1) div 400
     + sum_list (map (days_in_month y) [1..m - 1])"

definition weekday :: "int \<Rightarrow> int \<Rightarrow> int \<Rightarrow> int" where
  "weekday y m d = (days_before y m + d + 6) mod 7"

definition zero_pad :: "nat \<Rightarrow> int \<Rightarrow> string" where
  "zero_pad w n = (let s = str_int n in replicate (w - length s) (CHR ''0'') @ s)"

definition isoformat :: "int \<Rightarrow> int \<Rightarrow> int \<Rightarrow> string" where
  "isoformat y m d = zero_pad 4 y @ ''-'' @ zero_pad 2 m @ ''-'' @ zero_pad 2 d"

text \<open>\<open>monthrange\<close> refuses a month, \<open>date\<close> a year out of range; \<open>days[n]\<close> counts a negative \<open>n\<close> from the end.\<close>

definition matching_days :: "int \<Rightarrow> int \<Rightarrow> int \<Rightarrow> int list" where
  "matching_days year month wd = filter (\<lambda>d. weekday year month d = wd) [1..days_in_month year month]"

lemma matching_days_code [code]:
  "matching_days year month wd =
     (let b = days_before year month + 6 in filter (\<lambda>d. (b + d) mod 7 = wd) [1..days_in_month year month])"
  by (simp add: matching_days_def weekday_def Let_def algebra_simps)

definition nth_day :: "int \<Rightarrow> int \<Rightarrow> int \<Rightarrow> int \<Rightarrow> int result" where
  "nth_day year month n wd =
     (if month < 1 \<or> 12 < month \<or> year < 1 \<or> 9999 < year then Inl (ValueError ''out of range'')
      else (let days = matching_days year month wd in
        if n = 0 \<or> int (length days) < \<bar>n\<bar> then Inl (ValueError ''no such day'')
        else Inr (if 0 < n then days ! nat (n - 1) else days ! (length days - nat (- n)))))"

definition nth_weekday :: "int \<Rightarrow> int \<Rightarrow> int \<Rightarrow> int \<Rightarrow> string result" where
  "nth_weekday year month n wd = bind_result (nth_day year month n wd) (\<lambda>d. Inr (isoformat year month d))"

text \<open>
  The day found falls on the weekday, and it is the \<open>n\<close>-th one: exactly \<open>n - 1\<close> such days come before it,
  or \<open>-n - 1\<close> after it.
\<close>

lemma matching_sorted: "sorted_wrt (<) (matching_days y m wd)"
  by (auto simp: matching_days_def intro: sorted_wrt_filter)

lemma nth_day_position:
  assumes "nth_day year month n wd = Inr d"
  shows "1 \<le> d \<and> d \<le> days_in_month year month \<and> weekday year month d = wd
    \<and> (if 0 < n then int (length (filter (\<lambda>x. x < d) (matching_days year month wd))) = n - 1
       else int (length (filter (\<lambda>x. d < x) (matching_days year month wd))) = - n - 1)"
proof -
  let ?days = "matching_days year month wd"
  define k where "k = (if 0 < n then nat (n - 1) else length ?days - nat (- n))"
  have n: "n \<noteq> 0" "\<bar>n\<bar> \<le> int (length ?days)" and d: "d = ?days ! k"
    using assms by (auto simp: nth_day_def Let_def k_def split: if_splits)
  then have k: "k < length ?days" by (auto simp: k_def)
  then have "d \<in> set ?days" unfolding d by (rule nth_mem)
  then have mem: "1 \<le> d \<and> d \<le> days_in_month year month \<and> weekday year month d = wd" by (simp add: matching_days_def)
  have split: "?days = take k ?days @ d # drop (Suc k) ?days" using k d by (simp add: id_take_nth_drop)
  have "sorted_wrt (<) (take k ?days @ d # drop (Suc k) ?days)" using matching_sorted [of year month wd] split by metis
  then have ord: "\<forall>x \<in> set (take k ?days). x < d" "\<forall>x \<in> set (drop (Suc k) ?days). d < x"
    by (auto simp: sorted_wrt_append)
  have "filter (\<lambda>x. x < d) ?days = take k ?days" "filter (\<lambda>x. d < x) ?days = drop (Suc k) ?days"
    by (subst split, use ord in \<open>force simp: filter_id_conv filter_empty_conv\<close>)+
  with k n mem show ?thesis by (auto simp: k_def)
qed

definition test_nth_weekday :: bool where
  "test_nth_weekday \<longleftrightarrow> nth_weekday 2024 11 4 3 = Inr ''2024-11-28'' \<and> nth_weekday 2024 5 (-1) 0 = Inr ''2024-05-27''
     \<and> nth_weekday 2024 9 1 6 = Inr ''2024-09-01'' \<and> nth_weekday 2024 2 5 3 = Inr ''2024-02-29''
     \<and> nth_weekday 2024 2 (-1) 3 = Inr ''2024-02-29'' \<and> nth_weekday 2024 2 (-2) 3 = Inr ''2024-02-22''
     \<and> nth_weekday 2023 1 1 6 = Inr ''2023-01-01'' \<and> nth_weekday 2023 12 (-1) 6 = Inr ''2023-12-31''
     \<and> list_all (\<lambda>r. r = Inl (ValueError ''no such day''))
         [nth_weekday 2023 2 5 1, nth_weekday 2024 5 0 0, nth_weekday 2024 5 (-6) 0, nth_weekday 2024 5 6 0]"

lemma nth_weekday_tests:
  "nth_weekday 2024 11 4 3 = Inr ''2024-11-28''" "nth_weekday 2024 5 (-1) 0 = Inr ''2024-05-27''"
  "nth_weekday 2024 9 1 6 = Inr ''2024-09-01''" "nth_weekday 2024 2 5 3 = Inr ''2024-02-29''"
  by code_simp+

lemma nth_weekday_tests_negative:
  "nth_weekday 2024 2 (-1) 3 = Inr ''2024-02-29''" "nth_weekday 2024 2 (-2) 3 = Inr ''2024-02-22''"
  "nth_weekday 2023 1 1 6 = Inr ''2023-01-01''" "nth_weekday 2023 12 (-1) 6 = Inr ''2023-12-31''"
  by code_simp+

lemma nth_weekday_tests_none:
  "nth_weekday 2023 2 5 1 = Inl (ValueError ''no such day'')" "nth_weekday 2024 5 0 0 = Inl (ValueError ''no such day'')"
  "nth_weekday 2024 5 (-6) 0 = Inl (ValueError ''no such day'')" "nth_weekday 2024 5 6 0 = Inl (ValueError ''no such day'')"
  by code_simp+

lemma test_nth_weekday: test_nth_weekday
  by (simp only: test_nth_weekday_def nth_weekday_tests nth_weekday_tests_negative nth_weekday_tests_none list.pred_inject simp_thms)

section \<open>C09 base conversion\<close>

definition DIGITS :: string where
  "DIGITS = ''0123456789abcdefghijklmnopqrstuvwxyz''"

text \<open>\<open>DIGITS.find(c)\<close>: the position, or \<open>-1\<close>.\<close>

definition digit_find :: "char \<Rightarrow> int" where
  "digit_find c = (let k = length (takeWhile (\<lambda>x. x \<noteq> c) DIGITS) in if k < length DIGITS then int k else -1)"

fun read_digits :: "int \<Rightarrow> string \<Rightarrow> int \<Rightarrow> int result" where
  "read_digits base [] value = Inr value"
| "read_digits base (c # s) value =
     (let d = digit_find c in
      if d < 0 \<or> base \<le> d then Inl (ValueError ''bad digit'') else read_digits base s (value * base + d))"

text \<open>The loop \<open>while value\<close>; it collects the digits from the last one on, which ends for a base above 1.\<close>

function show_digits :: "int \<Rightarrow> int \<Rightarrow> string" where
  "show_digits base value =
     (if value \<le> 0 \<or> base < 2 then ''''
      else show_digits base (value div base) @ [DIGITS ! nat (value mod base)])"
  by pat_completeness auto
termination
proof (relation "measure (\<lambda>(base, n). nat n)")
  show "\<not> (n \<le> 0 \<or> base < 2) \<Longrightarrow> ((base, n div base), base, n) \<in> measure (\<lambda>(base, n). nat n)" for base n :: int
    by (simp add: int_div_less_self)
qed simp

declare show_digits.simps [simp del]

definition convert :: "string \<Rightarrow> int \<Rightarrow> int \<Rightarrow> string result" where
  "convert s from_base to_base =
     (if \<not> (2 \<le> from_base \<and> from_base \<le> 36 \<and> 2 \<le> to_base \<and> to_base \<le> 36) then Inl (ValueError ''bad base'')
      else (let neg = starts_with ''-'' s; body = (if neg then drop 1 s else s) in
        if body = [] then Inl (ValueError ''empty'')
        else bind_result (read_digits from_base (map lower_char body) 0) (\<lambda>value.
          if value = 0 then Inr ''0''
          else Inr ((if neg then ''-'' else '''') @ show_digits to_base value))))"

text \<open>The number a text denotes in a base: a sign and lower- or uppercase digits.\<close>

definition denotes :: "int \<Rightarrow> string \<Rightarrow> int \<Rightarrow> bool" where
  "denotes base s n \<longleftrightarrow> (\<exists>v. (if starts_with ''-'' s then n = - v else n = v)
     \<and> (let body = (if starts_with ''-'' s then drop 1 s else s) in body \<noteq> [] \<and> read_digits base (map lower_char body) 0 = Inr v))"

lemma digit_find_nth: "k < 36 \<Longrightarrow> digit_find (DIGITS ! k) = int k \<and> lower_char (DIGITS ! k) = DIGITS ! k \<and> CHR ''-'' \<noteq> DIGITS ! k"
proof -
  have "list_all (\<lambda>k. digit_find (DIGITS ! k) = int k \<and> lower_char (DIGITS ! k) = DIGITS ! k \<and> CHR ''-'' \<noteq> DIGITS ! k) [0..<36]"
    by code_simp
  then show "k < 36 \<Longrightarrow> ?thesis" by (simp add: list_all_iff)
qed

lemma read_digits_append:
  "read_digits base (s @ t) v = bind_result (read_digits base s v) (\<lambda>w. read_digits base t w)"
  by (induction base s v rule: read_digits.induct) (auto simp: Let_def)

lemma read_show:
  assumes "2 \<le> base" and "base \<le> 36" and "0 < v"
  shows "read_digits base (show_digits base v) 0 = Inr v \<and> map lower_char (show_digits base v) = show_digits base v
    \<and> show_digits base v \<noteq> [] \<and> CHR ''-'' \<notin> set (show_digits base v) \<and> hd (show_digits base v) \<noteq> CHR ''0''"
  using assms(3)
proof (induction "nat v" arbitrary: v rule: less_induct)
  case less
  let ?q = "v div base" and ?r = "v mod base"
  have "0 \<le> ?r" "?r < base" using assms(1) by simp_all
  then have r: "0 \<le> ?r" "?r < base" "nat ?r < 36" using assms(2) by linarith+
  note digit = digit_find_nth [OF r(3)]
  have step: "show_digits base v = show_digits base ?q @ [DIGITS ! nat ?r]"
    using less.prems assms(1) by (subst show_digits.simps) simp
  have last: "read_digits base [DIGITS ! nat ?r] ?q = Inr v"
    using digit r by (simp add: Let_def)
  show ?case
  proof (cases "?q = 0")
    case True
    then have "show_digits base ?q = []" by (subst show_digits.simps) simp
    moreover have "?r \<noteq> 0" using True less.prems by (metis add_cancel_right_left div_mult_mod_eq less_irrefl mult_zero_left)
    then have "DIGITS ! nat ?r \<noteq> CHR ''0''" using digit r(1) by (auto simp: digit_find_def DIGITS_def)
    ultimately show ?thesis using step last digit True by auto
  next
    case False
    then have "0 < ?q" using less.prems assms(1) by (simp add: pos_imp_zdiv_nonneg_iff order_less_le)
    moreover have "nat ?q < nat v" using less.prems assms(1) by (simp add: int_div_less_self)
    ultimately show ?thesis using less.hyps [of ?q] step last digit by (simp add: read_digits_append)
  qed
qed

text \<open>
  Base conversion changes the notation and not the number: the text \<open>convert\<close> returns denotes in the
  target base the number that the given text denotes in its own, sign included, and it has no leading
  zero; only zero is written \<open>0\<close>, without a sign.
\<close>

theorem convert_same_number:
  assumes "convert s a b = Inr t"
  shows "\<exists>n. denotes a s n \<and> denotes b t n \<and> (if n = 0 then t = ''0'' else hd (if n < 0 then drop 1 t else t) \<noteq> CHR ''0'')"
proof -
  let ?neg = "starts_with ''-'' s" and ?body = "\<lambda>s. if starts_with ''-'' s then drop 1 s else s"
  from assms obtain v where b: "2 \<le> b" "b \<le> 36" "?body s \<noteq> []" "read_digits a (map lower_char (?body s)) 0 = Inr v"
    and t: "t = (if v = 0 then ''0'' else (if ?neg then ''-'' else '''') @ show_digits b v)"
    by (auto simp: convert_def Let_def bind_result_Inr_iff split: if_splits)
  have s: "denotes a s (if ?neg then - v else v)" using b(3,4) by (auto simp: denotes_def Let_def)
  have "0 \<le> w \<Longrightarrow> read_digits a x w = Inr u \<Longrightarrow> 0 \<le> u" for x w u
    by (induction a x w rule: read_digits.induct) (auto simp: Let_def split: if_splits)
  from this [OF _ b(4)] have v: "0 \<le> v" by simp
  show ?thesis
  proof (cases "v = 0")
    case True
    have "read_digits b ''0'' 0 = Inr 0" using digit_find_nth [of 0] b(1) by (simp add: DIGITS_def)
    then have "denotes b ''0'' 0" by (auto simp: denotes_def starts_with_def lower_char_def)
    moreover have "denotes a s 0" using s True by (cases ?neg) simp_all
    ultimately show ?thesis using t True by (auto intro!: exI [of _ 0])
  next
    case False
    let ?n = "if ?neg then - v else v"
    have "0 < v" using v False by simp
    note shown = read_show [OF b(1,2) this]
    have "\<not> starts_with ''-'' (show_digits b v)" using shown by (cases "show_digits b v") (auto simp: starts_with_def)
    with shown t False have "denotes b t ?n" by (auto simp: denotes_def Let_def starts_with_def)
    moreover have "hd (if ?n < 0 then drop 1 t else t) \<noteq> CHR ''0''" using shown t False \<open>0 < v\<close> by auto
    ultimately show ?thesis using s False by (intro exI [of _ ?n]) auto
  qed
qed

theorem convert_same_number_witness: "convert ''-FF'' 16 10 = Inr ''-255'' \<and> (\<exists>n. denotes 16 ''-FF'' n \<and> denotes 10 ''-255'' n)"
proof -
  have "convert ''-FF'' 16 10 = Inr ''-255''" by code_simp
  from convert_same_number [OF this] this show ?thesis by blast
qed

definition test_convert :: bool where
  "test_convert \<longleftrightarrow> convert ''ff'' 16 2 = Inr ''11111111'' \<and> convert ''FF'' 16 10 = Inr ''255''
     \<and> convert ''-255'' 10 16 = Inr ''-ff'' \<and> convert ''0'' 2 10 = Inr ''0'' \<and> convert ''-0'' 10 2 = Inr ''0''
     \<and> convert ''000'' 10 7 = Inr ''0'' \<and> convert ''z'' 36 10 = Inr ''35'' \<and> convert ''0012'' 10 10 = Inr ''12''
     \<and> convert ''10'' 2 36 = Inr ''2''
     \<and> list_all isl [convert '''' 10 2, convert ''-'' 10 2, convert ''2'' 2 10, convert ''1_0'' 10 2, convert '' 10'' 10 2,
          convert ''10 '' 10 2, convert ''+1'' 10 2, convert ''1.0'' 10 2, convert ''g'' 16 10, convert ''--1'' 10 2,
          convert ''1'' 1 10, convert ''1'' 10 37]"

lemma test_convert: test_convert
  by code_simp

section \<open>C04 wrapping text\<close>

definition py_suffix :: "int \<Rightarrow> 'a list \<Rightarrow> 'a list" where
  "py_suffix k xs = (if 0 \<le> k then drop (nat k) xs else drop (length xs - nat (- k)) xs)"

text \<open>With a width below 1 the loop that cuts a long word never ends.\<close>

partial_function (option) cut_word :: "int \<Rightarrow> string \<Rightarrow> string list \<Rightarrow> (string list \<times> string) option" where
  "cut_word width w lines =
     (if width < int (length w) then cut_word width (py_suffix width w) (lines @ [py_prefix width w])
      else Some (lines, w))"

definition wrap_word :: "int \<Rightarrow> string \<Rightarrow> string list \<times> string \<Rightarrow> (string list \<times> string) option" where
  "wrap_word width w st = (case st of (lines, cur) \<Rightarrow>
     if width < int (length w) then cut_word width w (if cur \<noteq> [] then lines @ [cur] else lines)
     else if cur = [] then Some (lines, w)
     else if int (length cur) + 1 + int (length w) \<le> width then Some (lines, cur @ '' '' @ w)
     else Some (lines @ [cur], w))"

fun wrap_words :: "int \<Rightarrow> string list \<Rightarrow> string list \<times> string \<Rightarrow> (string list \<times> string) option" where
  "wrap_words width [] st = Some st"
| "wrap_words width (w # ws) st = (case wrap_word width w st of None \<Rightarrow> None | Some st' \<Rightarrow> wrap_words width ws st')"

definition wrap_text :: "string \<Rightarrow> int \<Rightarrow> string list option" where
  "wrap_text t width = map_option (\<lambda>(lines, cur). if cur \<noteq> [] then lines @ [cur] else lines)
     (wrap_words width (split_words t) ([], ''''))"

declare cut_word.simps [code]

definition line_ok :: "int \<Rightarrow> string \<Rightarrow> bool" where
  "line_ok width l \<longleftrightarrow> l \<noteq> [] \<and> int (length l) \<le> width \<and> \<not> is_space (hd l) \<and> \<not> is_space (last l)"

abbreviation no_spaces :: "string \<Rightarrow> string" where
  "no_spaces s \<equiv> filter (\<lambda>c. \<not> is_space c) s"

text \<open>The lines written so far and the current one hold exactly the characters of the words read.\<close>

definition wrapped :: "int \<Rightarrow> string \<Rightarrow> string list \<times> string \<Rightarrow> bool" where
  "wrapped width seen st \<longleftrightarrow> (case st of (lines, cur) \<Rightarrow>
     list_all (line_ok width) lines \<and> (cur = [] \<or> line_ok width cur) \<and> no_spaces (concat lines @ cur) = seen)"

lemma solid_line: "w \<noteq> [] \<Longrightarrow> \<forall>c \<in> set w. \<not> is_space c \<Longrightarrow> int (length w) \<le> width \<Longrightarrow> line_ok width w"
  by (simp add: line_ok_def)

lemma cut_word_wrapped:
  assumes "1 \<le> width" and "w \<noteq> []" and "\<forall>c \<in> set w. \<not> is_space c" and "wrapped width seen (lines, [])"
  shows "\<exists>st. cut_word width w lines = Some st \<and> wrapped width (seen @ w) st"
  using assms(2-4)
proof (induction "length w" arbitrary: w lines seen rule: less_induct)
  case less
  have all: "no_spaces w = w" using less.prems(2) by (simp add: filter_id_conv)
  show ?case
  proof (cases "width < int (length w)")
    case False
    with less.prems all show ?thesis
      by (subst cut_word.simps) (auto simp: wrapped_def intro: solid_line)
  next
    case True
    let ?a = "take (nat width) w" and ?b = "drop (nat width) w"
    have parts: "?a \<noteq> []" "?b \<noteq> []" "length ?b < length w" using True assms(1) less.prems(1) by auto
    have solid: "\<forall>c \<in> set ?a. \<not> is_space c" "\<forall>c \<in> set ?b. \<not> is_space c"
      using less.prems(2) by (auto dest: in_set_takeD in_set_dropD)
    have "wrapped width (seen @ ?a) (lines @ [?a], [])"
      using less.prems(3) solid_line [OF parts(1) solid(1), of width] solid(1) assms(1)
      by (simp add: wrapped_def filter_id_conv)
    from less.hyps [OF parts(3,2) solid(2) this] True assms(1) show ?thesis
      by (subst cut_word.simps) (simp add: py_prefix_def py_suffix_def)
  qed
qed

lemma wrap_word_wrapped:
  assumes "1 \<le> width" and "w \<noteq> []" and "\<forall>c \<in> set w. \<not> is_space c" and "wrapped width seen st"
  shows "\<exists>st'. wrap_word width w st = Some st' \<and> wrapped width (seen @ w) st'"
proof -
  obtain lines cur where st: "st = (lines, cur)" by fastforce
  have all: "no_spaces w = w" using assms(3) by (simp add: filter_id_conv)
  show ?thesis
  proof (cases "width < int (length w)")
    case True
    have "wrapped width seen (if cur \<noteq> [] then lines @ [cur] else lines, [])"
      using assms(4) by (auto simp: st wrapped_def)
    from cut_word_wrapped [OF assms(1-3) this] True show ?thesis by (simp add: wrap_word_def st)
  next
    case False
    then have w: "line_ok width w" using solid_line [OF assms(2,3)] by simp
    have inv: "list_all (line_ok width) lines" "cur = [] \<or> line_ok width cur" "no_spaces (concat lines @ cur) = seen"
      using assms(4) by (simp_all add: wrapped_def st)
    consider "cur = []" | "cur \<noteq> []" "int (length cur) + 1 + int (length w) \<le> width"
      | "cur \<noteq> []" "\<not> int (length cur) + 1 + int (length w) \<le> width" by blast
    then show ?thesis
    proof cases
      case 1
      with False w inv all show ?thesis by (simp add: wrap_word_def wrapped_def st)
    next
      case 2
      have "is_space (CHR '' '')" by (simp add: is_space_def)
      moreover have "line_ok width (cur @ '' '' @ w)"
        using 2 inv(2) w assms(2) by (simp add: line_ok_def)
      ultimately show ?thesis using False 2 inv all by (simp add: wrap_word_def wrapped_def st)
    next
      case 3
      with False w inv all show ?thesis by (simp add: wrap_word_def wrapped_def st)
    qed
  qed
qed

text \<open>
  Wrapping loses no text and keeps the width: for every width of at least 1 the function returns,
  every line is non-empty, at most \<open>width\<close> long and without spaces at its ends, and the lines hold the
  words' characters, all of them and in order.
\<close>

theorem wrap_text_correct:
  assumes "1 \<le> width"
  shows "\<exists>lines. wrap_text t width = Some lines \<and> list_all (line_ok width) lines \<and> no_spaces (concat lines) = no_spaces t"
proof -
  have "\<exists>st'. wrap_words width ws st = Some st' \<and> wrapped width (seen @ concat ws) st'"
    if "\<And>w. w \<in> set ws \<Longrightarrow> w \<noteq> [] \<and> (\<forall>c \<in> set w. \<not> is_space c)" and "wrapped width seen st" for ws st seen
    using that
  proof (induction ws arbitrary: st seen)
    case (Cons w ws)
    obtain st1 where st1: "wrap_word width w st = Some st1" "wrapped width (seen @ w) st1"
      using wrap_word_wrapped [OF assms, of w seen st] Cons.prems by auto
    from Cons.IH [OF _ st1(2)] Cons.prems(1) st1(1) show ?case by auto
  qed simp
  moreover have "wrapped width [] ([], '''')" by (simp add: wrapped_def)
  ultimately obtain lines cur where w: "wrap_words width (split_words t) ([], '''') = Some (lines, cur)"
    "wrapped width (concat (split_words t)) (lines, cur)"
    using split_words_ok by (metis append_Nil surj_pair)
  moreover have "concat (split_words t) = no_spaces t" by (simp add: split_words_def concat_runs_of)
  ultimately show ?thesis by (auto simp: wrap_text_def wrapped_def)
qed

theorem wrap_text_correct_witness:
  "\<exists>lines. wrap_text ''hi supercalifragilistic yo'' 6 = Some lines \<and> list_all (line_ok 6) lines"
  using wrap_text_correct [of 6 "''hi supercalifragilistic yo''"] by auto

definition test_wrap :: bool where
  "test_wrap \<longleftrightarrow> wrap_text ''the quick brown fox'' 10 = Some [''the quick'', ''brown fox'']
     \<and> wrap_text ''a b c'' 1 = Some [''a'', ''b'', ''c'']
     \<and> wrap_text ''supercalifragilistic'' 5 = Some [''super'', ''calif'', ''ragil'', ''istic'']
     \<and> wrap_text ''hi supercalifragilistic yo'' 6 = Some [''hi'', ''superc'', ''alifra'', ''gilist'', ''ic yo'']
     \<and> wrap_text '''' 5 = Some [] \<and> wrap_text (''   '' @ [CHR 0x0A] @ '' '') 5 = Some []
     \<and> wrap_text ''  spaced   out  '' 7 = Some [''spaced'', ''out''] \<and> wrap_text ''ab cd'' 5 = Some [''ab cd'']
     \<and> wrap_text ''ab cd'' 4 = Some [''ab'', ''cd''] \<and> wrap_text ''abcdef gh'' 3 = Some [''abc'', ''def'', ''gh'']
     \<and> wrap_text ''abcdefg h'' 3 = Some [''abc'', ''def'', ''g h'']"

lemma test_wrap: test_wrap
  by code_simp

section \<open>C08 paths into a JSON value\<close>

datatype path_token = Key string | Index int

definition flush :: "string \<Rightarrow> path_token list" where
  "flush buf = (if buf \<noteq> [] then [Key buf] else [])"

text \<open>The index into the path is the rest of the text; \<open>path.index("]", i)\<close> raises when there is none.\<close>

function parse_path :: "string \<Rightarrow> string \<Rightarrow> path_token list result" where
  "parse_path [] buf = Inr (flush buf)"
| "parse_path (c # s) buf =
     (if c = CHR 0x5C \<and> s \<noteq> [] \<and> hd s = CHR ''.'' then parse_path (tl s) (buf @ ''.'')
      else if c = CHR ''.'' then bind_result (parse_path s '''') (\<lambda>ts. Inr (flush buf @ ts))
      else if c = CHR ''['' then
        (if CHR '']'' \<notin> set s then Inl (ValueError ''substring not found'')
         else bind_result (text_int (takeWhile (\<lambda>x. x \<noteq> CHR '']'') s)) (\<lambda>i.
              bind_result (parse_path (tl (dropWhile (\<lambda>x. x \<noteq> CHR '']'') s)) '''') (\<lambda>ts.
                Inr (flush buf @ Index i # ts))))
      else parse_path s (buf @ [c]))"
  by pat_completeness auto
termination
proof (relation "measure (\<lambda>(s, buf). length s)")
  fix c :: char and s buf :: string and i
  have "length (dropWhile (\<lambda>x. x \<noteq> CHR '']'') s) \<le> length s" by (rule length_dropWhile_le)
  then show "((tl (dropWhile (\<lambda>x. x \<noteq> CHR '']'') s), ''''), c # s, buf) \<in> measure (\<lambda>(s, buf). length s)" by simp
qed simp_all

text \<open>One step of the walk: \<open>None\<close> is the early return of the default.\<close>

definition walk_step :: "json \<Rightarrow> path_token \<Rightarrow> json option" where
  "walk_step cur t = (case t of
       Index i \<Rightarrow> (case cur of
           JList xs \<Rightarrow> if - int (length xs) \<le> i \<and> i < int (length xs)
             then Some (if 0 \<le> i then xs ! nat i else xs ! (length xs - nat (- i))) else None
         | _ \<Rightarrow> None)
     | Key k \<Rightarrow> (case cur of JObj d \<Rightarrow> map_of d k | _ \<Rightarrow> None))"

fun walk :: "json \<Rightarrow> path_token list \<Rightarrow> json \<Rightarrow> json" where
  "walk cur [] dflt = cur"
| "walk cur (t # ts) dflt = (case walk_step cur t of None \<Rightarrow> dflt | Some v \<Rightarrow> walk v ts dflt)"

definition get_path :: "json \<Rightarrow> string \<Rightarrow> json \<Rightarrow> json result" where
  "get_path obj path dflt = bind_result (parse_path path '''') (\<lambda>ts. Inr (walk obj ts dflt))"

text \<open>Writing tokens as a path: keys after a dot with their own dots escaped, indices in brackets.\<close>

fun escape :: "string \<Rightarrow> string" where
  "escape [] = []"
| "escape (c # s) = (if c = CHR ''.'' then [CHR 0x5C, CHR ''.''] else [c]) @ escape s"

fun token_text :: "path_token \<Rightarrow> string" where
  "token_text (Key k) = ''.'' @ escape k"
| "token_text (Index i) = ''['' @ str_int i @ '']''"

text \<open>A key the notation can express: not empty, without brackets and backslashes.\<close>

fun expressible :: "path_token \<Rightarrow> bool" where
  "expressible (Key k) = (k \<noteq> [] \<and> CHR ''['' \<notin> set k \<and> CHR 0x5C \<notin> set k)"
| "expressible (Index i) = True"

lemma parse_int_str_int [simp]: "parse_int (str_int i) = Some i"
proof -
  have d: "list_all is_digit (str_nat n)" for n by (simp add: list_all_iff str_nat_digits)
  then have "split_sign (str_nat n) = (False, str_nat n)" for n
    using d [of n] by (cases "str_nat n") (auto simp: split_sign_def is_digit_def)
  with d show ?thesis by (simp add: parse_int_def split_sign_def [of "_ # _"] str_int_def all_digits_def)
qed

lemma str_int_no_bracket: "CHR '']'' \<notin> set (str_int i)"
  using str_nat_digits [of "CHR '']''"] by (auto simp: str_int_def is_digit_def)

lemma parse_escaped:
  "CHR ''['' \<notin> set k \<Longrightarrow> CHR 0x5C \<notin> set k \<Longrightarrow> parse_path (escape k @ s) buf = parse_path s (buf @ k)"
  by (induction k arbitrary: buf) auto

lemma parse_tokens:
  "list_all expressible ts \<Longrightarrow> parse_path (concat (map token_text ts)) buf = Inr (flush buf @ ts)"
proof (induction ts arbitrary: buf)
  case (Cons t ts)
  show ?case
  proof (cases t)
    case (Key k)
    with Cons show ?thesis by (simp add: parse_escaped) (simp add: flush_def)
  next
    case (Index i)
    have "takeWhile (\<lambda>x. x \<noteq> CHR '']'') (str_int i @ CHR '']'' # s) = str_int i"
      "dropWhile (\<lambda>x. x \<noteq> CHR '']'') (str_int i @ CHR '']'' # s) = CHR '']'' # s" for s
      using str_int_no_bracket [of i] by (auto simp: takeWhile_eq_all_conv takeWhile_append dropWhile_append)
    with Index Cons show ?thesis by (simp add: text_int_def) (simp add: flush_def)
  qed
qed simp

text \<open>
  Paths are read back as they are meant: a path written from keys (with escaped dots) and indices
  is parsed to exactly these, so \<open>get_path\<close> returns what following them step by step gives.
\<close>

theorem get_path_follows:
  assumes "list_all expressible ts"
  shows "get_path obj (concat (map token_text ts)) dflt = Inr (walk obj ts dflt)"
  using parse_tokens [OF assms, of "''''"] by (simp add: get_path_def flush_def)

theorem get_path_follows_witness:
  "get_path (JObj [(''a.b'', JList [JInt 1, JStr ''x''])]) (concat (map token_text [Key ''a.b'', Index (-1)])) JNull = Inr (JStr ''x'')"
  using get_path_follows [of "[Key ''a.b'', Index (-1)]"] by (simp add: walk_step_def)

text \<open>The hidden test of C08 (test.py).\<close>

definition path_doc :: json where
  "path_doc = JObj
    [(''a'', JObj [(''b'', JList [JInt 10, JObj [(''c'', JStr ''deep'')], JInt 30])]), (''a.b'', JStr ''dotted''),
     (''n'', JNull), (''z'', JInt 0), (''l'', JList [JList [JInt 1, JInt 2], JList [JInt 3]])]"

lemma test_get_path:
  "get_path path_doc ''a.b[1].c'' JNull = Inr (JStr ''deep'')"
  "get_path path_doc ''a.b[-1]'' JNull = Inr (JInt 30)"
  "get_path path_doc ''a.b[-3]'' JNull = Inr (JInt 10)"
  "get_path path_doc (''a'' @ [CHR 0x5C] @ ''.b'') JNull = Inr (JStr ''dotted'')"
  "get_path path_doc ''a.b[3]'' (JStr ''dflt'') = Inr (JStr ''dflt'')"
  "get_path path_doc ''a.b[-4]'' (JStr ''dflt'') = Inr (JStr ''dflt'')"
  "get_path path_doc ''nope'' (JStr ''dflt'') = Inr (JStr ''dflt'')"
  "get_path path_doc ''a[0]'' (JStr ''dflt'') = Inr (JStr ''dflt'')"
  "get_path path_doc ''l.x'' (JStr ''dflt'') = Inr (JStr ''dflt'')"
  "get_path path_doc ''n'' (JStr ''dflt'') = Inr JNull"
  "get_path path_doc ''z'' (JStr ''dflt'') = Inr (JInt 0)"
  "get_path path_doc [] JNull = Inr path_doc"
  "get_path path_doc ''l[1][0]'' JNull = Inr (JInt 3)"
  "get_path (JList [JList [JInt 1, JInt 2], JList [JInt 3]]) ''[0][1]'' JNull = Inr (JInt 2)"
  "get_path (JList [JList [JInt 1, JInt 2], JList [JInt 3]]) ''[5]'' (JStr ''d'') = Inr (JStr ''d'')"
  "get_path (JObj [(''a'', JInt 1)]) ''a.b'' (JStr ''d'') = Inr (JStr ''d'')"
  "get_path path_doc ''a.b[1].c.d.e'' (JStr ''d'') = Inr (JStr ''d'')"
  by code_simp+

end
