(* ===== verification/ChallengeState.thy ===== *)
theory ChallengeState
  imports Solutions
begin

text \<open>
  The reference solutions of the challenge tasks that keep a state or work on a graph
  (\<open>evals/challenge/C05_ledger\<close>, \<open>C06_build_order\<close>, \<open>C07_rate_limiter\<close>, \<open>C10_lfu_cache\<close>): the
  operations as functions on a record, and what holds after every sequence of them.
\<close>

section \<open>C07 sliding-window rate limiter\<close>

text \<open>A deque is a list, oldest first; \<open>setdefault\<close> reads an absent key as an empty deque.\<close>

record limiter =
  lm_limit :: int
  lm_window :: rat
  lm_events :: "string \<Rightarrow> rat list"

definition limiter_init :: "int \<Rightarrow> rat \<Rightarrow> limiter" where
  "limiter_init limit window = \<lparr>lm_limit = limit, lm_window = window, lm_events = \<lambda>_. []\<rparr>"

definition allow :: "string \<Rightarrow> rat \<Rightarrow> limiter \<Rightarrow> bool \<times> limiter" where
  "allow key t l =
     (let q = dropWhile (\<lambda>x. x \<le> t - lm_window l) (lm_events l key) in
      if int (length q) < lm_limit l then (True, l\<lparr>lm_events := (lm_events l)(key := q @ [t])\<rparr>)
      else (False, l\<lparr>lm_events := (lm_events l)(key := q)\<rparr>))"

text \<open>The requests a sequence of calls lets through, newest last.\<close>

fun run_calls :: "(string \<times> rat) list \<Rightarrow> limiter \<Rightarrow> (string \<times> rat) list \<times> limiter" where
  "run_calls [] l = ([], l)"
| "run_calls ((key, t) # calls) l =
     (let (ok, l1) = allow key t l; (rest, l2) = run_calls calls l1 in ((if ok then [(key, t)] else []) @ rest, l2))"

definition accepted :: "(string \<times> rat) list \<Rightarrow> string \<Rightarrow> rat list" where
  "accepted passed key = map snd (filter (\<lambda>p. fst p = key) passed)"

definition in_window :: "rat \<Rightarrow> rat \<Rightarrow> rat list \<Rightarrow> rat list" where
  "in_window window t xs = filter (\<lambda>x. t - window < x \<and> x \<le> t) xs"

text \<open>What the limiter remembers of a key is a suffix of what it let through; what it forgot is too old.\<close>

definition remembers :: "rat \<Rightarrow> (string \<Rightarrow> rat list) \<Rightarrow> limiter \<Rightarrow> bool" where
  "remembers now hist l \<longleftrightarrow> (\<forall>key. sorted (hist key) \<and> (\<forall>x \<in> set (hist key). x \<le> now)
     \<and> (\<exists>old. hist key = old @ lm_events l key \<and> (\<forall>x \<in> set old. x \<le> now - lm_window l)))"

lemma dropWhile_sorted: "sorted xs \<Longrightarrow> dropWhile (\<lambda>x. x \<le> b) xs = filter (\<lambda>x. b < x) (xs :: rat list)"
proof (induction xs)
  case (Cons x xs)
  show ?case
  proof (cases "x \<le> b")
    case False
    with Cons.prems have "\<forall>y \<in> set xs. b < y" by auto
    with False show ?thesis by (simp add: filter_id_conv)
  qed (use Cons in auto)
qed simp

lemma allow_step:
  assumes "remembers now hist l" and "now \<le> t" and "allow key t l = (ok, l1)"
  shows "ok \<longleftrightarrow> int (length (in_window (lm_window l) t (hist key))) < lm_limit l"
    and "remembers t (if ok then hist(key := hist key @ [t]) else hist) l1"
    and "lm_limit l1 = lm_limit l" "lm_window l1 = lm_window l"
proof -
  let ?b = "t - lm_window l" and ?q = "dropWhile (\<lambda>x. x \<le> t - lm_window l) (lm_events l key)"
  obtain old where old: "hist key = old @ lm_events l key" "\<forall>x \<in> set old. x \<le> now - lm_window l"
    and srt: "sorted (hist key)" "\<forall>x \<in> set (hist key). x \<le> now"
    using assms(1) unfolding remembers_def by meson
  have q: "?q = filter (\<lambda>x. ?b < x) (lm_events l key)" using srt(1) old(1) by (intro dropWhile_sorted) (simp add: sorted_append)
  have old_out: "\<forall>x \<in> set old. x \<le> ?b" using old(2) assms(2) by force
  have "in_window (lm_window l) t (hist key) = filter (\<lambda>x. ?b < x) (hist key)"
    unfolding in_window_def using srt(2) assms(2) by (intro filter_cong) auto
  also have "\<dots> = ?q" unfolding q old(1) using old_out by (auto simp: filter_empty_conv not_less)
  finally show "ok \<longleftrightarrow> int (length (in_window (lm_window l) t (hist key))) < lm_limit l"
    using assms(3) by (auto simp: allow_def Let_def split: if_splits)
  show l1: "lm_limit l1 = lm_limit l" "lm_window l1 = lm_window l"
    using assms(3) by (auto simp: allow_def Let_def split: if_splits)
  have ev: "lm_events l1 = (lm_events l)(key := ?q @ (if ok then [t] else []))"
    using assms(3) by (auto simp: allow_def Let_def split: if_splits)
  have key: "hist key = (old @ takeWhile (\<lambda>x. x \<le> ?b) (lm_events l key)) @ ?q" using old(1) by simp
  have dropped: "\<forall>x \<in> set (old @ takeWhile (\<lambda>x. x \<le> ?b) (lm_events l key)). x \<le> ?b"
    using old_out by (auto dest: set_takeWhileD)
  have other: "\<exists>o2. hist k = o2 @ lm_events l k \<and> (\<forall>x \<in> set o2. x \<le> ?b)" for k
    using assms(1,2) unfolding remembers_def by (meson diff_right_mono order.trans)
  have srt': "sorted (hist k) \<and> (\<forall>x \<in> set (hist k). x \<le> t)" for k
    using assms(1,2) unfolding remembers_def by (meson order.trans)
  let ?h = "if ok then hist(key := hist key @ [t]) else hist"
  have h: "?h key = hist key @ (if ok then [t] else [])" "k \<noteq> key \<Longrightarrow> ?h k = hist k" for k by simp_all
  show "remembers t ?h l1"
    unfolding remembers_def
  proof
    fix k
    have "sorted (?h k) \<and> (\<forall>x \<in> set (?h k). x \<le> t)" using srt' [of k] by (auto simp: sorted_append)
    moreover have "\<exists>o2. ?h k = o2 @ lm_events l1 k \<and> (\<forall>x \<in> set o2. x \<le> t - lm_window l1)"
    proof (cases "k = key")
      case True
      have "?h key = (old @ takeWhile (\<lambda>x. x \<le> ?b) (lm_events l key)) @ lm_events l1 key"
        unfolding h(1) ev using key by simp
      with True dropped l1(2) show ?thesis by metis
    next
      case False
      with other [of k] l1(2) show ?thesis by (simp add: h(2) ev)
    qed
    ultimately show "sorted (?h k) \<and> (\<forall>x \<in> set (?h k). x \<le> t)
        \<and> (\<exists>o2. ?h k = o2 @ lm_events l1 k \<and> (\<forall>x \<in> set o2. x \<le> t - lm_window l1))" by blast
  qed
qed

text \<open>The task's rule: a request passes when fewer than \<open>limit\<close> requests of its key passed in the window that ends now.\<close>

fun window_rule :: "int \<Rightarrow> rat \<Rightarrow> (string \<times> rat) list \<Rightarrow> (string \<Rightarrow> rat list) \<Rightarrow> (string \<times> rat) list" where
  "window_rule limit window [] hist = []"
| "window_rule limit window ((key, t) # calls) hist =
     (if int (length (in_window window t (hist key))) < limit
      then (key, t) # window_rule limit window calls (hist(key := hist key @ [t]))
      else window_rule limit window calls hist)"

lemma run_calls_rule:
  assumes "remembers now hist l" and "sorted (now # map snd calls)"
  shows "fst (run_calls calls l) = window_rule (lm_limit l) (lm_window l) calls hist"
  using assms
proof (induction calls arbitrary: now hist l)
  case (Cons c calls)
  obtain key t where c: "c = (key, t)" by fastforce
  obtain ok l1 where a: "allow key t l = (ok, l1)" by fastforce
  have "now \<le> t" using Cons.prems(2) c by simp
  note st = allow_step [OF Cons.prems(1) this a]
  from Cons.IH [OF st(2)] Cons.prems(2) c st(1,3,4) a show ?case
    by (auto simp: split_beta split: if_splits)
qed simp

definition never_more :: "int \<Rightarrow> rat \<Rightarrow> rat list \<Rightarrow> bool" where
  "never_more limit window xs \<longleftrightarrow> (\<forall>t. int (length (in_window window t xs)) \<le> max 0 limit)"

lemma never_more_snoc:
  assumes "never_more limit window xs" and "\<forall>x \<in> set xs. x \<le> t" and "int (length (in_window window t xs)) < limit"
  shows "never_more limit window (xs @ [t])"
  unfolding never_more_def
proof
  fix u
  show "int (length (in_window window u (xs @ [t]))) \<le> max 0 limit"
  proof (cases "u - window < t \<and> t \<le> u")
    case True
    have "length (in_window window u xs) \<le> length (in_window window t xs)"
      unfolding in_window_def using assms(2) True
      by (induction xs) auto
    with assms(3) True show ?thesis by (simp add: in_window_def)
  next
    case False
    then have "in_window window u (xs @ [t]) = in_window window u xs" by (auto simp: in_window_def)
    with assms(1) show ?thesis by (simp add: never_more_def)
  qed
qed

lemma window_rule_bound:
  assumes "\<And>key. never_more limit window (hist key)" and "\<And>key. \<forall>x \<in> set (hist key). x \<le> now" and "sorted (now # map snd calls)"
  shows "never_more limit window (hist key @ accepted (window_rule limit window calls hist) key)"
  using assms
proof (induction calls arbitrary: now hist)
  case (Cons c calls)
  obtain k t where c: "c = (k, t)" by fastforce
  have now: "now \<le> t" "sorted (t # map snd calls)" using Cons.prems(3) c by simp_all
  have le: "\<forall>x \<in> set (hist key). x \<le> t" for key using Cons.prems(2) now(1) by (meson order.trans)
  show ?case
  proof (cases "int (length (in_window window t (hist k))) < limit")
    case True
    let ?h = "hist(k := hist k @ [t])"
    have "never_more limit window (?h key @ accepted (window_rule limit window calls ?h) key)"
    proof (rule Cons.IH [OF _ _ now(2)])
      show "never_more limit window (?h key)" for key
        using Cons.prems(1) never_more_snoc [OF Cons.prems(1) le True] by simp
      show "\<forall>x \<in> set (?h key). x \<le> t" for key using le by auto
    qed
    with True c show ?thesis by (auto simp: accepted_def split: if_splits)
  next
    case False
    with Cons.IH [OF Cons.prems(1) le now(2)] c show ?thesis by simp
  qed
qed (simp add: accepted_def)

text \<open>
  The rate limiter follows its rule exactly, although it forgets: for calls in the order of time it
  lets through the same requests as the rule that looks at everything that passed before, and so no
  window of the given length, wherever it lies, ever holds more than \<open>limit\<close> passed requests of a key.
\<close>

theorem limiter_exact:
  assumes "sorted (map snd calls)"
  shows "fst (run_calls calls (limiter_init limit window)) = window_rule limit window calls (\<lambda>_. [])
    \<and> never_more limit window (accepted (fst (run_calls calls (limiter_init limit window))) key)"
proof -
  define start where "start = (case calls of [] \<Rightarrow> 0 | (_, t) # _ \<Rightarrow> t)"
  have srt: "sorted (start # map snd calls)" using assms by (cases calls) (auto simp: start_def)
  have "remembers start (\<lambda>_. []) (limiter_init limit window)" by (simp add: remembers_def limiter_init_def)
  from run_calls_rule [OF this srt] have run: "fst (run_calls calls (limiter_init limit window)) =
      window_rule limit window calls (\<lambda>_. [])" by (simp add: limiter_init_def)
  have "never_more limit window []" by (simp add: never_more_def in_window_def)
  with window_rule_bound [of limit window "\<lambda>_. []" start calls key] srt run show ?thesis by simp
qed

theorem limiter_exact_witness:
  "never_more 2 10 (accepted (fst (run_calls [(''a'', 0), (''a'', 1), (''a'', 5), (''a'', 10)] (limiter_init 2 10))) ''a'')
   \<and> fst (run_calls [(''a'', 0), (''a'', 1), (''a'', 5), (''a'', 10)] (limiter_init 2 10)) = [(''a'', 0), (''a'', 1), (''a'', 10)]"
proof -
  let ?calls = "[(''a'', 0), (''a'', 1), (''a'', 5), (''a'', 10)] :: (string \<times> rat) list"
  have s: "sorted (map snd ?calls)" by simp
  have "window_rule 2 10 ?calls (\<lambda>_. []) = [(''a'', 0), (''a'', 1), (''a'', 10)]"
    by (simp add: in_window_def)
  with limiter_exact [OF s, of 2 10 "''a''"] show ?thesis by metis
qed

section \<open>C10 least-frequently-used cache\<close>

record 'k lfu_cache =
  lf_cap :: int
  lf_vals :: "('k \<times> int) list"
  lf_freq :: "('k \<times> int) list"
  lf_last :: "('k \<times> int) list"
  lf_tick :: int

definition lfu_init :: "int \<Rightarrow> 'k lfu_cache" where
  "lfu_init capacity = \<lparr>lf_cap = capacity, lf_vals = [], lf_freq = [], lf_last = [], lf_tick = 0\<rparr>"

definition lfu_touch :: "'k \<Rightarrow> 'k lfu_cache \<Rightarrow> 'k lfu_cache" where
  "lfu_touch k c = c\<lparr>lf_tick := lf_tick c + 1,
     lf_freq := AList.update k ((case map_of (lf_freq c) k of None \<Rightarrow> 0 | Some n \<Rightarrow> n) + 1) (lf_freq c),
     lf_last := AList.update k (lf_tick c + 1) (lf_last c)\<rparr>"

definition lfu_get :: "'k \<Rightarrow> 'k lfu_cache \<Rightarrow> int \<times> 'k lfu_cache" where
  "lfu_get k c = (case map_of (lf_vals c) k of None \<Rightarrow> (-1, c) | Some v \<Rightarrow> (v, lfu_touch k c))"

text \<open>\<open>min(keys, key=f)\<close>: the first of the keys with the least \<open>f\<close>.\<close>

fun first_min :: "('a \<Rightarrow> 'b::linorder) \<Rightarrow> 'a list \<Rightarrow> 'a" where
  "first_min f [] = undefined"
| "first_min f [x] = x"
| "first_min f (x # y # xs) = (let m = first_min f (y # xs) in if f x \<le> f m then x else m)"

text \<open>A full cache is not empty when its capacity is positive, so \<open>min\<close> has an argument.\<close>

definition lfu_put :: "'k \<Rightarrow> int \<Rightarrow> 'k lfu_cache \<Rightarrow> 'k lfu_cache" where
  "lfu_put k v c =
     (if lf_cap c \<le> 0 then c
      else (let c1 = (if k \<notin> fst ` set (lf_vals c) \<and> lf_cap c \<le> int (length (lf_vals c))
              then (let victim = first_min (\<lambda>x. (the (map_of (lf_freq c) x), the (map_of (lf_last c) x))) (map fst (lf_vals c))
                    in c\<lparr>lf_vals := AList.delete victim (lf_vals c), lf_freq := AList.delete victim (lf_freq c),
                          lf_last := AList.delete victim (lf_last c)\<rparr>)
              else c)
            in lfu_touch k (c1\<lparr>lf_vals := AList.update k v (lf_vals c1)\<rparr>)))"

subsection \<open>The model of the hidden test\<close>

text \<open>\<open>Model\<close> of the task's test keeps one dict from key to value, number of uses and stamp.\<close>

record 'k lfu_model =
  md_cap :: int
  md_items :: "('k \<times> int \<times> int \<times> int) list"
  md_t :: int

definition model_init :: "int \<Rightarrow> 'k lfu_model" where
  "model_init cap = \<lparr>md_cap = cap, md_items = [], md_t = 0\<rparr>"

definition model_use :: "'k \<Rightarrow> 'k lfu_model \<Rightarrow> 'k lfu_model" where
  "model_use k m = m\<lparr>md_t := md_t m + 1,
     md_items := map (\<lambda>(x, v, n, s). if x = k then (x, v, n + 1, md_t m + 1) else (x, v, n, s)) (md_items m)\<rparr>"

definition model_get :: "'k \<Rightarrow> 'k lfu_model \<Rightarrow> int \<times> 'k lfu_model" where
  "model_get k m = (case map_of (md_items m) k of None \<Rightarrow> (-1, m) | Some (v, _) \<Rightarrow> (v, model_use k m))"

definition model_put :: "'k \<Rightarrow> int \<Rightarrow> 'k lfu_model \<Rightarrow> 'k lfu_model" where
  "model_put k v m =
     (if md_cap m \<le> 0 then m
      else model_use k
        (if k \<in> fst ` set (md_items m)
         then m\<lparr>md_items := map (\<lambda>(x, w, n, s). if x = k then (x, v, n, s) else (x, w, n, s)) (md_items m)\<rparr>
         else (let items = (if md_cap m \<le> int (length (md_items m))
                 then AList.delete (fst (first_min (\<lambda>(x, w, n, s). (n, s)) (md_items m))) (md_items m) else md_items m)
               in m\<lparr>md_items := AList.update k (v, 0, 0) items\<rparr>)))"

fun lfu_step :: "'k cache_op \<Rightarrow> 'k lfu_cache \<Rightarrow> int list \<times> 'k lfu_cache" where
  "lfu_step (Get k) c = (case lfu_get k c of (v, c') \<Rightarrow> ([v], c'))"
| "lfu_step (Put k v) c = ([], lfu_put k v c)"

fun model_step :: "'k cache_op \<Rightarrow> 'k lfu_model \<Rightarrow> int list \<times> 'k lfu_model" where
  "model_step (Get k) m = (case model_get k m of (v, m') \<Rightarrow> ([v], m'))"
| "model_step (Put k v) m = ([], model_put k v m)"

text \<open>The coupling: the three dicts of the cache are the three columns of the model's.\<close>

definition column :: "('r \<Rightarrow> int) \<Rightarrow> ('k \<times> 'r) list \<Rightarrow> ('k \<times> int) list" where
  "column f items = map (\<lambda>(x, r). (x, f r)) items"

definition coupled :: "'k lfu_cache \<Rightarrow> 'k lfu_model \<Rightarrow> bool" where
  "coupled c m \<longleftrightarrow> lf_cap c = md_cap m \<and> lf_tick c = md_t m \<and> distinct (map fst (md_items m))
     \<and> lf_vals c = column fst (md_items m) \<and> lf_freq c = column (fst \<circ> snd) (md_items m)
     \<and> lf_last c = column (snd \<circ> snd) (md_items m)"

lemma map_of_column: "map_of (column f items) k = map_option f (map_of items k)"
  by (induction items) (auto simp: column_def)

lemma keys_column [simp]: "map fst (column f items) = map fst items" "fst ` set (column f items) = fst ` set items"
  "length (column f items) = length items"
  by (force simp: column_def)+

lemma delete_column: "AList.delete k (column f items) = column f (AList.delete k items)"
  by (induction items) (auto simp: column_def)

lemma update_column_out: "k \<notin> fst ` set items \<Longrightarrow> AList.update k v (column f items) = column f items @ [(k, v)]"
  by (simp add: update_at_end)

lemma update_column_in:
  "distinct (map fst items) \<Longrightarrow> k \<in> fst ` set items \<Longrightarrow>
     AList.update k v (column f items) = map (\<lambda>(x, r). (x, if x = k then v else f r)) items"
proof (induction items)
  case (Cons p items)
  show ?case
  proof (cases "fst p = k")
    case True
    with Cons.prems have "k \<notin> fst ` set items" by auto
    then have "map (\<lambda>(x, r). (x, if x = k then v else f r)) items = column f items"
      unfolding column_def by (intro map_cong refl) (auto simp: image_iff)
    with True show ?thesis by (auto simp: column_def split: prod.splits)
  next
    case False
    with Cons show ?thesis by (auto simp: column_def split: prod.splits)
  qed
qed simp

lemma first_min_map: "xs \<noteq> [] \<Longrightarrow> first_min f (map g xs) = g (first_min (f \<circ> g) xs)"
  by (induction "f \<circ> g" xs rule: first_min.induct) (auto simp: Let_def)

lemma first_min_in: "xs \<noteq> [] \<Longrightarrow> first_min f xs \<in> set xs"
  by (induction f xs rule: first_min.induct) (auto simp: Let_def)

lemma first_min_cong: "(\<And>x. x \<in> set xs \<Longrightarrow> f x = g x) \<Longrightarrow> first_min f xs = first_min g xs"
proof (induction f xs rule: first_min.induct)
  case (3 f x y xs)
  then have "first_min f (y # xs) = first_min g (y # xs)" by simp
  moreover have "first_min g (y # xs) \<in> set (x # y # xs)" using first_min_in [of "y # xs" g] by auto
  ultimately show ?case using 3(2) by (simp add: Let_def)
qed auto

lemma coupled_use:
  assumes "coupled c m" and "k \<in> fst ` set (md_items m)"
  shows "coupled (lfu_touch k c) (model_use k m)"
proof -
  let ?items = "md_items m"
  let ?new = "map (\<lambda>(x, v, n, s). if x = k then (x, v, n + 1, md_t m + 1) else (x, v, n, s)) ?items"
  have c: "lf_cap c = md_cap m" "lf_tick c = md_t m" "distinct (map fst ?items)" "lf_vals c = column fst ?items"
    "lf_freq c = column (fst \<circ> snd) ?items" "lf_last c = column (snd \<circ> snd) ?items"
    using assms(1) by (simp_all add: coupled_def)
  obtain v n s where row: "map_of ?items k = Some (v, n, s)"
    using assms(2) by (metis map_of_eq_None_iff not_None_eq prod_cases3)
  have same: "map fst ?new = map fst ?items" by (auto simp: comp_def split: prod.splits if_splits)
  have uses: "n' = n" if "(k, v', n', s') \<in> set ?items" for v' n' s'
    using that row c(3) by (metis map_of_eq_Some_iff option.inject prod.inject)
  have "column fst ?new = column fst ?items" by (auto simp: column_def)
  moreover have "AList.update k (n + 1) (column (fst \<circ> snd) ?items) = column (fst \<circ> snd) ?new"
    unfolding update_column_in [OF c(3) assms(2)] using uses by (auto simp: column_def)
  moreover have "AList.update k (md_t m + 1) (column (snd \<circ> snd) ?items) = column (snd \<circ> snd) ?new"
    unfolding update_column_in [OF c(3) assms(2)] by (auto simp: column_def)
  moreover have "map_of (lf_freq c) k = Some n" by (simp add: c(5) map_of_column row)
  moreover have "distinct (map fst ?new)" unfolding same by (rule c(3))
  ultimately show ?thesis using c by (simp add: coupled_def lfu_touch_def model_use_def del: map_map)
qed

lemma coupled_get:
  assumes "coupled c m"
  shows "fst (lfu_get k c) = fst (model_get k m)" "coupled (snd (lfu_get k c)) (snd (model_get k m))"
proof -
  have look: "map_of (lf_vals c) k = map_option fst (map_of (md_items m) k)"
    using assms by (simp add: coupled_def map_of_column)
  have "coupled (lfu_touch k c) (model_use k m)" if "map_of (md_items m) k = Some r" for r
    using that coupled_use [OF assms] by (metis domI dom_map_of_conv_image_fst)
  with look assms show "fst (lfu_get k c) = fst (model_get k m)" "coupled (snd (lfu_get k c)) (snd (model_get k m))"
    by (auto simp: lfu_get_def model_get_def split: option.splits)
qed

lemma coupled_victim:
  assumes "coupled c m" and "md_items m \<noteq> []"
  shows "first_min (\<lambda>x. (the (map_of (lf_freq c) x), the (map_of (lf_last c) x))) (map fst (lf_vals c))
    = fst (first_min (\<lambda>(x, w, n, s). (n, s)) (md_items m))"
proof -
  let ?key = "\<lambda>x. (the (map_of (lf_freq c) x), the (map_of (lf_last c) x))"
  have d: "distinct (map fst (md_items m))" using assms(1) by (simp add: coupled_def)
  have "(?key \<circ> fst) p = (\<lambda>(x, w, n, s). (n, s)) p" if "p \<in> set (md_items m)" for p
    using map_of_is_SomeI [OF d, of "fst p" "snd p"] that assms(1)
    by (cases p) (simp add: coupled_def map_of_column)
  then have "first_min (?key \<circ> fst) (md_items m) = first_min (\<lambda>(x, w, n, s). (n, s)) (md_items m)"
    by (rule first_min_cong)
  moreover have "map fst (lf_vals c) = map fst (md_items m)" using assms(1) by (simp add: coupled_def)
  ultimately show ?thesis using first_min_map [OF assms(2), of ?key fst] by simp
qed

lemma coupled_put:
  assumes "coupled c m"
  shows "coupled (lfu_put k v c) (model_put k v m)"
proof (cases "lf_cap c \<le> 0")
  case True
  with assms show ?thesis by (auto simp: lfu_put_def model_put_def coupled_def)
next
  case False
  have c: "lf_cap c = md_cap m" "lf_tick c = md_t m" "distinct (map fst (md_items m))" "lf_vals c = column fst (md_items m)"
    "lf_freq c = column (fst \<circ> snd) (md_items m)" "lf_last c = column (snd \<circ> snd) (md_items m)"
    using assms by (simp_all add: coupled_def)
  show ?thesis
  proof (cases "k \<in> fst ` set (md_items m)")
    case True
    let ?c = "c\<lparr>lf_vals := AList.update k v (lf_vals c)\<rparr>"
      and ?m = "m\<lparr>md_items := map (\<lambda>(x, w, n, s). if x = k then (x, v, n, s) else (x, w, n, s)) (md_items m)\<rparr>"
    have same: "map fst (md_items ?m) = map fst (md_items m)" by (auto simp: comp_def split: prod.splits if_splits)
    have "AList.update k v (column fst (md_items m)) = column fst (md_items ?m)"
      unfolding update_column_in [OF c(3) True] by (auto simp: column_def)
    moreover have "distinct (map fst (md_items ?m))" unfolding same by (rule c(3))
    moreover have "column (fst \<circ> snd) (md_items m) = column (fst \<circ> snd) (md_items ?m)"
      "column (snd \<circ> snd) (md_items m) = column (snd \<circ> snd) (md_items ?m)" by (auto simp: column_def)
    ultimately have "coupled ?c ?m" using c by (simp add: coupled_def)
    moreover have "k \<in> fst ` set (md_items ?m)" using True same by (metis set_map)
    ultimately have "coupled (lfu_touch k ?c) (model_use k ?m)" by (rule coupled_use)
    with True False c(1,4) show ?thesis by (simp add: lfu_put_def model_put_def)
  next
    case out: False
    define items where "items = (if md_cap m \<le> int (length (md_items m))
      then AList.delete (fst (first_min (\<lambda>(x, w, n, s). (n, s)) (md_items m))) (md_items m) else md_items m)"
    define c1 where "c1 = c\<lparr>lf_vals := column fst items, lf_freq := column (fst \<circ> snd) items, lf_last := column (snd \<circ> snd) items\<rparr>"
    have sub: "distinct (map fst items)" using c(3) by (simp add: items_def distinct_delete)
    have "fst ` set items \<subseteq> fst ` set (md_items m)" by (simp add: items_def AList.dom_delete_subset)
    with out have sub2: "k \<notin> fst ` set items" by blast
    have "md_cap m \<le> int (length (md_items m)) \<Longrightarrow> md_items m \<noteq> []" using False c(1) by auto
    note victim = coupled_victim [OF assms this]
    have room: "(if k \<notin> fst ` set (lf_vals c) \<and> lf_cap c \<le> int (length (lf_vals c))
              then (let victim = first_min (\<lambda>x. (the (map_of (lf_freq c) x), the (map_of (lf_last c) x))) (map fst (lf_vals c))
                    in c\<lparr>lf_vals := AList.delete victim (lf_vals c), lf_freq := AList.delete victim (lf_freq c),
                          lf_last := AList.delete victim (lf_last c)\<rparr>)
              else c) = c1"
    proof (cases "md_cap m \<le> int (length (md_items m))")
      case True
      with victim out c show ?thesis by (simp add: c1_def items_def delete_column Let_def del: keys_column(1))
    next
      case notfull: False
      have "c1 = c\<lparr>lf_vals := lf_vals c, lf_freq := lf_freq c, lf_last := lf_last c\<rparr>"
        using notfull c(4-6) by (simp add: c1_def items_def)
      with notfull c(1,4) show ?thesis by simp
    qed
    have "AList.update k v (lf_vals c1) = lf_vals c1 @ [(k, v)]" using sub2 by (simp add: c1_def update_at_end)
    then have put: "lfu_put k v c = lfu_touch k (c1\<lparr>lf_vals := lf_vals c1 @ [(k, v)]\<rparr>)"
      unfolding lfu_put_def room using False by (simp add: Let_def)
    have put': "model_put k v m = model_use k (m\<lparr>md_items := items @ [(k, v, 0, 0)]\<rparr>)"
      using False c(1) out sub2 by (simp add: model_put_def items_def Let_def update_at_end)
    let ?c2 = "c1\<lparr>lf_vals := column fst (items @ [(k, v, 0, 0)]), lf_freq := column (fst \<circ> snd) (items @ [(k, v, 0, 0)]),
      lf_last := column (snd \<circ> snd) (items @ [(k, v, 0, 0)])\<rparr>"
      and ?m2 = "m\<lparr>md_items := items @ [(k, v, 0, 0)]\<rparr>"
    have col: "column f (items @ [p]) = column f items @ [(fst p, f (snd p))]" for f :: "int \<times> int \<times> int \<Rightarrow> int" and p
      by (simp add: column_def split: prod.splits)
    have "map_of (column f items) k = None" for f :: "int \<times> int \<times> int \<Rightarrow> int"
      using sub2 by (simp add: map_of_column map_of_eq_None_iff)
    then have touch: "lfu_touch k (c1\<lparr>lf_vals := lf_vals c1 @ [(k, v)]\<rparr>) = lfu_touch k ?c2"
      using sub2 by (simp add: lfu_touch_def c1_def col update_at_end map_add_def)
    have "coupled ?c2 ?m2" using c sub sub2 by (auto simp: coupled_def c1_def)
    then have "coupled (lfu_touch k ?c2) (model_use k ?m2)" by (rule coupled_use) simp
    then show ?thesis by (simp add: put put' touch)
  qed
qed

text \<open>
  The least-frequently-used cache of the reference solution is equivalent to the model in the task's
  hidden test: for every capacity and every sequence of operations both give the same answers, so they
  always evict the same key, ties included.
\<close>

theorem lfu_equals_model:
  "fst (run_ops lfu_step ops (lfu_init cap)) = fst (run_ops model_step ops (model_init cap))"
proof -
  have "coupled c m \<Longrightarrow> fst (run_ops lfu_step ops c) = fst (run_ops model_step ops m)" for c :: "'a lfu_cache" and m
  proof (induction ops arbitrary: c m)
    case (Cons x ops)
    have "fst (lfu_step x c) = fst (model_step x m)" "coupled (snd (lfu_step x c)) (snd (model_step x m))"
      using coupled_get [OF Cons.prems] coupled_put [OF Cons.prems] by (cases x; simp add: split_beta)+
    with Cons.IH show ?case by (simp add: split_beta)
  qed simp
  moreover have "coupled (lfu_init cap) (model_init cap)" by (simp add: coupled_def lfu_init_def model_init_def column_def)
  ultimately show ?thesis by blast
qed

section \<open>C05 ledger\<close>

record ledger =
  lg_balances :: "(string \<times> int) list"
  lg_applied :: "string list"
  lg_hist :: "(string \<times> (string \<times> int) list) list"

definition ledger_init :: ledger where
  "ledger_init = \<lparr>lg_balances = [], lg_applied = [], lg_hist = []\<rparr>"

definition open_account :: "string \<Rightarrow> int \<Rightarrow> ledger \<Rightarrow> ledger result" where
  "open_account account b L =
     (if account \<in> fst ` set (lg_balances L) then Inl (ValueError ''exists'')
      else Inr (L\<lparr>lg_balances := AList.update account b (lg_balances L),
                  lg_hist := AList.update account [] (lg_hist L)\<rparr>))"

definition history_of :: "ledger \<Rightarrow> string \<Rightarrow> (string \<times> int) list" where
  "history_of L a = (case map_of (lg_hist L) a of None \<Rightarrow> [] | Some h \<Rightarrow> h)"

definition book :: "string \<Rightarrow> string \<Rightarrow> int \<Rightarrow> ledger \<Rightarrow> ledger" where
  "book txid a delta L = L\<lparr>lg_balances := AList.update a (the (map_of (lg_balances L) a) + delta) (lg_balances L),
     lg_hist := AList.update a (history_of L a @ [(txid, delta)]) (lg_hist L)\<rparr>"

text \<open>The four assignments write disjoint entries, so they are grouped by account.\<close>

definition transfer :: "string \<Rightarrow> string \<Rightarrow> string \<Rightarrow> int \<Rightarrow> ledger \<Rightarrow> (bool \<times> ledger) result" where
  "transfer txid src dst amount L =
     (if txid \<in> set (lg_applied L) then Inr (False, L)
      else if amount \<le> 0 \<or> src = dst \<or> src \<notin> fst ` set (lg_balances L) \<or> dst \<notin> fst ` set (lg_balances L)
        then Inl (ValueError ''invalid'')
      else if the (map_of (lg_balances L) src) < amount then Inl (ValueError ''insufficient funds'')
      else Inr (True, (book txid dst amount (book txid src (- amount) L))\<lparr>lg_applied := txid # lg_applied L\<rparr>))"

definition balance :: "string \<Rightarrow> ledger \<Rightarrow> int result" where
  "balance account L = (case map_of (lg_balances L) account of None \<Rightarrow> Inl (KeyError account) | Some b \<Rightarrow> Inr b)"

definition history :: "string \<Rightarrow> ledger \<Rightarrow> (string \<times> int) list result" where
  "history account L = (case map_of (lg_hist L) account of None \<Rightarrow> Inl (KeyError account) | Some h \<Rightarrow> Inr h)"

subsection \<open>Any sequence of calls\<close>

datatype ledger_op = Open string int | Transfer string string string int

text \<open>A call that raises changes nothing.\<close>

definition ledger_step :: "ledger \<Rightarrow> ledger_op \<Rightarrow> ledger" where
  "ledger_step L x = (case x of
       Open a b \<Rightarrow> (case open_account a b L of Inl _ \<Rightarrow> L | Inr L' \<Rightarrow> L')
     | Transfer t s d n \<Rightarrow> (case transfer t s d n L of Inl _ \<Rightarrow> L | Inr (_, L') \<Rightarrow> L'))"

definition opened :: "ledger_op list \<Rightarrow> (string \<times> int) list" where
  "opened ops = concat (map (\<lambda>x. case x of Open a b \<Rightarrow> [(a, b)] | _ \<Rightarrow> []) ops)"

lemma update_known:
  assumes "distinct (map fst xs)" and "map_of xs k = Some w"
  shows "map fst (AList.update k v xs) = map fst xs"
    and "sum_list (map snd (AList.update k v xs)) = sum_list (map snd xs) + (v - w :: int)"
  using assms by (induction xs) (auto split: if_splits)

definition audited :: "ledger_op list \<Rightarrow> ledger \<Rightarrow> bool" where
  "audited ops L \<longleftrightarrow> distinct (map fst (lg_balances L))
     \<and> (\<forall>a. map_of (lg_balances L) a =
          map_option (\<lambda>b. b + sum_list (map snd (history_of L a))) (map_of (opened ops) a))
     \<and> (\<forall>a. distinct (map fst (history_of L a)) \<and> fst ` set (history_of L a) \<subseteq> set (lg_applied L))
     \<and> (\<forall>b \<in> snd ` set (lg_balances L). 0 \<le> b)
     \<and> sum_list (map snd (lg_balances L)) = sum_list (map (\<lambda>a. the (map_of (opened ops) a)) (map fst (lg_balances L)))
     \<and> (\<forall>a. a \<notin> fst ` set (lg_balances L) \<longrightarrow> history_of L a = [])"

lemma history_of_book: "history_of (book t a n L) b = (if b = a then history_of L a @ [(t, n)] else history_of L b)"
  by (simp add: history_of_def book_def update_conv')

lemma balances_book: "map_of (lg_balances (book t a n L)) = (map_of (lg_balances L))(a \<mapsto> the (map_of (lg_balances L) a) + n)"
  by (simp add: book_def update_conv')

lemma applied_book [simp]: "lg_applied (book t a n L) = lg_applied L"
  by (simp add: book_def)

text \<open>One booking on an existing account, with a transaction not yet in its history.\<close>

lemma known_book:
  assumes "distinct (map fst (lg_balances L))" and "map_of (lg_balances L) a = Some w"
  shows "map fst (lg_balances (book t a n L)) = map fst (lg_balances L)"
    and "sum_list (map snd (lg_balances (book t a n L))) = sum_list (map snd (lg_balances L)) + n"
  using update_known [OF assms, of "w + n"] assms(2) by (simp_all add: book_def)

lemma auditedD:
  assumes "audited ops L"
  shows "distinct (map fst (lg_balances L))"
    "\<And>a. map_of (lg_balances L) a = map_option (\<lambda>b. b + sum_list (map snd (history_of L a))) (map_of (opened ops) a)"
    "\<And>a. distinct (map fst (history_of L a)) \<and> fst ` set (history_of L a) \<subseteq> set (lg_applied L)"
    "\<forall>b \<in> snd ` set (lg_balances L). 0 \<le> b"
    "sum_list (map snd (lg_balances L)) = sum_list (map (\<lambda>a. the (map_of (opened ops) a)) (map fst (lg_balances L)))"
    "\<And>a. a \<notin> fst ` set (lg_balances L) \<Longrightarrow> history_of L a = []"
  using assms unfolding audited_def by blast+

lemma audited_transfer:
  assumes "audited ops L" and "transfer t s d n L = Inr (True, L')"
  shows "audited ops L'"
proof -
  let ?L1 = "book t s (- n) L" and ?L2 = "book t d n (book t s (- n) L)"
  have ok: "t \<notin> set (lg_applied L)" "0 < n" "s \<noteq> d" "n \<le> the (map_of (lg_balances L) s)" and L': "L' = ?L2\<lparr>lg_applied := t # lg_applied L\<rparr>"
    and known: "s \<in> fst ` set (lg_balances L)" "d \<in> fst ` set (lg_balances L)"
    using assms(2) by (auto simp: transfer_def split: if_splits)
  then obtain ws wd where w: "map_of (lg_balances L) s = Some ws" "map_of (lg_balances L) d = Some wd"
    using known by (metis map_of_eq_None_iff not_None_eq)
  note a = auditedD [OF assms(1)]
  note k1 = known_book [OF a(1) w(1), of t "- n"]
  have d1: "distinct (map fst (lg_balances ?L1))" "map_of (lg_balances ?L1) d = Some wd"
    using k1(1) a(1) w(2) ok(3) by (simp_all add: balances_book)
  note k2 = known_book [OF d1, of t n]
  have keys: "map fst (lg_balances ?L2) = map fst (lg_balances L)" using k1(1) k2(1) by simp
  have sum: "sum_list (map snd (lg_balances ?L2)) = sum_list (map snd (lg_balances L))" using k1(2) k2(2) by simp
  have bal: "map_of (lg_balances ?L2) = (map_of (lg_balances L))(s \<mapsto> ws - n, d \<mapsto> wd + n)"
    using w ok(3) by (simp add: balances_book)
  have "0 \<le> wd" using a(4) w(2) by (force dest: map_of_SomeD)
  then have pos: "\<forall>b \<in> ran (map_of (lg_balances ?L2)). 0 \<le> b"
    using a(1,4) ok w by (auto simp: bal ran_def dest!: map_of_SomeD split: if_splits)
  have "distinct (map fst (lg_balances ?L2))" using keys a(1) by simp
  then have pos': "\<forall>b \<in> snd ` set (lg_balances ?L2). 0 \<le> b" using pos by (simp add: ran_distinct)
  have eq: "map_of (lg_balances ?L2) x = map_option (\<lambda>b. b + sum_list (map snd (history_of ?L2 x))) (map_of (opened ops) x)" for x
    using a(2) [of x] w ok(3) by (cases "map_of (opened ops) x") (auto simp: bal history_of_book)
  have fresh: "t \<notin> fst ` set (history_of L x)" for x using a(3) [of x] ok(1) by blast
  have hist: "distinct (map fst (history_of ?L2 x)) \<and> fst ` set (history_of ?L2 x) \<subseteq> set (t # lg_applied L)" for x
    using a(3) [of x] fresh [of x] ok(3) by (auto simp: history_of_book)
  have mem: "x \<in> fst ` set (lg_balances ?L2) \<longleftrightarrow> x \<in> fst ` set (lg_balances L)" for x
    using arg_cong [OF keys, of set] by simp
  have none: "x \<notin> fst ` set (lg_balances ?L2) \<Longrightarrow> history_of ?L2 x = []" for x
    using a(6) [of x] known unfolding mem by (auto simp: history_of_book)
  have same: "lg_balances L' = lg_balances ?L2" "history_of L' = history_of ?L2" "lg_applied L' = t # lg_applied L"
    by (simp_all add: L' history_of_def fun_eq_iff)
  show ?thesis
    unfolding audited_def same using keys sum a(1,5) eq hist pos' none by (simp del: set_simps)
qed

lemma audited_open:
  assumes "audited ops L" and "open_account x b L = Inr L'" and "0 \<le> b"
  shows "audited (ops @ [Open x b]) L'"
proof -
  have new: "x \<notin> fst ` set (lg_balances L)"
    and L': "L' = L\<lparr>lg_balances := lg_balances L @ [(x, b)], lg_hist := AList.update x [] (lg_hist L)\<rparr>"
    using assms(2) by (auto simp: open_account_def update_at_end split: if_splits)
  note a = auditedD [OF assms(1)]
  have h: "history_of L' = history_of L"
    using a(6) [OF new] by (auto simp: L' history_of_def update_conv' fun_eq_iff split: option.splits)
  have none: "map_of (lg_balances L) x = None" using new by (simp add: map_of_eq_None_iff)
  with a(2) [of x] have "map_of (opened ops) x = None" by simp
  then have opn: "map_of (opened (ops @ [Open x b])) y = (if y = x then Some b else map_of (opened ops) y)" for y
    by (auto simp: opened_def map_add_def split: option.splits)
  have keep: "map (\<lambda>y. the (map_of (opened (ops @ [Open x b])) y)) (map fst (lg_balances L))
      = map (\<lambda>y. the (map_of (opened ops) y)) (map fst (lg_balances L))"
    using new by (intro map_cong refl) (auto simp: opn)
  have "map_of (lg_balances L') y = map_option (\<lambda>b. b + sum_list (map snd (history_of L' y)))
      (map_of (opened (ops @ [Open x b])) y)" for y
    using a(2) [of y] a(6) [OF new] none unfolding h opn by (cases "y = x"; cases "map_of (opened ops) y") (simp_all add: L' map_add_def)
  moreover have "sum_list (map snd (lg_balances L')) =
      sum_list (map (\<lambda>y. the (map_of (opened (ops @ [Open x b])) y)) (map fst (lg_balances L')))"
  proof -
    let ?f = "\<lambda>y. the (map_of (opened (ops @ [Open x b])) y)"
    have keys: "map fst (lg_balances L') = map fst (lg_balances L) @ [x]"
      and vals: "map snd (lg_balances L') = map snd (lg_balances L) @ [b]" by (simp_all add: L')
    have "map ?f (map fst (lg_balances L')) = map (\<lambda>y. the (map_of (opened ops) y)) (map fst (lg_balances L)) @ [b]"
      unfolding keys map_append keep by (simp add: opn)
    then show ?thesis unfolding vals by (simp only: sum_list_append a(5))
  qed
  moreover have "\<forall>b \<in> snd ` set (lg_balances L'). 0 \<le> b" using a(4) assms(3) by (simp add: L')
  moreover have "distinct (map fst (lg_balances L'))" using a(1) new by (simp add: L')
  moreover have "y \<notin> fst ` set (lg_balances L') \<Longrightarrow> history_of L' y = []" for y using a(6) unfolding h by (simp add: L')
  moreover have "distinct (map fst (history_of L' y)) \<and> fst ` set (history_of L' y) \<subseteq> set (lg_applied L')" for y
    using a(3) [of y] unfolding h by (simp add: L')
  ultimately show ?thesis unfolding audited_def by blast
qed

lemma opened_irrelevant:
  assumes "audited ops L" and "\<And>a b. x = Open a b \<Longrightarrow> a \<in> fst ` set (lg_balances L)"
  shows "audited (ops @ [x]) L"
proof -
  have "map_of (opened (ops @ [x])) a = map_of (opened ops) a" for a
  proof (cases x)
    case (Open y b)
    with assms(2) obtain w where "map_of (lg_balances L) y = Some w" by (metis map_of_eq_None_iff not_None_eq)
    with auditedD(2) [OF assms(1), of y] obtain v where "map_of (opened ops) y = Some v"
      by (cases "map_of (opened ops) y") auto
    with Open show ?thesis by (auto simp: opened_def map_add_def split: option.splits)
  qed (simp add: opened_def)
  with assms(1) show ?thesis by (simp add: audited_def)
qed

lemma audited_step:
  assumes "audited ops L" and "\<And>a b. x = Open a b \<Longrightarrow> 0 \<le> b"
  shows "audited (ops @ [x]) (ledger_step L x)"
proof (cases x)
  case (Open a b)
  show ?thesis
  proof (cases "open_account a b L")
    case (Inl e)
    then have "a \<in> fst ` set (lg_balances L)" by (simp add: open_account_def split: if_splits)
    with Inl Open opened_irrelevant [OF assms(1), of x] show ?thesis by (simp add: ledger_step_def)
  next
    case (Inr L')
    with audited_open [OF assms(1) Inr] assms(2) Open show ?thesis by (simp add: ledger_step_def)
  qed
next
  case (Transfer t s d n)
  have keep: "audited ops L' \<Longrightarrow> audited (ops @ [x]) L'" for L' using opened_irrelevant Transfer by blast
  show ?thesis
  proof (cases "transfer t s d n L")
    case (Inl e)
    with keep [OF assms(1)] Transfer show ?thesis by (simp add: ledger_step_def)
  next
    case (Inr r)
    obtain ok L' where r: "r = (ok, L')" by fastforce
    have "ok \<or> L' = L" using Inr r by (auto simp: transfer_def split: if_splits)
    with audited_transfer [OF assms(1), of t s d n L'] assms(1) Inr r have "audited ops L'" by (cases ok) auto
    from keep [OF this] Inr r Transfer show ?thesis by (simp add: ledger_step_def)
  qed
qed

lemma audited_run: "list_all (\<lambda>p. 0 \<le> snd p) (opened ops) \<Longrightarrow> audited ops (foldl ledger_step ledger_init ops)"
proof (induction ops rule: rev_induct)
  case Nil
  show ?case by (simp add: audited_def ledger_init_def history_of_def opened_def)
next
  case (snoc x ops)
  then have "audited ops (foldl ledger_step ledger_init ops)" by (simp add: opened_def)
  moreover have "x = Open a b \<Longrightarrow> 0 \<le> b" for a b using snoc.prems by (simp add: opened_def)
  ultimately have "audited (ops @ [x]) (ledger_step (foldl ledger_step ledger_init ops) x)" by (rule audited_step)
  then show ?case by simp
qed



section \<open>C06 build order\<close>

text \<open>
  Sets of tasks are lists without duplicates, whose order the code does not use. \<open>heapq\<close> is a sorted
  list: \<open>heappop\<close> returns a least element, and only equal elements could be told apart.
\<close>

type_synonym deps = "(string \<times> string list) list"

definition all_tasks :: "deps \<Rightarrow> string list" where
  "all_tasks deps = remdups (map fst deps @ concat (map snd deps))"

definition prereqs :: "deps \<Rightarrow> string \<Rightarrow> string list" where
  "prereqs deps t = remdups (case map_of deps t of None \<Rightarrow> [] | Some ps \<Rightarrow> ps)"

definition dependents :: "deps \<Rightarrow> string \<Rightarrow> string list" where
  "dependents deps p = filter (\<lambda>t. p \<in> set (prereqs deps t)) (all_tasks deps)"

definition release_one :: "string \<Rightarrow> (string \<Rightarrow> string list) \<times> string list \<Rightarrow> string \<Rightarrow> (string \<Rightarrow> string list) \<times> string list" where
  "release_one t s d = (let P = (fst s)(d := removeAll t (fst s d)) in (P, if P d = [] then insort d (snd s) else snd s))"

partial_function (option) build_loop :: "deps \<Rightarrow> (string \<Rightarrow> string list) \<Rightarrow> string list \<Rightarrow> string list \<Rightarrow> string list option" where
  "build_loop deps P ready order =
     (case ready of [] \<Rightarrow> Some order
      | t # rest \<Rightarrow> (let s = foldl (release_one t) (P, rest) (dependents deps t) in
          build_loop deps (fst s) (snd s) (order @ [t])))"

declare build_loop.simps [code]

definition build_order :: "deps \<Rightarrow> string list result option" where
  "build_order deps =
     (let tasks = all_tasks deps; P = prereqs deps in
      map_option (\<lambda>order. if length order \<noteq> length tasks then Inl (ValueError ''cycle'') else Inr order)
        (build_loop deps P (sort (filter (\<lambda>t. P t = []) tasks)) []))"

text \<open>The tasks that can be built next, and what an order has to satisfy.\<close>

definition available :: "deps \<Rightarrow> string list \<Rightarrow> string set" where
  "available deps order = {t \<in> set (all_tasks deps) - set order. set (prereqs deps t) \<subseteq> set order}"

definition valid_order :: "deps \<Rightarrow> string list \<Rightarrow> bool" where
  "valid_order deps order \<longleftrightarrow> (\<forall>i < length order. order ! i \<in> available deps (take i order)
     \<and> (\<forall>t \<in> available deps (take i order). order ! i \<le> t))"

lemma prereqs_are_tasks: "p \<in> set (prereqs deps t) \<Longrightarrow> p \<in> set (all_tasks deps)"
proof -
  assume "p \<in> set (prereqs deps t)"
  then obtain ps where "map_of deps t = Some ps" "p \<in> set ps" by (cases "map_of deps t") (auto simp: prereqs_def)
  then have "ps \<in> set (map snd deps)" by (force dest: map_of_SomeD)
  with \<open>p \<in> set ps\<close> show ?thesis by (auto simp: all_tasks_def)
qed

lemma valid_order_snoc:
  "valid_order deps order \<Longrightarrow> t \<in> available deps order \<Longrightarrow> (\<And>u. u \<in> available deps order \<Longrightarrow> t \<le> u) \<Longrightarrow>
     valid_order deps (order @ [t])"
  by (auto simp: valid_order_def nth_append less_Suc_eq)

lemma valid_order_facts:
  "valid_order deps order \<Longrightarrow> distinct order \<and> set order \<subseteq> set (all_tasks deps)
     \<and> (\<forall>t \<in> set order. set (prereqs deps t) \<subseteq> set order)"
proof (induction order rule: rev_induct)
  case (snoc t order)
  have "valid_order deps order"
    using snoc.prems by (force simp: valid_order_def nth_append less_Suc_eq)
  moreover have "t \<in> available deps order"
    using snoc.prems unfolding valid_order_def by (force simp: nth_append)
  ultimately show ?case using snoc.IH by (auto simp: available_def)
qed simp

lemma release_all:
  assumes "distinct ds" and "sorted r" and "distinct r" and "set r \<inter> set ds = {}"
  shows "let s = foldl (release_one t) (P, r) ds in fst s = (\<lambda>d. if d \<in> set ds then removeAll t (P d) else P d)
    \<and> sorted (snd s) \<and> distinct (snd s) \<and> set (snd s) = set r \<union> {d \<in> set ds. removeAll t (P d) = []}"
  using assms
proof (induction ds arbitrary: P r)
  case (Cons d ds)
  let ?P = "P(d := removeAll t (P d))" and ?r = "if removeAll t (P d) = [] then insort d r else r"
  have "release_one t (P, r) d = (?P, ?r)" by (simp add: release_one_def Let_def)
  moreover have "sorted ?r" "distinct ?r" "set ?r \<inter> set ds = {}"
    using Cons.prems by (auto simp: sorted_insort distinct_insort set_insort_key)
  moreover have "distinct ds" "d \<notin> set ds" using Cons.prems(1) by simp_all
  moreover define s where "s = foldl (release_one t) (?P, ?r) ds"
  ultimately have step: "foldl (release_one t) (P, r) (d # ds) = s" and d: "d \<notin> set ds"
    and IH: "fst s = (\<lambda>x. if x \<in> set ds then removeAll t (?P x) else ?P x)" "sorted (snd s)" "distinct (snd s)"
      "set (snd s) = set ?r \<union> {x \<in> set ds. removeAll t (?P x) = []}"
    using Cons.IH [of ?r ?P] unfolding Let_def by simp_all
  have "{x \<in> set ds. removeAll t (?P x) = []} = {x \<in> set ds. removeAll t (P x) = []}" using d by auto
  then have "set (snd s) = set r \<union> {x \<in> set (d # ds). removeAll t (P x) = []}"
    unfolding IH(4) by (auto simp: set_insort_key)
  moreover have "fst s = (\<lambda>x. if x \<in> set (d # ds) then removeAll t (P x) else P x)"
    unfolding IH(1) using d by (auto simp: fun_eq_iff)
  ultimately show ?case unfolding step Let_def using IH(2,3) by blast
qed simp

lemma available_snoc:
  assumes t: "t \<in> available deps order" and closed: "\<And>x. x \<in> set order \<Longrightarrow> set (prereqs deps x) \<subseteq> set order"
    and P: "\<And>x. x \<in> set (all_tasks deps) \<Longrightarrow> set (P x) = set (prereqs deps x) - set order"
  shows "available deps (order @ [t])
    = available deps order - {t} \<union> {d \<in> set (dependents deps t). removeAll t (P d) = []}"
proof (rule set_eqI)
  fix x
  have tn: "t \<notin> set order" "set (prereqs deps t) \<subseteq> set order" using t by (simp_all add: available_def)
  show "x \<in> available deps (order @ [t])
      \<longleftrightarrow> x \<in> available deps order - {t} \<union> {d \<in> set (dependents deps t). removeAll t (P d) = []}"
  proof (cases "x \<in> set (all_tasks deps) \<and> t \<in> set (prereqs deps x)")
    case True
    then have "x \<notin> set order" "x \<noteq> t" "x \<in> set (dependents deps t)" "x \<notin> available deps order"
      using tn closed by (auto simp: dependents_def available_def)
    moreover have "removeAll t (P x) = [] \<longleftrightarrow> set (P x) \<subseteq> {t}" by (auto simp: removeAll_filter_not_eq filter_empty_conv)
    ultimately show ?thesis using True P [of x] by (auto simp: available_def)
  next
    case False
    then show ?thesis by (auto simp: dependents_def available_def)
  qed
qed

lemma build_loop_ends:
  assumes "valid_order deps order" and "sorted ready" and "distinct ready" and "set ready = available deps order"
    and "\<And>t. t \<in> set (all_tasks deps) \<Longrightarrow> set (P t) = set (prereqs deps t) - set order"
  shows "\<exists>final. build_loop deps P ready order = Some final \<and> valid_order deps final \<and> available deps final = {}"
  using assms
proof (induction "card (set (all_tasks deps) - set order)" arbitrary: P ready order rule: less_induct)
  case less
  show ?case
  proof (cases ready)
    case Nil
    with less.prems show ?thesis by (auto simp: build_loop.simps)
  next
    case (Cons t rest)
    let ?ds = "dependents deps t"
    define s where "s = foldl (release_one t) (P, rest) ?ds"
    note facts = valid_order_facts [OF less.prems(1)]
    have t: "t \<in> available deps order" "\<And>u. u \<in> available deps order \<Longrightarrow> t \<le> u"
      using less.prems(2,4) Cons by auto
    have valid: "valid_order deps (order @ [t])" by (rule valid_order_snoc [OF less.prems(1) t])
    have ds: "d \<in> set ?ds \<longleftrightarrow> d \<in> set (all_tasks deps) \<and> t \<in> set (prereqs deps d)" for d by (auto simp: dependents_def)
    have "set rest \<inter> set ?ds = {}"
    proof -
      have "set (prereqs deps x) \<subseteq> set order" if "x \<in> set rest" for x
        using that less.prems(4) Cons by (auto simp: available_def)
      moreover have "t \<notin> set order" using t(1) by (simp add: available_def)
      ultimately show ?thesis using ds by blast
    qed
    then have s: "fst s = (\<lambda>d. if d \<in> set ?ds then removeAll t (P d) else P d)" "sorted (snd s)" "distinct (snd s)"
      "set (snd s) = set rest \<union> {d \<in> set ?ds. removeAll t (P d) = []}"
      using release_all [of ?ds rest t P] less.prems(2,3) Cons
      by (auto simp: s_def Let_def dependents_def all_tasks_def)
    have P: "set (fst s u) = set (prereqs deps u) - set (order @ [t])" if "u \<in> set (all_tasks deps)" for u
      using that less.prems(5) [OF that] ds [of u] by (auto simp: s(1))
    have rest: "set rest = available deps order - {t}" using less.prems(3,4) Cons by auto
    have "set (snd s) = available deps (order @ [t])"
      unfolding s(4) rest using available_snoc [OF t(1) _ less.prems(5)] facts by simp
    moreover have "card (set (all_tasks deps) - set (order @ [t])) < card (set (all_tasks deps) - set order)"
      using t(1) by (intro psubset_card_mono) (auto simp: available_def)
    ultimately have "\<exists>final. build_loop deps (fst s) (snd s) (order @ [t]) = Some final \<and> valid_order deps final \<and> available deps final = {}"
      using less.hyps [OF _ valid s(2,3)] P by blast
    then show ?thesis unfolding Cons by (subst build_loop.simps) (simp add: Let_def s_def)
  qed
qed

text \<open>
  C37. The build order is a topological order, and the right one: for every dependency graph the function
  returns; if it returns an order, this lists every task once, each after its prerequisites, always the
  alphabetically first task that can be built next; if it reports a cycle, there is a set of tasks each
  of which needs another of them, so no order exists.
\<close>

theorem build_order_correct:
  "\<exists>res. build_order deps = Some res \<and>
    (case res of
       Inr order \<Rightarrow> set order = set (all_tasks deps) \<and> distinct order \<and> valid_order deps order
     | Inl e \<Rightarrow> e = ValueError ''cycle'' \<and> (\<exists>C. C \<noteq> {} \<and> C \<subseteq> set (all_tasks deps)
         \<and> C \<subseteq> {t. set (prereqs deps t) \<inter> C \<noteq> {}}))"
proof -
  let ?T = "set (all_tasks deps)" and ?ready = "sort (filter (\<lambda>t. prereqs deps t = []) (all_tasks deps))"
  have "set ?ready = available deps []" "distinct ?ready" "sorted ?ready"
    by (auto simp: available_def all_tasks_def)
  moreover have "valid_order deps []" by (simp add: valid_order_def)
  ultimately obtain final where final: "build_loop deps (prereqs deps) ?ready [] = Some final" "valid_order deps final"
    "available deps final = {}" using build_loop_ends [of deps "[]" ?ready "prereqs deps"] by auto
  note f = valid_order_facts [OF final(2)]
  have len: "length (all_tasks deps) = card ?T" by (simp add: all_tasks_def distinct_card [symmetric] del: set_remdups)
  have "length final = card (set final)" using f by (simp add: distinct_card)
  show ?thesis
  proof (cases "set final = ?T")
    case True
    with final f len \<open>length final = card (set final)\<close> show ?thesis by (simp add: build_order_def Let_def)
  next
    case False
    then have "length final \<noteq> length (all_tasks deps)"
      using f len \<open>length final = card (set final)\<close> by (metis List.finite_set card_subset_eq)
    then have err: "build_order deps = Some (Inl (ValueError ''cycle''))" using final(1) by (simp add: build_order_def Let_def)
    let ?C = "?T - set final"
    have "set (prereqs deps t) \<inter> ?C \<noteq> {}" if "t \<in> ?C" for t
    proof -
      have "\<not> set (prereqs deps t) \<subseteq> set final" using that final(3) by (auto simp: available_def)
      then obtain p where p: "p \<in> set (prereqs deps t)" "p \<notin> set final" by blast
      then have "p \<in> ?T" using prereqs_are_tasks by blast
      with p show ?thesis by blast
    qed
    moreover have "?C \<noteq> {}" using False f by blast
    ultimately show ?thesis using err by (intro exI [of _ "Inl (ValueError ''cycle'')"]) (auto intro!: exI [of _ ?C])
  qed
qed

section \<open>The hidden tests\<close>

text \<open>The deterministic asserts of the four \<open>test.py\<close>; their random parts draw from the same space as the theorems.\<close>

fun answers :: "(string \<times> rat) list \<Rightarrow> limiter \<Rightarrow> bool list" where
  "answers [] l = []"
| "answers ((key, t) # calls) l = (case allow key t l of (ok, l1) \<Rightarrow> ok # answers calls l1)"

definition test_limiter :: bool where
  "test_limiter \<longleftrightarrow> answers [(''a'', 0), (''a'', 1), (''a'', 5), (''a'', 10), (''a'', 21 / 2), (''a'', 11), (''b'', 5)] (limiter_init 2 10)
     = [True, True, False, True, False, True, True]"

definition test_lfu :: bool where
  "test_lfu \<longleftrightarrow> fst (run_ops lfu_step [Put 1 1, Put 2 2, Get (1::int), Put 3 3, Get 2, Get 3, Put 4 4, Get 1, Get 3, Get 4] (lfu_init 2))
       = [1, -1, 3, -1, 3, 4]
     \<and> fst (run_ops lfu_step [Put 1 1, Get (1::int)] (lfu_init 0)) = [-1]
     \<and> fst (run_ops lfu_step [Put 1 10, Put 2 20, Put 1 11, Put 3 30, Get (2::int), Get 1, Get 3, Get 99] (lfu_init 2))
       = [-1, 11, 30, -1]"

definition test_build_order :: bool where
  "test_build_order \<longleftrightarrow>
     build_order [(''c'', [''a'', ''b'']), (''b'', [''a'']), (''a'', [])] = Some (Inr [''a'', ''b'', ''c''])
   \<and> build_order [(''d'', [''b'', ''c'']), (''b'', [''a'']), (''c'', [''a'']), (''e'', [])] = Some (Inr [''a'', ''b'', ''c'', ''d'', ''e''])
   \<and> build_order [(''b'', [''a''])] = Some (Inr [''a'', ''b''])
   \<and> build_order [(''z'', []), (''m'', []), (''a'', [])] = Some (Inr [''a'', ''m'', ''z'']) \<and> build_order [] = Some (Inr [])
   \<and> build_order [(''b'', [''a'', ''a'']), (''c'', [''b'', ''a''])] = Some (Inr [''a'', ''b'', ''c''])
   \<and> build_order [(''x'', [''b'']), (''y'', [''a'']), (''a'', []), (''b'', [])] = Some (Inr [''a'', ''b'', ''x'', ''y''])
   \<and> build_order [(''x'', [''y'']), (''y'', [''x''])] = Some (Inl (ValueError ''cycle''))
   \<and> build_order [(''a'', [''a''])] = Some (Inl (ValueError ''cycle''))
   \<and> build_order [(''a'', [''b'']), (''b'', [''c'']), (''c'', [''a'']), (''d'', [])] = Some (Inl (ValueError ''cycle''))"

text \<open>The ledger's test as a sequence of calls; a failed one leaves the books as they are.\<close>

definition test_ledger :: bool where
  "test_ledger \<longleftrightarrow> (let
      l1 = foldl ledger_step ledger_init [Open ''a'' 100, Open ''b'' 0, Open ''a'' 0, Transfer ''t1'' ''a'' ''b'' 40];
      l2 = foldl ledger_step l1 [Transfer ''t1'' ''a'' ''b'' 40, Transfer ''t1'' ''nope'' ''nope'' (-5)];
      l3 = foldl ledger_step l2 [Transfer ''t2'' ''a'' ''b'' 60, Transfer ''t3'' ''a'' ''b'' 1, Transfer ''t3'' ''a'' ''a'' 1,
        Transfer ''t3'' ''a'' ''b'' 0, Transfer ''t3'' ''a'' ''b'' (-3), Transfer ''t3'' ''a'' ''zzz'' 1, Transfer ''t3'' ''zzz'' ''a'' 1];
      l4 = foldl ledger_step l3 [Transfer ''t9'' ''b'' ''a'' 10, Transfer ''t3'' ''a'' ''b'' 5, Transfer ''t4'' ''a'' ''b'' 6]
    in lg_balances l1 = [(''a'', 60), (''b'', 40)] \<and> lg_balances l2 = lg_balances l1
     \<and> lg_balances l3 = [(''a'', 0), (''b'', 100)]
     \<and> history ''a'' l4 = Inr [(''t1'', -40), (''t2'', -60), (''t9'', 10), (''t3'', -5)]
     \<and> history ''b'' l4 = Inr [(''t1'', 40), (''t2'', 60), (''t9'', -10), (''t3'', 5)]
     \<and> balance ''a'' l4 = Inr 5)"

lemma challenge_state_tests: "test_limiter" "test_lfu" "test_build_order" "test_ledger"
  by code_simp+

end
