(* ===== verification/Spec2Isabelle.thy ===== *)
theory Spec2Isabelle
  imports RunLimits Workspace Refinement Execution Envfile Api EvalRun Bench Pacing Evaluate
    ChallengeText ChallengeState
begin

text \<open>
  Verification library of phoenix, a crash-safe runner for LLM coding agents.

  \<^bold>\<open>The program.\<close> A run is a task spec and an append-only log of events in PostgreSQL. Workers claim a
  run's task with a lease (\<open>leases.py\<close>), replay its log, compute the next step (a toy workflow or an
  agent that asks a model, edits files and runs code in a Docker sandbox) and commit it in one
  transaction (\<open>engine.py\<close>) that checks the fence, appends the event, adds the cost and, on the last step,
  ends the run. A reaper gives expired leases back. Every provider call is logged and its answer cached
  before the step commits. Around this core stand the HTTP API, the timeline, the eval suite and the
  chaos harness, which kills and suspends workers and then checks the database. All paths below are
  under \<open>src/src/phoenix/\<close>.

  \<^bold>\<open>Modelling conventions.\<close> The database is the record \<open>db\<close> of \<open>Store\<close>: one list of rows per table,
  and an SQL statement is a function on it (\<open>sql_update\<close> for \<open>UPDATE ... WHERE\<close>). A transaction is one
  function from database to database; nothing interleaves inside it, and row locks that other
  transactions hold are a parameter (\<open>SKIP LOCKED\<close>). Exceptions are values of \<open>error\<close>, a call that may
  raise returns \<open>error + 'a\<close>. JSON values are the datatype \<open>json\<close>, dicts are association lists, time is
  an integer number of microseconds, money an exact rational with the rounding of \<open>NUMERIC\<close> columns
  written out. Code that is not in the repository is a parameter: the model providers, the Docker
  daemon, the HTTP transport, Python's text of floats, hashing, the clock, the random generator.

  \<^bold>\<open>Theories.\<close>
  \<^item> \<open>Prelude\<close>, \<open>Values\<close>, \<open>Text\<close>: results, rows, \<open>NUMERIC\<close> rounding, Python's conversions and text
    operations.
  \<^item> \<open>Store\<close> (\<open>store.py\<close>, \<open>migrations/\<close>): tables, \<open>append_event\<close>, \<open>read_events\<close>, migrations. The locale
    \<open>event_log\<close> is the contract of an idempotent log; it is interpreted on \<open>append_event\<close>.
  \<^item> \<open>Leases\<close> (\<open>leases.py\<close>): claim, heartbeat, reap, release, the fence. The locale \<open>fencing\<close> says what a
    monotone token gives; it is interpreted on the queue operations.
  \<^item> \<open>Engine\<close>, \<open>Worker\<close> (\<open>engine.py\<close>): outcomes, the toy workflow, \<open>commit_step\<close>, the loop of
    \<open>execute_task\<close>, the error handler, the choice of provider and workflow, one turn of a worker. The
    locale \<open>bounded_workflow\<close> gives termination of the loop; it is interpreted on both workflows.
    \<open>Execution\<close>: the sequential code of a worker, simulated by the steps of \<open>System\<close>.
  \<^item> \<open>LLM\<close> (\<open>llm/base.py\<close>, \<open>cache.py\<close>, \<open>mock.py\<close>), \<open>OpenAICompat\<close>, \<open>Providers\<close>, \<open>Conversation\<close>, \<open>Pacing\<close> (the
    real adapters and \<open>factory.py\<close>): the response cache, the scripted provider, the translation of
    conversations, the retry loop, the tools offered and the pacing of requests. The locale
    \<open>chat_protocol\<close> (every tool call is answered under its id) is interpreted on both adapters.
  \<^item> \<open>Budget\<close> (\<open>budget.py\<close>), \<open>Agent\<close>, \<open>Workspace\<close> (\<open>agent.py\<close>), \<open>Sandbox\<close> (\<open>sandbox/\<close>): limits and loop
    detection, the tools on a file system with links, the container's life.
  \<^item> \<open>Chaos\<close> (\<open>chaos/invariants.py\<close> and the zombie scenario), \<open>Injector\<close> (\<open>chaos/injector.py\<close>),
    \<open>Supervisor\<close>, \<open>ChaosRun\<close> (\<open>chaos/scenarios.py\<close>): the checks, the worker processes, the plan and the
    supervisor's loop, the whole scenario and its report. The locale \<open>worker_operation\<close> is what the
    supervisor needs of every signal; it is interpreted on kill, suspend, resume and stop.
  \<^item> \<open>Api\<close> (\<open>api.py\<close>), \<open>Timeline\<close> (\<open>timeline.py\<close>), \<open>Envfile\<close> (\<open>envfile.py\<close>), \<open>Evals\<close>, \<open>EvalRun\<close>, \<open>Report\<close>
    (\<open>evals/\<close>): the surroundings. \<open>CommandLine\<close>, \<open>Cli\<close> (\<open>__main__.py\<close>): the options, and every command from
    its line to its output and exit code. \<open>Bench\<close> (\<open>bench/\<close>): the benchmark scripts.
  \<^item> \<open>Solutions\<close>, \<open>Evaluate\<close>, \<open>ChallengeText\<close>, \<open>ChallengeState\<close>: the reference solutions of the eval tasks
    (\<open>evals/tasks/\<close>, \<open>evals/challenge/\<close>), the two wrong ones that serve as negative controls, and the
    asserts of their hidden tests.
  \<^item> \<open>System\<close> composes the core into one transition system \<open>sys_step\<close>: a database and any number of
    executions in flight, each transaction of the code one step, in any interleaving, with crashes,
    zombies and reaping at any time. \<open>Trace\<close> is a concrete execution of it, used by the witnesses.
    The locale \<open>kept_invariant\<close> (an invariant of a step relation) and, on top of it, \<open>table_invariant\<close> (an
    invariant of the tables under the database operations) are interpreted on the platform's invariants.
  \<^item> \<open>Safety\<close>, \<open>Billing\<close>, \<open>RunLimits\<close>: these invariants and what follows for every reachable state.
    \<open>Refinement\<close>: the abstract machine a client sees, and the simulation.

  \<^bold>\<open>What is shown.\<close>
  \<^item> For every reachable state, under any interleaving: the platform refines the abstract life of a run
    (C1); logs pass the integrity check when fencing is on, and are contiguous even when it is off; a
    finished run never changes; the records of its end agree; no attempt pays twice for a step; actions
    stay within budget and step limit; \<open>spent_usd\<close> is the sum of the events (\<open>Safety\<close>, \<open>Billing\<close>,
    \<open>RunLimits\<close>, \<open>Refinement\<close>). Every run of the worker's own code is a path of that system, so all
    of this holds of what a worker does (\<open>Execution\<close>).
  \<^item> Per operation: exactly one commit per step, exclusive leases, refusal of superseded claims, the
    error handler's two ways out, the cached answer, loop detection (\<open>Engine\<close>, \<open>Leases\<close>, \<open>Worker\<close>,
    \<open>LLM\<close>, \<open>Budget\<close>, \<open>Store\<close>).
  \<^item> Agents: a takeover rebuilds the files; no action leaves the workspace; every execution ends.
  \<^item> Chaos: with fencing every zombie commit is refused, an unfenced one is detected; the log check is
    exactly its specification; a fenced scenario that ends in time passes, and a pass means what it
    says; the supervisor keeps its staff and accounts for every fault.
  \<^item> Interfaces: accepted submissions are bounded and run to success; the timeline is complete; \<open>.env\<close>
    never overrides; conversations are well formed; retries are bounded and requests paced; an eval
    pass is earned; the injector and the parser agree on the command line; the chaos command exits with 0 on a correct
    platform.
  \<^item> Reference solutions: the main ones are shown to do what their prompts ask (optimal coins, topological build
    order, a ledger that balances, caches that evict the right key, an evaluator that respects
    precedence, round trips of the codecs), the hidden tests pass, and the negative controls fail them.
  \<^item> Benchmarks: which rank the percentile takes; duplicate calls are retries of later attempts.

  \<^bold>\<open>Bounds and fuel.\<close> No definition uses fuel. \<open>execute_loop\<close> is a \<open>partial_function\<close> because a toy run
  without a last step never ends (lemma \<open>toy_without_steps_never_finishes\<close>); that agent executions and
  toy runs return is proved as such, through the measure of \<open>bounded_workflow\<close>. \<open>post_from\<close> ends by the
  measure \<open>MAX_ATTEMPTS - attempt\<close>, \<open>refill\<close> by the number of missing workers. \<open>cut_word\<close>, \<open>build_loop\<close> and the
  parser \<open>parse\<close> are \<open>partial_function\<close>s whose termination is a theorem (\<open>wrap_text_correct\<close> for positive
  widths, \<open>build_order_correct\<close>, \<open>evaluate_returns\<close>). Loops that poll the outside
  world (heartbeat, supervisor, waiting for the evals) recurse over the list of what the world does in
  each turn, and say that they still go on when the list is used up.

  \<^bold>\<open>Not modelled.\<close> The connection pool, the asyncio event loop (its interleavings are the steps of
  \<open>System\<close>), FastAPI's and pydantic's decoding, what \<open>argparse\<close> makes of unusual
  lines (abbreviated options, \<open>--opt=value\<close>, \<open>--help\<close>), the HTTP and SDK clients, the system prompt, the
  set-up code of the benchmark scripts, and the random parts of the hidden tests. Floats are exact rationals, except in the expression evaluator, where their
  operations are a parameter; infinities and NaN are outside the model.
\<close>

end
